(* ===== verification/Prelude.thy ===== *)
theory Prelude
  imports Complex_Main "HOL-Library.AList" "HOL-Library.List_Lexorder" "HOL-Library.Char_ord"
begin

text \<open>
  What the component theories share: the result type that stands for Python's
  exceptions, insertion-ordered dictionaries as association lists, counting and summing
  over dictionaries and table rows, and the collections of simplification rules.
  Python's unbounded \<open>int\<close> is \<^typ>\<open>int\<close>; clock readings and other
  \<open>float\<close> quantities are exact reals.
\<close>

section \<open>Types\<close>

type_synonym seconds = real
type_synonym nano_usd = int
type_synonym ('k, 'v) dict = "('k \<times> 'v) list"

named_theorems dict_simps \<open>lookup, update, deletion and counting on dictionaries\<close>
named_theorems result_simps \<open>sequencing of computations that may raise\<close>

section \<open>Computations that may raise\<close>

text \<open>The exceptions of the modelled code, with their message.\<close>

datatype py_error =
    ValueError string
  | RuntimeError string
  | IntegrityError string
  | NanoUsdOverflowError string
  | GatewayLedgerError string
  | ProviderError string
  | KeyLookupError string
  | IndexError string
  | IdempotencyConflictError string
  | IdempotencyReplayUnavailableError string
  | AccountingRecoverySupersededError string
  | AccountingRecoveryUnresolvedTerminalError string

text \<open>\<open>Inl e\<close> is a raised exception, \<open>Inr a\<close> a normal return.\<close>

definition rbind :: "'e + 'a \<Rightarrow> ('a \<Rightarrow> 'e + 'b) \<Rightarrow> 'e + 'b" where
  "rbind r f = (case r of Inl e \<Rightarrow> Inl e | Inr a \<Rightarrow> f a)"

text \<open>A loop whose body may raise: left to right, stopping at the first exception.\<close>

fun rfold :: "('x \<Rightarrow> 's \<Rightarrow> 'e + 's) \<Rightarrow> 'x list \<Rightarrow> 's \<Rightarrow> 'e + 's" where
  "rfold f [] s = Inr s"
| "rfold f (x # xs) s = rbind (f x s) (rfold f xs)"

lemma rbind_simps [simp, result_simps]:
  "rbind (Inl e) f = Inl e" "rbind (Inr a) f = f a"
  by (simp_all add: rbind_def)

lemma rbind_eq_Inr_iff [result_simps]:
  "rbind r f = Inr b \<longleftrightarrow> (\<exists>a. r = Inr a \<and> f a = Inr b)"
  by (cases r) auto

lemma rbind_eq_Inl_iff [result_simps]:
  "rbind r f = Inl e \<longleftrightarrow> r = Inl e \<or> (\<exists>a. r = Inr a \<and> f a = Inl e)"
  by (cases r) auto

lemma rfold_invariant:
  assumes "rfold f xs s = Inr s'" and "P s"
    and "\<And>x t t'. x \<in> set xs \<Longrightarrow> P t \<Longrightarrow> f x t = Inr t' \<Longrightarrow> P t'"
  shows "P s'"
  using assms
proof (induction xs arbitrary: s)
  case Nil
  then show ?case by simp
next
  case (Cons x xs)
  then obtain t where t: "f x s = Inr t" "rfold f xs t = Inr s'"
    by (auto simp: rbind_eq_Inr_iff)
  with Cons show ?case by (meson list.set_intros)
qed

lemma rfold_total:
  assumes "P s"
    and "\<And>x t. x \<in> set xs \<Longrightarrow> P t \<Longrightarrow> \<exists>t'. f x t = Inr t' \<and> P t'"
  shows "\<exists>s'. rfold f xs s = Inr s' \<and> P s'"
  using assms
proof (induction xs arbitrary: s)
  case Nil
  then show ?case by simp
next
  case (Cons x xs)
  from Cons.prems obtain t where t: "f x s = Inr t" "P t" by fastforce
  have "\<exists>s'. rfold f xs t = Inr s' \<and> P s'"
    using t(2) Cons.prems(2) by (intro Cons.IH) auto
  with t(1) show ?case by simp
qed

section \<open>Dictionaries\<close>

text \<open>
  A Python dictionary iterates in insertion order: storing at a present key keeps its
  position, storing at a new key appends. \<^const>\<open>AList.update\<close> does exactly that.
\<close>

definition dset :: "'k \<Rightarrow> 'v \<Rightarrow> ('k, 'v) dict \<Rightarrow> ('k, 'v) dict" where
  "dset k v d = AList.update k v d"

definition dpop :: "'k \<Rightarrow> ('k, 'v) dict \<Rightarrow> ('k, 'v) dict" where
  "dpop k d = AList.delete k d"

definition dget :: "('k, 'v) dict \<Rightarrow> 'k \<Rightarrow> 'v option" where
  "dget d k = map_of d k"

text \<open>\<open>d.get(k, default)\<close>.\<close>

definition dget_or :: "'v \<Rightarrow> ('k, 'v) dict \<Rightarrow> 'k \<Rightarrow> 'v" where
  "dget_or v d k = (case dget d k of None \<Rightarrow> v | Some w \<Rightarrow> w)"

definition dkeys_distinct :: "('k, 'v) dict \<Rightarrow> bool" where
  "dkeys_distinct d \<longleftrightarrow> distinct (map fst d)"

lemma dget_dset [simp, dict_simps]: "dget (dset k v d) k' = (if k' = k then Some v else dget d k')"
  by (simp add: dget_def dset_def update_conv')

lemma dget_dpop [simp, dict_simps]: "dget (dpop k d) k' = (if k' = k then None else dget d k')"
  by (simp add: dget_def dpop_def delete_conv')

lemma dget_Nil [simp, dict_simps]: "dget [] k = None"
  by (simp add: dget_def)

lemma dkeys_distinct_Nil [simp]: "dkeys_distinct []"
  by (simp add: dkeys_distinct_def)

lemma dkeys_distinct_dset [simp, intro]: "dkeys_distinct d \<Longrightarrow> dkeys_distinct (dset k v d)"
  by (simp add: dkeys_distinct_def dset_def distinct_update)

lemma dkeys_distinct_dpop [simp, intro]: "dkeys_distinct d \<Longrightarrow> dkeys_distinct (dpop k d)"
  by (simp add: dkeys_distinct_def dpop_def distinct_delete)

lemma dkeys_distinct_filter [simp, intro]: "dkeys_distinct d \<Longrightarrow> dkeys_distinct (filter P d)"
  unfolding dkeys_distinct_def by (induction d) auto

lemma dget_in_set: "dget d k = Some v \<Longrightarrow> (k, v) \<in> set d"
  by (simp add: dget_def map_of_SomeD)

lemma in_set_dget: "dkeys_distinct d \<Longrightarrow> (k, v) \<in> set d \<Longrightarrow> dget d k = Some v"
  by (simp add: dget_def dkeys_distinct_def)

lemma dget_filter_key:
  "dkeys_distinct d \<Longrightarrow>
   dget (filter P d) k = (case dget d k of None \<Rightarrow> None | Some v \<Rightarrow> if P (k, v) then Some v else None)"
  unfolding dget_def dkeys_distinct_def
  by (induction d) (auto split: option.splits dest: map_of_SomeD simp: map_of_eq_None_iff rev_image_eqI)

section \<open>Counting and summing over dictionaries\<close>

text \<open>How many entries of a dictionary satisfy a test, and the sum of a measure over them.\<close>

definition dcount :: "('k \<times> 'v \<Rightarrow> bool) \<Rightarrow> ('k, 'v) dict \<Rightarrow> int" where
  "dcount P d = int (length (filter P d))"

lemma dcount_Nil [simp]: "dcount P [] = 0"
  by (simp add: dcount_def)

lemma dcount_nonneg [simp]: "0 \<le> dcount P d"
  by (simp add: dcount_def)

lemma dset_fresh: "dget d k = None \<Longrightarrow> dset k v d = d @ [(k, v)]"
  unfolding dget_def dset_def by (induction d) (auto split: if_splits)

lemma dcount_append: "dcount P (d @ e) = dcount P d + dcount P e"
  by (simp add: dcount_def)

lemma dcount_dset_fresh [dict_simps]:
  "dget d k = None \<Longrightarrow> dcount P (dset k v d) = dcount P d + (if P (k, v) then 1 else 0)"
  by (simp add: dset_fresh dcount_append) (simp add: dcount_def)

lemma dpop_eq_filter: "dpop k d = filter (\<lambda>e. fst e \<noteq> k) d"
  unfolding dpop_def by (induction d) auto

lemma dcount_dpop [dict_simps]:
  assumes "dkeys_distinct d" and "dget d k = Some v"
  shows "dcount P (dpop k d) = dcount P d - (if P (k, v) then 1 else 0)"
  using assms unfolding dpop_eq_filter dcount_def dkeys_distinct_def dget_def
proof (induction d)
  case Nil
  then show ?case by simp
next
  case (Cons e d)
  show ?case
  proof (cases "fst e = k")
    case True
    with Cons.prems have "\<forall>e' \<in> set d. fst e' \<noteq> k" by (auto simp: rev_image_eqI)
    then have "filter (\<lambda>e. fst e \<noteq> k) d = d" by simp
    with True Cons.prems show ?thesis by (cases e) auto
  next
    case False
    with Cons.prems Cons.IH show ?thesis by (cases e) auto
  qed
qed

lemma dpop_absent: "dget d k = None \<Longrightarrow> dpop k d = d"
  unfolding dpop_eq_filter dget_def by (auto simp: map_of_eq_None_iff filter_id_conv)

lemma dcount_pos: "dget d k = Some v \<Longrightarrow> P (k, v) \<Longrightarrow> 0 < dcount P d"
  unfolding dcount_def by (auto dest!: dget_in_set simp: filter_empty_conv)

lemma dcount_zeroD: "dcount P d = 0 \<Longrightarrow> dget d k = Some v \<Longrightarrow> \<not> P (k, v)"
  using dcount_pos by fastforce

lemma dcount_le: "(\<And>e. P e \<Longrightarrow> Q e) \<Longrightarrow> dcount P d \<le> dcount Q d"
  unfolding dcount_def by (induction d) auto

lemma dcount_cong: "(\<And>e. e \<in> set d \<Longrightarrow> P e = Q e) \<Longrightarrow> dcount P d = dcount Q d"
  unfolding dcount_def by (metis filter_cong)

section \<open>Optional amounts\<close>

text \<open>Python's \<open>x or 0\<close> on an optional amount.\<close>

definition or0 :: "int option \<Rightarrow> int" where
  "or0 x = (case x of None \<Rightarrow> 0 | Some v \<Rightarrow> v)"

lemma or0_simps [simp]: "or0 None = 0" "or0 (Some v) = v"
  by (simp_all add: or0_def)

text \<open>A field bound \<open>ge=lo\<close> on an optional integer.\<close>

definition opt_ge :: "int \<Rightarrow> int option \<Rightarrow> bool" where
  "opt_ge lo x = (case x of None \<Rightarrow> True | Some v \<Rightarrow> lo \<le> v)"

lemma opt_ge_simps [simp]: "opt_ge lo None" "opt_ge lo (Some v) \<longleftrightarrow> lo \<le> v"
  by (simp_all add: opt_ge_def)

lemma or0_nonneg: "opt_ge 0 x \<Longrightarrow> 0 \<le> or0 x"
  by (cases x) auto

section \<open>Tables\<close>

text \<open>
  A SQL table is the list of its rows. \<open>UPDATE \<dots> WHERE\<close> maps, its \<open>rowcount\<close> is the number of
  matching rows, \<open>SELECT \<dots> WHERE\<close> filters.
\<close>

definition update_where :: "('r \<Rightarrow> bool) \<Rightarrow> ('r \<Rightarrow> 'r) \<Rightarrow> 'r list \<Rightarrow> 'r list" where
  "update_where P f rs = map (\<lambda>r. if P r then f r else r) rs"

definition rowcount :: "('r \<Rightarrow> bool) \<Rightarrow> 'r list \<Rightarrow> nat" where
  "rowcount P rs = length (filter P rs)"

text \<open>A raised exception rolls the transaction back: the state stays as it was.\<close>

definition transact :: "('s \<Rightarrow> 'e + 's) \<Rightarrow> 's \<Rightarrow> 's" where
  "transact f s = (case f s of Inl _ \<Rightarrow> s | Inr s' \<Rightarrow> s')"

lemma set_update_where: "set (update_where P f rs) = {r \<in> set rs. \<not> P r} \<union> f ` {r \<in> set rs. P r}"
  by (auto simp: update_where_def image_iff)

lemma map_update_where:
  "(\<And>r. P r \<Longrightarrow> g (f r) = g r) \<Longrightarrow> map g (update_where P f rs) = map g rs"
  by (auto simp: update_where_def)

lemma rowcount_zero: "rowcount P rs = 0 \<longleftrightarrow> (\<forall>r \<in> set rs. \<not> P r)"
  by (simp add: rowcount_def filter_empty_conv)

lemma distinct_key_eq:
  "distinct (map key rs) \<Longrightarrow> r \<in> set rs \<Longrightarrow> r' \<in> set rs \<Longrightarrow> key r = key r' \<Longrightarrow> r = r'"
  by (induction rs) (auto simp: rev_image_eqI)

lemma find_by_key:
  assumes "distinct (map key rs)" and "r \<in> set rs"
  shows "find (\<lambda>x. key x = key r) rs = Some r"
  using assms by (induction rs) (auto simp: rev_image_eqI)

text \<open>A row selected by its primary key is the only match.\<close>

lemma rowcount_key:
  assumes "distinct (map key rs)" and "r \<in> set rs" and "Q r"
  shows "rowcount (\<lambda>x. key x = key r \<and> Q x) rs = 1"
  using assms
proof (induction rs)
  case Nil
  then show ?case by simp
next
  case (Cons x rs)
  show ?case
  proof (cases "x = r")
    case True
    with Cons.prems have "\<forall>y \<in> set rs. key y \<noteq> key r" by (auto simp: rev_image_eqI)
    then have "filter (\<lambda>x. key x = key r \<and> Q x) rs = []" by (auto simp: filter_empty_conv)
    with True Cons.prems show ?thesis by (simp add: rowcount_def)
  next
    case False
    with Cons have "rowcount (\<lambda>x. key x = key r \<and> Q x) rs = 1" "key x \<noteq> key r"
      by (auto simp: rev_image_eqI)
    then show ?thesis by (simp add: rowcount_def)
  qed
qed

text \<open>Updating the one row with a key changes a sum over the table by the change of that row.\<close>

lemma sum_list_update_key:
  fixes g :: "'r \<Rightarrow> int"
  assumes "distinct (map key rs)" and "r \<in> set rs" and "Q r"
  shows "(\<Sum>x \<leftarrow> update_where (\<lambda>x. key x = key r \<and> Q x) f rs. g x) = (\<Sum>x \<leftarrow> rs. g x) - g r + g (f r)"
  using assms
proof (induction rs)
  case Nil
  then show ?case by simp
next
  case (Cons x rs)
  show ?case
  proof (cases "x = r")
    case True
    with Cons.prems have "\<forall>y \<in> set rs. key y \<noteq> key r" by (auto simp: rev_image_eqI)
    then have "update_where (\<lambda>x. key x = key r \<and> Q x) f rs = rs"
      by (auto simp: update_where_def intro: map_idI)
    with True Cons.prems show ?thesis by (simp add: update_where_def)
  next
    case False
    with Cons.prems have "key x \<noteq> key r" "r \<in> set rs" by (auto simp: rev_image_eqI)
    with Cons show ?thesis by (simp add: update_where_def)
  qed
qed

section \<open>Components and their reachable states\<close>

text \<open>
  A component is a start state and a step for every operation; an operation that raises leaves the
  state unchanged. \<open>admissible\<close> restricts the operations to those its callers may issue.
\<close>

inductive reachable :: "('op \<Rightarrow> 's \<Rightarrow> 's) \<Rightarrow> ('op \<Rightarrow> bool) \<Rightarrow> 's \<Rightarrow> 's \<Rightarrow> bool"
  for step :: "'op \<Rightarrow> 's \<Rightarrow> 's" and admissible :: "'op \<Rightarrow> bool" and start :: 's where
  start: "reachable step admissible start start"
| step: "reachable step admissible start s \<Longrightarrow> admissible op \<Longrightarrow> reachable step admissible start (step op s)"

lemma reachable_fold:
  assumes "list_all admissible ops"
  shows "reachable step admissible start (fold step ops start)"
  using assms
proof (induction ops rule: rev_induct)
  case Nil
  then show ?case by (simp add: reachable.start)
next
  case (snoc op ops)
  then show ?case by (simp add: reachable.step)
qed

text \<open>The contract every stateful component of the development satisfies.\<close>

locale component =
  fixes step :: "'op \<Rightarrow> 's \<Rightarrow> 's" and admissible :: "'op \<Rightarrow> bool" and start :: 's and inv :: "'s \<Rightarrow> bool"
  assumes inv_start: "inv start"
    and inv_step: "inv s \<Longrightarrow> admissible op \<Longrightarrow> inv (step op s)"
begin

lemma reachable_inv: "reachable step admissible start s \<Longrightarrow> inv s"
  by (induction rule: reachable.induct) (auto intro: inv_start inv_step)

lemma inv_fold: "list_all admissible ops \<Longrightarrow> inv (fold step ops start)"
  by (rule reachable_inv [OF reachable_fold])

end

text \<open>
  A component that refines an abstract machine: each of its steps is some steps of the machine, none included. The laws carry
  over to every sequence of operations.
\<close>

locale refined_component = component +
  fixes abs :: "'s \<Rightarrow> 'a" and machine :: "'a \<Rightarrow> 'a \<Rightarrow> bool"
  assumes simulates: "inv s \<Longrightarrow> admissible op \<Longrightarrow> machine\<^sup>*\<^sup>* (abs s) (abs (step op s))"
begin

lemma fold_inv: "inv s \<Longrightarrow> list_all admissible ops \<Longrightarrow> inv (fold step ops s)"
  by (induction ops arbitrary: s) (auto intro: inv_step)

lemma fold_simulates: "inv s \<Longrightarrow> list_all admissible ops \<Longrightarrow> machine\<^sup>*\<^sup>* (abs s) (abs (fold step ops s))"
proof (induction ops arbitrary: s)
  case (Cons op ops)
  have "machine\<^sup>*\<^sup>* (abs s) (abs (step op s))" using simulates [of s op] Cons.prems by simp
  moreover have "machine\<^sup>*\<^sup>* (abs (step op s)) (abs (fold step ops (step op s)))"
    by (rule Cons.IH) (use Cons.prems inv_step in auto)
  ultimately show ?case by simp
qed simp

lemma reachable_simulates:
  assumes "reachable step admissible start s" and "list_all admissible ops"
  shows "machine\<^sup>*\<^sup>* (abs s) (abs (fold step ops s))"
  by (rule fold_simulates [OF reachable_inv [OF assms(1)] assms(2)])

end

text \<open>
  The same with labelled moves: an operation gives a run of the machine whose labels are among those the operation may show.
\<close>

inductive run :: "('l \<Rightarrow> 'a \<Rightarrow> 'a \<Rightarrow> bool) \<Rightarrow> 'l list \<Rightarrow> 'a \<Rightarrow> 'a \<Rightarrow> bool" for machine :: "'l \<Rightarrow> 'a \<Rightarrow> 'a \<Rightarrow> bool" where
  stop: "run machine [] s s"
| move: "machine l s s' \<Longrightarrow> run machine ls s' s'' \<Longrightarrow> run machine (l # ls) s s''"

lemma run_one: "machine l s s' \<Longrightarrow> run machine [l] s s'"
  by (auto intro: run.intros)

lemma run_append: "run machine ls s s' \<Longrightarrow> run machine ls' s' s'' \<Longrightarrow> run machine (ls @ ls') s s''"
  by (induction rule: run.induct) (auto intro: run.intros)

lemma run_keeps: "run machine ls s s' \<Longrightarrow> (\<And>l s s'. machine l s s' \<Longrightarrow> I s \<Longrightarrow> I s') \<Longrightarrow> I s \<Longrightarrow> I s'"
  by (induction rule: run.induct) auto

locale labelled_refinement = component +
  fixes abs :: "'s \<Rightarrow> 'a" and machine :: "'l \<Rightarrow> 'a \<Rightarrow> 'a \<Rightarrow> bool" and shows_as :: "'op \<Rightarrow> 's \<Rightarrow> 'l list \<Rightarrow> bool"
  assumes simulates: "inv s \<Longrightarrow> admissible op \<Longrightarrow> \<exists>ls. shows_as op s ls \<and> run machine ls (abs s) (abs (step op s))"
begin

lemma fold_inv: "inv s \<Longrightarrow> list_all admissible ops \<Longrightarrow> inv (fold step ops s)"
  by (induction ops arbitrary: s) (auto intro: inv_step)

lemma reachable_shows:
  "reachable step admissible start s \<Longrightarrow> admissible op \<Longrightarrow> \<exists>ls. shows_as op s ls \<and> run machine ls (abs s) (abs (step op s))"
  by (rule simulates [OF reachable_inv])

lemma reachable_run: "reachable step admissible start s \<Longrightarrow> \<exists>ls. run machine ls (abs start) (abs s)"
  by (induction rule: reachable.induct) (auto intro: run.stop dest!: reachable_shows intro: run_append)

end

end
