(* ===== verification/Catalog_Prices.thy ===== *)
theory Catalog_Prices
  imports Prelude
begin

text \<open>
  Price cards (\<^verbatim>\<open>src/exp/common/models/catalog_prices.py\<close>): token rates shared by the
  base, service-tier, long-context and off-peak cards, per-unit cards, the weekly peak
  windows and the selection of the card an attempt is priced at.
  A card's eight token rates are the record \<open>token_rates\<close>; the richer cards extend it, so
  a function over \<open>'a token_rates_scheme\<close> accepts every card that carries rates, as the
  Python functions over \<open>GatewayTokenPrices | GatewayLongContextTier\<close> do.
\<close>

section \<open>Cards\<close>

definition MAXIMUM_RATE_NANO_USD_PER_MILLION_TOKENS :: int where
  "MAXIMUM_RATE_NANO_USD_PER_MILLION_TOKENS = 1000000000000"

record token_rates =
  input_nano_usd_per_million_tokens :: "int option"
  cached_input_nano_usd_per_million_tokens :: "int option"
  cache_creation_input_nano_usd_per_million_tokens :: "int option"
  cache_creation_1h_input_nano_usd_per_million_tokens :: "int option"
  cache_creation_12h_input_nano_usd_per_million_tokens :: "int option"
  output_nano_usd_per_million_tokens :: "int option"
  reasoning_nano_usd_per_million_tokens :: "int option"
  image_output_nano_usd_per_million_tokens :: "int option"

record gateway_long_context_tier = token_rates +
  input_threshold_tokens :: int

record gateway_service_tier_prices = token_rates +
  tier_long_context :: "gateway_long_context_tier option"

definition MAXIMUM_RATE_NANO_USD_PER_UNIT :: int where
  "MAXIMUM_RATE_NANO_USD_PER_UNIT = 1000000000000"

definition MAXIMUM_UNIT_VARIANT_CHARACTERS :: nat where
  "MAXIMUM_UNIT_VARIANT_CHARACTERS = 64"

datatype billed_unit_kind = CHARACTER | AUDIO_SECOND | VIDEO_SECOND | IMAGE

record gateway_unit_prices =
  unit_kind :: billed_unit_kind
  rates :: "(string, int) dict"

text \<open>\<open>_bounded_rates\<close>: the validator runs over the entries in order.\<close>

definition unit_rate_entry_ok :: "string \<times> int \<Rightarrow> py_error + unit" where
  "unit_rate_entry_ok = (\<lambda>(variant, rate).
     if length variant > MAXIMUM_UNIT_VARIANT_CHARACTERS
       then Inl (ValueError ''unit variant exceeds the character bound'')
     else if rate < 0 \<or> rate > MAXIMUM_RATE_NANO_USD_PER_UNIT
       then Inl (ValueError ''unit rate out of range'')
     else Inr ())"

definition bounded_rates :: "(string, int) dict \<Rightarrow> py_error + unit" where
  "bounded_rates d = rfold (\<lambda>e u. unit_rate_entry_ok e) d ()"

definition rate_for :: "gateway_unit_prices \<Rightarrow> string \<Rightarrow> int option" where
  "rate_for c variant =
     (case dget (rates c) variant of
        Some r \<Rightarrow> Some r
      | None \<Rightarrow> dget (rates c) '''')"

section \<open>Peak windows\<close>

definition MINUTES_PER_DAY :: int where "MINUTES_PER_DAY = 24 * 60"
definition MAXIMUM_PEAK_WINDOWS :: nat where "MAXIMUM_PEAK_WINDOWS = 32"
definition MAXIMUM_OFF_PEAK_DATES :: nat where "MAXIMUM_OFF_PEAK_DATES = 128"

text \<open>The two bands, in minutes.\<close>

definition PEAK_GUARD_BAND :: int where "PEAK_GUARD_BAND = 1"
definition PEAK_LEAD_BAND :: int where "PEAK_LEAD_BAND = 15"

record gateway_price_window =
  window_days :: "int list"
  start_minute :: int
  end_minute :: int

text \<open>The field bounds of \<open>GatewayPriceWindow\<close>, then \<open>_canonical\<close>.\<close>

definition window_fields_ok :: "gateway_price_window \<Rightarrow> bool" where
  "window_fields_ok w \<longleftrightarrow>
     window_days w \<noteq> [] \<and> length (window_days w) \<le> 7
     \<and> list_all (\<lambda>d. 1 \<le> d \<and> d \<le> 7) (window_days w)
     \<and> 0 \<le> start_minute w \<and> start_minute w < MINUTES_PER_DAY
     \<and> 0 < end_minute w \<and> end_minute w \<le> MINUTES_PER_DAY"

fun strictly_increasing :: "int list \<Rightarrow> bool" where
  "strictly_increasing (x # y # zs) = (x < y \<and> strictly_increasing (y # zs))"
| "strictly_increasing _ = True"

definition window_canonical :: "gateway_price_window \<Rightarrow> py_error + gateway_price_window" where
  "window_canonical w =
     (if start_minute w \<ge> end_minute w
        then Inl (ValueError ''a price window must end after it starts on the same UTC day'')
      else if \<not> strictly_increasing (window_days w)
        then Inl (ValueError ''price window days must be strictly increasing ISO weekdays'')
      else Inr w)"

definition covers :: "gateway_price_window \<Rightarrow> int \<Rightarrow> int \<Rightarrow> bool" where
  "covers w weekday minute \<longleftrightarrow>
     weekday \<in> set (window_days w) \<and> start_minute w \<le> minute \<and> minute < end_minute w"

text \<open>
  Instants. \<open>Aware t\<close> is a timezone-aware \<open>datetime\<close> read in UTC, as whole microseconds since
  1970-01-01T00:00Z (Python's resolution); \<open>Naive\<close> carries no offset. A UTC date is its
  day number since that epoch, a Thursday (ISO weekday 4).
\<close>

datatype py_datetime = Naive int | Aware int

type_synonym utc_date = int

definition utc_minute :: "int \<Rightarrow> int" where "utc_minute t = t div 60000000"
definition date_of_minute :: "int \<Rightarrow> utc_date" where "date_of_minute m = m div MINUTES_PER_DAY"
definition isoweekday :: "utc_date \<Rightarrow> int" where "isoweekday d = (d + 3) mod 7 + 1"

section \<open>Off-peak card and the complete price card\<close>

record gateway_off_peak_prices =
  off_peak_card :: gateway_service_tier_prices
  peak_windows :: "gateway_price_window list"
  off_peak_dates :: "utc_date list"

definition windows_overlap :: "gateway_price_window \<Rightarrow> gateway_price_window \<Rightarrow> bool" where
  "windows_overlap w v \<longleftrightarrow>
     set (window_days w) \<inter> set (window_days v) \<noteq> {}
     \<and> start_minute w < end_minute v \<and> start_minute v < end_minute w"

fun any_windows_overlap :: "gateway_price_window list \<Rightarrow> bool" where
  "any_windows_overlap [] = False"
| "any_windows_overlap (w # ws) = (list_ex (windows_overlap w) ws \<or> any_windows_overlap ws)"

definition off_peak_canonical :: "gateway_off_peak_prices \<Rightarrow> py_error + gateway_off_peak_prices" where
  "off_peak_canonical p =
     (if any_windows_overlap (peak_windows p)
        then Inl (ValueError ''off-peak schedule peak windows must not overlap'')
      else if \<not> strictly_increasing (off_peak_dates p)
        then Inl (ValueError ''off-peak dates must be strictly increasing'')
      else Inr p)"

definition peak :: "gateway_off_peak_prices \<Rightarrow> int \<Rightarrow> bool" where
  "peak p t =
     (let m = utc_minute t; d = date_of_minute m
      in if d \<in> set (off_peak_dates p) then False
         else list_ex (\<lambda>w. covers w (isoweekday d) (m mod MINUTES_PER_DAY)) (peak_windows p))"

definition applies_at :: "gateway_off_peak_prices \<Rightarrow> py_datetime \<Rightarrow> py_error + bool" where
  "applies_at p instant =
     (case instant of
        Naive _ \<Rightarrow> Inl (ValueError ''off-peak selection requires a timezone-aware instant'')
      | Aware t \<Rightarrow>
          Inr (\<not> list_ex (\<lambda>offset. peak p (t + offset * 60000000))
                  [- PEAK_GUARD_BAND..PEAK_LEAD_BAND]))"

record gateway_token_prices = token_rates +
  long_context :: "gateway_long_context_tier option"
  flex :: "gateway_service_tier_prices option"
  priority :: "gateway_service_tier_prices option"
  units :: "gateway_unit_prices option"
  off_peak :: "gateway_off_peak_prices option"

text \<open>The rate fields, in the order of \<open>_TOKEN_RATE_FIELDS\<close>.\<close>

definition token_rate_fields :: "'a token_rates_scheme \<Rightarrow> int option list" where
  "token_rate_fields c =
     [input_nano_usd_per_million_tokens c,
      cached_input_nano_usd_per_million_tokens c,
      cache_creation_input_nano_usd_per_million_tokens c,
      cache_creation_1h_input_nano_usd_per_million_tokens c,
      cache_creation_12h_input_nano_usd_per_million_tokens c,
      output_nano_usd_per_million_tokens c,
      reasoning_nano_usd_per_million_tokens c,
      image_output_nano_usd_per_million_tokens c]"

definition bounded_rate_pair :: "int option \<times> int option \<Rightarrow> py_error + unit" where
  "bounded_rate_pair = (\<lambda>(pk, rate).
     if (pk = None) \<noteq> (rate = None)
       then Inl (ValueError ''a discounted rate must be set exactly when the peak rate is'')
     else case (pk, rate) of
         (Some p, Some r) \<Rightarrow>
           if r > p then Inl (ValueError ''a discounted rate exceeds the peak rate'') else Inr ()
       | _ \<Rightarrow> Inr ())"

definition require_bounded_card ::
    "'a token_rates_scheme \<Rightarrow> 'b token_rates_scheme \<Rightarrow> py_error + unit" where
  "require_bounded_card base discounted =
     rfold (\<lambda>pr u. bounded_rate_pair pr) (zip (token_rate_fields base) (token_rate_fields discounted)) ()"

definition off_peak_bounded_by_base ::
    "gateway_token_prices \<Rightarrow> py_error + gateway_token_prices" where
  "off_peak_bounded_by_base p =
     (case off_peak p of
        None \<Rightarrow> Inr p
      | Some op \<Rightarrow>
          if flex p \<noteq> None \<or> priority p \<noteq> None \<or> units p \<noteq> None
            then Inl (ValueError ''an off-peak schedule cannot be combined with tier or unit cards'')
          else rbind (require_bounded_card p (off_peak_card op)) (\<lambda>_.
            case (long_context p, tier_long_context (off_peak_card op)) of
              (None, None) \<Rightarrow> Inr p
            | (Some base_long, Some off_long) \<Rightarrow>
                if input_threshold_tokens base_long \<noteq> input_threshold_tokens off_long
                  then Inl (ValueError ''an off-peak long-context tier must keep the base threshold'')
                else rbind (require_bounded_card base_long off_long) (\<lambda>_. Inr p)
            | _ \<Rightarrow> Inl (ValueError
                ''an off-peak card must carry a long-context tier exactly when the base does'')))"

text \<open>A tier or off-peak card as a complete schedule.\<close>

definition card_schedule ::
    "gateway_service_tier_prices \<Rightarrow> gateway_unit_prices option \<Rightarrow> gateway_token_prices" where
  "card_schedule c us =
     \<lparr>input_nano_usd_per_million_tokens = input_nano_usd_per_million_tokens c,
      cached_input_nano_usd_per_million_tokens = cached_input_nano_usd_per_million_tokens c,
      cache_creation_input_nano_usd_per_million_tokens = cache_creation_input_nano_usd_per_million_tokens c,
      cache_creation_1h_input_nano_usd_per_million_tokens = cache_creation_1h_input_nano_usd_per_million_tokens c,
      cache_creation_12h_input_nano_usd_per_million_tokens = cache_creation_12h_input_nano_usd_per_million_tokens c,
      output_nano_usd_per_million_tokens = output_nano_usd_per_million_tokens c,
      reasoning_nano_usd_per_million_tokens = reasoning_nano_usd_per_million_tokens c,
      image_output_nano_usd_per_million_tokens = image_output_nano_usd_per_million_tokens c,
      long_context = tier_long_context c, flex = None, priority = None, units = us, off_peak = None\<rparr>"

definition effective_at :: "gateway_token_prices \<Rightarrow> py_datetime \<Rightarrow> py_error + gateway_token_prices" where
  "effective_at p instant =
     (case off_peak p of
        None \<Rightarrow> Inr p
      | Some op \<Rightarrow> rbind (applies_at op instant) (\<lambda>applies.
          if \<not> applies then Inr (p\<lparr>off_peak := None\<rparr>)
          else Inr (card_schedule (off_peak_card op) None)))"

definition service_tier :: "gateway_token_prices \<Rightarrow> string option \<Rightarrow> gateway_service_tier_prices option" where
  "service_tier p tier =
     (if tier = Some ''flex'' then flex p
      else if tier = Some ''priority'' then priority p
      else None)"

definition for_service_tier :: "gateway_token_prices \<Rightarrow> string option \<Rightarrow> gateway_token_prices" where
  "for_service_tier p tier =
     (case service_tier p tier of
        None \<Rightarrow> p
      | Some c \<Rightarrow> card_schedule c (units p))"

section \<open>Rates as validated\<close>

definition rate_in_range :: "int option \<Rightarrow> bool" where
  "rate_in_range r = (case r of None \<Rightarrow> True
     | Some v \<Rightarrow> 0 \<le> v \<and> v \<le> MAXIMUM_RATE_NANO_USD_PER_MILLION_TOKENS)"

definition rates_ok :: "'a token_rates_scheme \<Rightarrow> bool" where
  "rates_ok c \<longleftrightarrow> list_all rate_in_range (token_rate_fields c)"

text \<open>Rate by rate: absent on both sides, or present on both and no larger.\<close>

definition rate_le :: "int option \<Rightarrow> int option \<Rightarrow> bool" where
  "rate_le r p = (case (r, p) of (None, None) \<Rightarrow> True | (Some a, Some b) \<Rightarrow> a \<le> b | _ \<Rightarrow> False)"

definition card_le :: "'a token_rates_scheme \<Rightarrow> 'b token_rates_scheme \<Rightarrow> bool" where
  "card_le c b \<longleftrightarrow> list_all2 rate_le (token_rate_fields c) (token_rate_fields b)"

section \<open>Lemmas\<close>

lemma utc_minute_shift: "utc_minute (t + k * 60000000) = utc_minute t + k"
  by (simp add: utc_minute_def)

lemma utc_minute_ge_iff: "a \<le> utc_minute t \<longleftrightarrow> a * 60000000 \<le> t"
  unfolding utc_minute_def by linarith

lemma utc_minute_less_iff: "utc_minute t < a \<longleftrightarrow> t < a * 60000000"
  unfolding utc_minute_def by linarith

lemma date_of_minute_eq:
  "0 \<le> s \<Longrightarrow> s < MINUTES_PER_DAY \<Longrightarrow> date_of_minute (d * MINUTES_PER_DAY + s) = d"
  by (simp add: date_of_minute_def MINUTES_PER_DAY_def)

lemma minute_of_day_eq:
  "0 \<le> s \<Longrightarrow> s < MINUTES_PER_DAY \<Longrightarrow> (d * MINUTES_PER_DAY + s) mod MINUTES_PER_DAY = s"
  by (simp add: MINUTES_PER_DAY_def)

lemma minute_split: "m = date_of_minute m * MINUTES_PER_DAY + m mod MINUTES_PER_DAY"
  by (simp add: date_of_minute_def)

text \<open>A probed instant is peak exactly when its minute lies in a window of its own day.\<close>

lemma peak_iff:
  "peak p t \<longleftrightarrow> (\<exists>w \<in> set (peak_windows p). let d = date_of_minute (utc_minute t) in
     d \<notin> set (off_peak_dates p) \<and> isoweekday d \<in> set (window_days w)
     \<and> start_minute w \<le> utc_minute t mod MINUTES_PER_DAY
     \<and> utc_minute t mod MINUTES_PER_DAY < end_minute w)"
  by (auto simp: peak_def covers_def Let_def list_ex_iff)

definition window_on_day :: "gateway_off_peak_prices \<Rightarrow> gateway_price_window \<Rightarrow> utc_date \<Rightarrow> bool" where
  "window_on_day p w d \<longleftrightarrow> w \<in> set (peak_windows p) \<and> d \<notin> set (off_peak_dates p)
     \<and> isoweekday d \<in> set (window_days w)"

lemma peak_imp_window:
  assumes "peak p (t + k * 60000000)" and "- PEAK_GUARD_BAND \<le> k" and "k \<le> PEAK_LEAD_BAND"
  shows "\<exists>w d. window_on_day p w d
    \<and> d * MINUTES_PER_DAY + start_minute w - PEAK_LEAD_BAND \<le> utc_minute t
    \<and> utc_minute t < d * MINUTES_PER_DAY + end_minute w + PEAK_GUARD_BAND"
proof -
  let ?m = "utc_minute t + k"
  from assms(1) obtain w where w: "window_on_day p w (date_of_minute ?m)"
      "start_minute w \<le> ?m mod MINUTES_PER_DAY" "?m mod MINUTES_PER_DAY < end_minute w"
    by (auto simp: peak_iff utc_minute_shift Let_def window_on_day_def)
  with assms(2,3) minute_split [of ?m] show ?thesis
    by (intro exI [of _ w] exI [of _ "date_of_minute ?m"]) auto
qed

lemma window_imp_peak:
  assumes w: "window_on_day p w d" and ok: "window_fields_ok w" "start_minute w < end_minute w"
    and lo: "d * MINUTES_PER_DAY + start_minute w - PEAK_LEAD_BAND \<le> utc_minute t"
    and hi: "utc_minute t < d * MINUTES_PER_DAY + end_minute w + PEAK_GUARD_BAND"
  shows "\<exists>k. - PEAK_GUARD_BAND \<le> k \<and> k \<le> PEAK_LEAD_BAND \<and> peak p (t + k * 60000000)"
proof -
  define s where "s = max (start_minute w) (utc_minute t - PEAK_GUARD_BAND - d * MINUTES_PER_DAY)"
  define k where "k = d * MINUTES_PER_DAY + s - utc_minute t"
  have s: "start_minute w \<le> s" "s < end_minute w"
    using ok hi by (auto simp: s_def)
  then have day: "0 \<le> s" "s < MINUTES_PER_DAY"
    using ok by (auto simp: window_fields_ok_def)
  have "utc_minute (t + k * 60000000) = utc_minute t + k"
    by (rule utc_minute_shift)
  also have "\<dots> = d * MINUTES_PER_DAY + s" by (simp add: k_def)
  finally have "peak p (t + k * 60000000)"
    using w s day by (auto simp: peak_iff window_on_day_def Let_def date_of_minute_eq minute_of_day_eq)
  moreover have "- PEAK_GUARD_BAND \<le> k" "k \<le> PEAK_LEAD_BAND"
    using lo by (auto simp: k_def s_def PEAK_GUARD_BAND_def PEAK_LEAD_BAND_def)
  ultimately show ?thesis by blast
qed

lemma applies_at_Inr_iff:
  "applies_at p (Aware t) = Inr b \<longleftrightarrow>
   b = (\<not> (\<exists>k. - PEAK_GUARD_BAND \<le> k \<and> k \<le> PEAK_LEAD_BAND \<and> peak p (t + k * 60000000)))"
  by (auto simp: applies_at_def list_ex_iff)

lemma bounded_rate_pair_iff: "bounded_rate_pair (p, r) = Inr () \<longleftrightarrow> rate_le r p"
  by (auto simp: bounded_rate_pair_def rate_le_def split: option.splits)

lemma require_bounded_card_iff: "require_bounded_card b c = Inr () \<longleftrightarrow> card_le c b"
  by (simp add: require_bounded_card_def card_le_def token_rate_fields_def rbind_eq_Inr_iff
      bounded_rate_pair_iff)

definition windows_ok :: "gateway_off_peak_prices \<Rightarrow> bool" where
  "windows_ok p \<longleftrightarrow> list_all (\<lambda>w. window_fields_ok w \<and> window_canonical w = Inr w) (peak_windows p)"

section \<open>Properties\<close>

text \<open>
  C30. The off-peak card applies exactly outside the widened peak windows: for validated windows
  \<open>applies_at\<close> never raises on a timezone-aware instant, and its answer is false exactly when the
  instant lies, on a UTC day that is no listed off-peak date and whose ISO weekday the window
  names, between 15 minutes before the window starts and 1 minute after it ends, to the
  microsecond and across midnight. The code only probes seventeen shifted instants.
\<close>

theorem off_peak_window_exact:
  assumes "windows_ok p"
  shows "applies_at p (Aware t) = Inr (\<not> (\<exists>w d. w \<in> set (peak_windows p)
    \<and> d \<notin> set (off_peak_dates p) \<and> isoweekday d \<in> set (window_days w)
    \<and> (d * 1440 + start_minute w - 15) * 60000000 \<le> t
    \<and> t < (d * 1440 + end_minute w + 1) * 60000000))"
proof -
  have ok: "window_fields_ok w" "start_minute w < end_minute w" if "w \<in> set (peak_windows p)" for w
    using assms that by (auto simp: windows_ok_def list_all_iff window_canonical_def split: if_splits)
  have "(\<exists>k. - PEAK_GUARD_BAND \<le> k \<and> k \<le> PEAK_LEAD_BAND \<and> peak p (t + k * 60000000))
    \<longleftrightarrow> (\<exists>w d. window_on_day p w d
      \<and> d * MINUTES_PER_DAY + start_minute w - PEAK_LEAD_BAND \<le> utc_minute t
      \<and> utc_minute t < d * MINUTES_PER_DAY + end_minute w + PEAK_GUARD_BAND)"
    using peak_imp_window window_imp_peak ok by (meson window_on_day_def)
  then show ?thesis
    unfolding applies_at_Inr_iff utc_minute_ge_iff utc_minute_less_iff window_on_day_def
    by (simp add: MINUTES_PER_DAY_def PEAK_LEAD_BAND_def PEAK_GUARD_BAND_def conj_assoc)
qed

text \<open>One window, Thursdays 00:05 to 01:00: the band opens at 23:50 on Wednesday.\<close>

definition sample_schedule :: gateway_off_peak_prices where
  "sample_schedule = \<lparr>off_peak_card =
     \<lparr>input_nano_usd_per_million_tokens = Some 1, cached_input_nano_usd_per_million_tokens = None,
      cache_creation_input_nano_usd_per_million_tokens = None,
      cache_creation_1h_input_nano_usd_per_million_tokens = None,
      cache_creation_12h_input_nano_usd_per_million_tokens = None,
      output_nano_usd_per_million_tokens = Some 2, reasoning_nano_usd_per_million_tokens = None,
      image_output_nano_usd_per_million_tokens = None, tier_long_context = None\<rparr>,
     peak_windows = [\<lparr>window_days = [4], start_minute = 5, end_minute = 60\<rparr>], off_peak_dates = [1]\<rparr>"

theorem off_peak_window_exact_witness:
  "windows_ok sample_schedule \<and> applies_at sample_schedule (Aware (- 600000000)) = Inr False"
proof -
  have ok: "windows_ok sample_schedule"
    by (simp add: windows_ok_def sample_schedule_def window_fields_ok_def window_canonical_def
        MINUTES_PER_DAY_def)
  have "\<exists>w d. w \<in> set (peak_windows sample_schedule) \<and> d \<notin> set (off_peak_dates sample_schedule)
      \<and> isoweekday d \<in> set (window_days w)
      \<and> (d * 1440 + start_minute w - 15) * 60000000 \<le> - 600000000
      \<and> - 600000000 < (d * 1440 + end_minute w + 1) * 60000000"
    by (intro exI [of _ "hd (peak_windows sample_schedule)"] exI [of _ 0])
      (simp add: sample_schedule_def isoweekday_def)
  with ok off_peak_window_exact [OF ok, of "- 600000000"] show ?thesis by (simp only: not_True_eq_False simp_thms)
qed

end
