(* ===== verification/Token_Cost.thy ===== *)
theory Token_Cost
  imports Catalog_Prices
begin

text \<open>
  Integer valuation of token usage (\<^verbatim>\<open>src/exp/common/models/token_cost.py\<close>): the price of
  disjoint token subsets with one half-up rounding, the schedule selection for observed
  usage, and the admission estimate that must not lie below it.
\<close>

section \<open>Definitions\<close>

definition twelve_hour_write_rate :: "int option \<Rightarrow> int option \<Rightarrow> int option" where
  "twelve_hour_write_rate explicit_rate input_rate =
     (case explicit_rate of
        Some r \<Rightarrow> Some r
      | None \<Rightarrow> (case input_rate of None \<Rightarrow> None | Some r \<Rightarrow> Some ((r * 5 + 1) div 2)))"

text \<open>The token-count keyword arguments of \<open>token_cost_nano_usd\<close>.\<close>

record token_counts =
  n_input :: int
  n_output :: int
  n_cached :: "int option"
  n_written :: "int option"
  n_hour :: "int option"
  n_reasoning :: "int option"
  n_image :: "int option"
  n_half_day :: "int option"

text \<open>The clamped subsets, in the order the function binds them.\<close>

definition cached_part :: "token_counts \<Rightarrow> int" where
  "cached_part u = min (or0 (n_cached u)) (n_input u)"

definition written_part :: "token_counts \<Rightarrow> int" where
  "written_part u = min (or0 (n_written u)) (n_input u - cached_part u)"

definition hour_part :: "token_counts \<Rightarrow> int" where
  "hour_part u = min (or0 (n_hour u)) (written_part u)"

definition half_day_part :: "token_counts \<Rightarrow> int" where
  "half_day_part u = min (or0 (n_half_day u)) (written_part u - hour_part u)"

definition image_part :: "token_counts \<Rightarrow> 'a token_rates_scheme \<Rightarrow> int" where
  "image_part u r =
     (if image_output_nano_usd_per_million_tokens r \<noteq> None
      then min (or0 (n_image u)) (n_output u) else 0)"

definition reasoning_part :: "token_counts \<Rightarrow> 'a token_rates_scheme \<Rightarrow> int" where
  "reasoning_part u r = min (or0 (n_reasoning u)) (n_output u - image_part u r)"

text \<open>The \<open>dimensions\<close> tuple: each subset with its rate.\<close>

definition dimensions :: "token_counts \<Rightarrow> 'a token_rates_scheme \<Rightarrow> (int \<times> int option) list" where
  "dimensions u r =
     [(n_input u - cached_part u - written_part u, input_nano_usd_per_million_tokens r),
      (cached_part u, cached_input_nano_usd_per_million_tokens r),
      (written_part u - hour_part u - half_day_part u, cache_creation_input_nano_usd_per_million_tokens r),
      (hour_part u, cache_creation_1h_input_nano_usd_per_million_tokens r),
      (half_day_part u,
        twelve_hour_write_rate (cache_creation_12h_input_nano_usd_per_million_tokens r)
          (input_nano_usd_per_million_tokens r)),
      (n_output u - image_part u r - reasoning_part u r, output_nano_usd_per_million_tokens r),
      (reasoning_part u r, reasoning_nano_usd_per_million_tokens r),
      (image_part u r, image_output_nano_usd_per_million_tokens r)]"

definition numerator :: "(int \<times> int option) list \<Rightarrow> int" where
  "numerator ds = sum_list (map (\<lambda>(tokens, rate). tokens * or0 rate) ds)"

definition write_split_unknown :: "token_counts \<Rightarrow> 'a token_rates_scheme \<Rightarrow> bool" where
  "write_split_unknown u r \<longleftrightarrow>
     written_part u \<noteq> 0 \<and> n_hour u = None
     \<and> (cache_creation_input_nano_usd_per_million_tokens r = None
        \<or> cache_creation_input_nano_usd_per_million_tokens r
          \<noteq> cache_creation_1h_input_nano_usd_per_million_tokens r)"

definition image_split_unknown :: "token_counts \<Rightarrow> 'a token_rates_scheme \<Rightarrow> bool" where
  "image_split_unknown u r \<longleftrightarrow>
     n_image u = None \<and> n_output u > 0
     \<and> image_output_nano_usd_per_million_tokens r \<noteq> None
     \<and> image_output_nano_usd_per_million_tokens r \<noteq> output_nano_usd_per_million_tokens r"

definition token_cost_nano_usd :: "token_counts \<Rightarrow> 'a token_rates_scheme \<Rightarrow> int option" where
  "token_cost_nano_usd u r =
     (if write_split_unknown u r then None
      else if image_split_unknown u r then None
      else if list_ex (\<lambda>(tokens, rate). tokens > 0 \<and> rate = None) (dimensions u r) then None
      else Some ((numerator (dimensions u r) + 500000) div 1000000))"

text \<open>The provider-neutral \<open>Usage\<close> of one model-client operation (\<open>common/models/model.py\<close>).\<close>

record usage =
  input_tokens :: int
  output_tokens :: int
  cached_input_tokens :: "int option"
  cache_write_input_tokens :: "int option"
  cache_write_1h_input_tokens :: "int option"
  cache_write_12h_input_tokens :: "int option"
  reasoning_tokens :: "int option"
  usage_service_tier :: "string option"

definition usage_ok :: "usage \<Rightarrow> bool" where
  "usage_ok u \<longleftrightarrow> 0 \<le> input_tokens u \<and> 0 \<le> output_tokens u
     \<and> opt_ge 0 (cached_input_tokens u) \<and> opt_ge 0 (cache_write_input_tokens u)
     \<and> opt_ge 0 (cache_write_1h_input_tokens u) \<and> opt_ge 0 (cache_write_12h_input_tokens u)
     \<and> opt_ge 0 (reasoning_tokens u)"

definition usage_counts :: "usage \<Rightarrow> token_counts" where
  "usage_counts u =
     \<lparr>n_input = input_tokens u, n_output = output_tokens u, n_cached = cached_input_tokens u,
      n_written = cache_write_input_tokens u, n_hour = cache_write_1h_input_tokens u,
      n_reasoning = reasoning_tokens u, n_image = None, n_half_day = cache_write_12h_input_tokens u\<rparr>"

text \<open>A schedule is any card cut down to its eight rates.\<close>

definition rates_of :: "'a token_rates_scheme \<Rightarrow> token_rates" where
  "rates_of c = token_rates.truncate c"

definition select_schedule :: "gateway_token_prices \<Rightarrow> int \<Rightarrow> token_rates" where
  "select_schedule p n =
     (case long_context p of
        Some tier \<Rightarrow> if n \<ge> input_threshold_tokens tier then rates_of tier else rates_of p
      | None \<Rightarrow> rates_of p)"

definition usage_subsets_inconsistent :: "usage \<Rightarrow> bool" where
  "usage_subsets_inconsistent u \<longleftrightarrow>
     or0 (cached_input_tokens u) + or0 (cache_write_input_tokens u) > input_tokens u
     \<or> or0 (cache_write_1h_input_tokens u) + or0 (cache_write_12h_input_tokens u)
        > or0 (cache_write_input_tokens u)
     \<or> or0 (reasoning_tokens u) > output_tokens u"

definition usage_meters_ambiguous :: "usage \<Rightarrow> token_rates \<Rightarrow> bool" where
  "usage_meters_ambiguous u s \<longleftrightarrow>
     (cached_input_tokens u = None \<and> input_tokens u > or0 (cache_write_input_tokens u)
       \<and> cached_input_nano_usd_per_million_tokens s \<noteq> input_nano_usd_per_million_tokens s)
     \<or> (cache_write_input_tokens u = None \<and> input_tokens u > or0 (cached_input_tokens u)
       \<and> (cache_creation_input_nano_usd_per_million_tokens s \<noteq> input_nano_usd_per_million_tokens s
          \<or> cache_creation_1h_input_nano_usd_per_million_tokens s \<noteq> input_nano_usd_per_million_tokens s))
     \<or> (reasoning_tokens u = None \<and> output_tokens u > 0
       \<and> reasoning_nano_usd_per_million_tokens s \<noteq> output_nano_usd_per_million_tokens s)
     \<or> (output_tokens u > 0 \<and> image_output_nano_usd_per_million_tokens s \<noteq> None
       \<and> image_output_nano_usd_per_million_tokens s \<noteq> output_nano_usd_per_million_tokens s)"

text \<open>The final call passes no image rate, so the schedule's one is dropped.\<close>

definition schedule_usage_cost_nano_usd :: "gateway_token_prices \<Rightarrow> usage \<Rightarrow> int option" where
  "schedule_usage_cost_nano_usd prices u =
     (if usage_service_tier u \<notin> {None, Some ''default'', Some ''auto''}
         \<and> service_tier prices (usage_service_tier u) = None then None
      else
        let selected = for_service_tier prices (usage_service_tier u);
            schedule = select_schedule selected (input_tokens u)
        in if usage_subsets_inconsistent u then None
           else if usage_meters_ambiguous u schedule then None
           else token_cost_nano_usd (usage_counts u)
                  (schedule\<lparr>image_output_nano_usd_per_million_tokens := None\<rparr>))"

text \<open>\<open>max(..., default=0)\<close> over the known rates.\<close>

definition max_rate :: "int option list \<Rightarrow> int" where
  "max_rate rs = (case List.map_filter id rs of [] \<Rightarrow> 0 | v # vs \<Rightarrow> fold max vs v)"

definition reachable_schedules :: "gateway_token_prices \<Rightarrow> int \<Rightarrow> token_rates list" where
  "reachable_schedules p n =
     rates_of p # (case long_context p of
        Some tier \<Rightarrow> if n \<ge> input_threshold_tokens tier then [rates_of tier] else []
      | None \<Rightarrow> [])"

definition schedule_ceiling :: "token_rates \<Rightarrow> int \<Rightarrow> int \<Rightarrow> int" where
  "schedule_ceiling s n_in n_out =
     (n_in * max_rate [input_nano_usd_per_million_tokens s, cached_input_nano_usd_per_million_tokens s,
                       cache_creation_input_nano_usd_per_million_tokens s,
                       cache_creation_1h_input_nano_usd_per_million_tokens s]
      + n_out * max_rate [output_nano_usd_per_million_tokens s, reasoning_nano_usd_per_million_tokens s,
                          image_output_nano_usd_per_million_tokens s]
      + 999999) div 1000000"

definition schedule_maximum_cost_nano_usd :: "gateway_token_prices \<Rightarrow> int \<Rightarrow> int \<Rightarrow> int" where
  "schedule_maximum_cost_nano_usd prices n_in n_out =
     (let cs = map (\<lambda>s. schedule_ceiling s n_in n_out) (reachable_schedules prices n_in)
      in fold max (tl cs) (hd cs))"

definition schedule_complete :: "token_rates \<Rightarrow> bool" where
  "schedule_complete s \<longleftrightarrow> None \<notin> set
     [input_nano_usd_per_million_tokens s, cached_input_nano_usd_per_million_tokens s,
      cache_creation_input_nano_usd_per_million_tokens s,
      cache_creation_1h_input_nano_usd_per_million_tokens s,
      output_nano_usd_per_million_tokens s, reasoning_nano_usd_per_million_tokens s]"

definition schedule_prices_complete :: "gateway_token_prices \<Rightarrow> int \<Rightarrow> bool" where
  "schedule_prices_complete prices maximum_input_tokens =
     list_all schedule_complete (reachable_schedules prices maximum_input_tokens)"

text \<open>Nonnegative counts, as the field bounds of the usage contracts give them.\<close>

definition counts_ok :: "token_counts \<Rightarrow> bool" where
  "counts_ok u \<longleftrightarrow> 0 \<le> n_input u \<and> 0 \<le> n_output u \<and> opt_ge 0 (n_cached u) \<and> opt_ge 0 (n_written u)
     \<and> opt_ge 0 (n_hour u) \<and> opt_ge 0 (n_reasoning u) \<and> opt_ge 0 (n_image u) \<and> opt_ge 0 (n_half_day u)"

definition ordinary_tier :: "string option \<Rightarrow> bool" where
  "ordinary_tier t \<longleftrightarrow> t \<in> {None, Some ''default'', Some ''auto''}"

section \<open>Lemmas\<close>

lemma usage_counts_ok: "usage_ok u \<Longrightarrow> counts_ok (usage_counts u)"
  by (simp add: usage_ok_def counts_ok_def usage_counts_def)

subsection \<open>The subsets partition the totals\<close>

lemma input_parts:
  assumes "counts_ok u"
  shows "0 \<le> cached_part u" "0 \<le> written_part u" "0 \<le> hour_part u" "0 \<le> half_day_part u"
    "0 \<le> n_input u - cached_part u - written_part u"
    "0 \<le> written_part u - hour_part u - half_day_part u"
proof -
  note nn = or0_nonneg assms [unfolded counts_ok_def]
  show c: "0 \<le> cached_part u" using nn by (simp add: cached_part_def)
  have cw: "0 \<le> n_input u - cached_part u" by (simp add: cached_part_def)
  show w: "0 \<le> written_part u" using nn cw by (simp add: written_part_def)
  show h: "0 \<le> hour_part u" using nn w by (simp add: hour_part_def)
  have wh: "0 \<le> written_part u - hour_part u" by (simp add: hour_part_def)
  show "0 \<le> half_day_part u" using nn wh by (simp add: half_day_part_def)
  show "0 \<le> n_input u - cached_part u - written_part u" by (simp add: written_part_def)
  show "0 \<le> written_part u - hour_part u - half_day_part u" by (simp add: half_day_part_def)
qed

lemma output_parts:
  assumes "counts_ok u"
  shows "0 \<le> image_part u r" "0 \<le> reasoning_part u r"
    "0 \<le> n_output u - image_part u r - reasoning_part u r"
proof -
  note nn = or0_nonneg assms [unfolded counts_ok_def]
  show i: "0 \<le> image_part u r" using nn by (simp add: image_part_def)
  have io: "0 \<le> n_output u - image_part u r" using nn by (simp add: image_part_def)
  show "0 \<le> reasoning_part u r" using nn io by (simp add: reasoning_part_def)
  show "0 \<le> n_output u - image_part u r - reasoning_part u r" by (simp add: reasoning_part_def)
qed

lemma dimensions_nonneg: "counts_ok u \<Longrightarrow> list_all (\<lambda>(n, _). 0 \<le> n) (dimensions u r)"
  using input_parts [of u] output_parts [of u r] by (simp add: dimensions_def)

lemma dimensions_sum: "sum_list (map fst (dimensions u r)) = n_input u + n_output u"
  by (simp add: dimensions_def)

subsection \<open>Bounds on the priced sum\<close>

text \<open>A priced dimension costs at most its count at any rate above its own.\<close>

lemma dimension_le:
  assumes "0 \<le> n" and "0 < n \<Longrightarrow> or0 r \<le> A"
  shows "n * or0 r \<le> n * (A :: int)"
  using assms by (cases "n = 0") (auto intro: mult_left_mono)

lemma numerator_append: "numerator (xs @ ys) = numerator xs + numerator ys"
  by (simp add: numerator_def)

lemma numerator_list_le:
  assumes "list_all (\<lambda>(n, _). 0 \<le> n) ds" and "list_all (\<lambda>(n, r). 0 < n \<longrightarrow> or0 r \<le> A) ds"
  shows "numerator ds \<le> sum_list (map fst ds) * A"
  using assms
proof (induction ds)
  case Nil
  then show ?case by (simp add: numerator_def)
next
  case (Cons d ds)
  obtain n r where d: "d = (n, r)" by (cases d)
  from Cons have IH: "numerator ds \<le> sum_list (map fst ds) * A" by simp
  have "n * or0 r \<le> n * A" using Cons.prems d by (intro dimension_le) auto
  with IH show ?case by (simp add: d numerator_def distrib_right)
qed

lemma numerator_le:
  assumes ok: "counts_ok u"
    and i: "list_all (\<lambda>(n, r). 0 < n \<longrightarrow> or0 r \<le> A) (take 5 (dimensions u r))"
    and out: "list_all (\<lambda>(n, r). 0 < n \<longrightarrow> or0 r \<le> B) (drop 5 (dimensions u r))"
  shows "numerator (dimensions u r) \<le> n_input u * A + n_output u * B"
proof -
  let ?D = "dimensions u r"
  have nn: "list_all (\<lambda>(n, _). 0 \<le> n) (take 5 ?D @ drop 5 ?D)"
    using dimensions_nonneg [OF ok] by simp
  have "numerator ?D = numerator (take 5 ?D) + numerator (drop 5 ?D)"
    by (simp flip: numerator_append)
  also have "\<dots> \<le> sum_list (map fst (take 5 ?D)) * A + sum_list (map fst (drop 5 ?D)) * B"
    using nn i out by (intro add_mono numerator_list_le) (auto simp only: list_all_append)
  also have "sum_list (map fst (take 5 ?D)) = n_input u" by (simp add: dimensions_def)
  also have "sum_list (map fst (drop 5 ?D)) = n_output u" by (simp add: dimensions_def)
  finally show ?thesis .
qed

lemma half_up_le_ceiling: "x \<le> y \<Longrightarrow> (x + 500000) div 1000000 \<le> (y + 999999) div (1000000 :: int)"
  by (rule zdiv_mono1) auto

lemma token_cost_Some:
  assumes "token_cost_nano_usd u r = Some c"
  shows "c = (numerator (dimensions u r) + 500000) div 1000000"
    "list_all (\<lambda>(n, rate). 0 < n \<longrightarrow> rate \<noteq> None) (dimensions u r)"
  using assms by (auto simp: token_cost_nano_usd_def list_ex_iff list_all_iff split: if_splits)

subsection \<open>Known-rate maxima\<close>

lemma max_rate_ge: "Some v \<in> set rs \<Longrightarrow> v \<le> max_rate rs"
proof -
  assume "Some v \<in> set rs"
  then have v: "v \<in> set (List.map_filter id rs)" by (force simp: List.map_filter_def)
  then obtain w ws where rs: "List.map_filter id rs = w # ws" by (cases "List.map_filter id rs") auto
  then have "max_rate rs = Max (set (w # ws))"
    unfolding Max.set_eq_fold by (simp add: max_rate_def)
  with v rs show ?thesis by (auto simp: Max_ge_iff)
qed

lemma max_rate_nonneg: "list_all (opt_ge 0) rs \<Longrightarrow> 0 \<le> max_rate rs"
proof (cases "List.map_filter id rs")
  case Nil
  then show ?thesis by (simp add: max_rate_def)
next
  case (Cons v vs)
  assume "list_all (opt_ge 0) rs"
  moreover from Cons have "v \<in> set (List.map_filter id rs)" by simp
  then have v: "Some v \<in> set rs" by (auto simp: List.map_filter_def)
  ultimately have "0 \<le> v" by (auto simp: list_all_iff)
  with max_rate_ge [OF v] show ?thesis by simp
qed

lemma or0_le_max_rate:
  "list_all (opt_ge 0) rs \<Longrightarrow> r \<in> set rs \<Longrightarrow> or0 r \<le> max_rate rs"
  by (cases r) (auto simp: max_rate_nonneg max_rate_ge)

lemma rates_of_simps [simp]:
  "input_nano_usd_per_million_tokens (rates_of c) = input_nano_usd_per_million_tokens c"
  "cached_input_nano_usd_per_million_tokens (rates_of c) = cached_input_nano_usd_per_million_tokens c"
  "cache_creation_input_nano_usd_per_million_tokens (rates_of c) = cache_creation_input_nano_usd_per_million_tokens c"
  "cache_creation_1h_input_nano_usd_per_million_tokens (rates_of c) = cache_creation_1h_input_nano_usd_per_million_tokens c"
  "cache_creation_12h_input_nano_usd_per_million_tokens (rates_of c) = cache_creation_12h_input_nano_usd_per_million_tokens c"
  "output_nano_usd_per_million_tokens (rates_of c) = output_nano_usd_per_million_tokens c"
  "reasoning_nano_usd_per_million_tokens (rates_of c) = reasoning_nano_usd_per_million_tokens c"
  "image_output_nano_usd_per_million_tokens (rates_of c) = image_output_nano_usd_per_million_tokens c"
  by (simp_all add: rates_of_def token_rates.truncate_def)

lemma token_rate_fields_rates_of [simp]: "token_rate_fields (rates_of c) = token_rate_fields c"
  by (simp add: token_rate_fields_def)

lemma rates_ok_nonneg: "rates_ok c \<Longrightarrow> list_all (opt_ge 0) (token_rate_fields c)"
  by (auto simp: rates_ok_def rate_in_range_def list_all_iff opt_ge_def split: option.splits)

lemma twelve_hour_write_rate_mono:
  "rate_le e e' \<Longrightarrow> rate_le i i' \<Longrightarrow> rate_le (twelve_hour_write_rate e i) (twelve_hour_write_rate e' i')"
  by (auto simp: rate_le_def twelve_hour_write_rate_def split: option.splits intro: zdiv_mono1)

text \<open>On a card that is lower leg for leg, the same subsets are priced, each no higher.\<close>

lemma rate_le_None_iff: "rate_le a b \<Longrightarrow> (a = None) = (b = None)"
  by (auto simp: rate_le_def split: option.splits)

lemma numerator_mono:
  assumes "list_all2 (\<lambda>(n, r) (m, q). n = m \<and> 0 \<le> n \<and> rate_le r q) xs ys"
  shows "numerator xs \<le> numerator ys"
  using assms
proof (induction rule: list_all2_induct)
  case Nil
  then show ?case by simp
next
  case (Cons x xs y ys)
  obtain n r q where xy: "x = (n, r)" "y = (n, q)" and n: "0 \<le> n" "rate_le r q"
    using Cons.hyps(1) by (cases x; cases y) auto
  have "or0 r \<le> or0 q" using n(2) by (auto simp: rate_le_def split: option.splits)
  then have "n * or0 r \<le> n * or0 q" using n(1) by (rule mult_left_mono)
  with Cons.IH show ?case by (simp add: xy numerator_def)
qed

lemma token_cost_card_mono:
  assumes ok: "counts_ok u" and le: "card_le c b"
    and c: "token_cost_nano_usd u c = Some x" and b: "token_cost_nano_usd u b = Some y"
  shows "x \<le> y"
proof -
  note cl = le [unfolded card_le_def token_rate_fields_def, simplified]
  have im: "image_part u c = image_part u b"
    using cl by (auto simp: image_part_def dest: rate_le_None_iff)
  have re: "reasoning_part u c = reasoning_part u b"
    by (simp add: reasoning_part_def im)
  have "numerator (dimensions u c) \<le> numerator (dimensions u b)"
  proof (rule numerator_mono)
    show "list_all2 (\<lambda>(n, r) (m, q). n = m \<and> 0 \<le> n \<and> rate_le r q) (dimensions u c) (dimensions u b)"
      using cl input_parts [OF ok] output_parts [OF ok, of b] twelve_hour_write_rate_mono
      by (simp add: dimensions_def im re)
  qed
  then show ?thesis
    using token_cost_Some(1) [OF c] token_cost_Some(1) [OF b] by (simp add: zdiv_mono1)
qed

lemma select_schedule_reachable:
  "n \<le> m \<Longrightarrow> select_schedule p n \<in> set (reachable_schedules p m)"
  by (auto simp: select_schedule_def reachable_schedules_def split: option.splits)

lemma schedule_maximum_ge:
  assumes "s \<in> set (reachable_schedules p n)"
  shows "schedule_ceiling s n m \<le> schedule_maximum_cost_nano_usd p n m"
proof -
  let ?cs = "map (\<lambda>s. schedule_ceiling s n m) (reachable_schedules p n)"
  obtain a as where cs: "?cs = a # as" by (cases ?cs) (auto simp: reachable_schedules_def)
  have "schedule_maximum_cost_nano_usd p n m = Max (set ?cs)"
    unfolding schedule_maximum_cost_nano_usd_def Let_def cs Max.set_eq_fold by simp
  moreover have "schedule_ceiling s n m \<in> set ?cs" using assms by auto
  ultimately show ?thesis by (simp add: Max_ge_iff del: set_map)
qed

lemma ordinary_tier_prices: "ordinary_tier t \<Longrightarrow> for_service_tier p t = p"
  by (auto simp: ordinary_tier_def for_service_tier_def service_tier_def)

text \<open>One schedule's ceiling covers whatever it charges when no 12-hour writes are reported.\<close>

lemma schedule_ceiling_covers:
  assumes cost: "token_cost_nano_usd u (s\<lparr>image_output_nano_usd_per_million_tokens := None\<rparr>) = Some c"
    and ok: "counts_ok u" "list_all (opt_ge 0) (token_rate_fields s)" "or0 (n_half_day u) = 0"
    and le: "n_input u \<le> n_in" "n_output u \<le> n_out"
  shows "c \<le> schedule_ceiling s n_in n_out"
proof -
  let ?s = "s\<lparr>image_output_nano_usd_per_million_tokens := None\<rparr>"
  let ?I = "[input_nano_usd_per_million_tokens s, cached_input_nano_usd_per_million_tokens s,
     cache_creation_input_nano_usd_per_million_tokens s, cache_creation_1h_input_nano_usd_per_million_tokens s]"
  let ?O = "[output_nano_usd_per_million_tokens s, reasoning_nano_usd_per_million_tokens s,
     image_output_nano_usd_per_million_tokens s]"
  have nn: "list_all (opt_ge 0) ?I" "list_all (opt_ge 0) ?O"
    using ok(2) by (auto simp: token_rate_fields_def)
  note le_max = or0_le_max_rate [OF nn(1)] or0_le_max_rate [OF nn(2)]
  have hd: "half_day_part u = 0" using ok(3) input_parts(4,6) [OF ok(1)] by (simp add: half_day_part_def)
  have im: "image_part u ?s = 0" by (simp add: image_part_def)
  have "numerator (dimensions u ?s) \<le> n_input u * max_rate ?I + n_output u * max_rate ?O"
    by (rule numerator_le [OF ok(1)]) (simp_all add: dimensions_def hd im le_max)
  also have "\<dots> \<le> n_in * max_rate ?I + n_out * max_rate ?O"
    using le max_rate_nonneg [OF nn(1)] max_rate_nonneg [OF nn(2)] by (intro add_mono mult_right_mono)
  finally show ?thesis
    unfolding token_cost_Some(1) [OF cost] schedule_ceiling_def by (rule half_up_le_ceiling)
qed

lemma schedule_usage_cost_ordinary:
  "schedule_usage_cost_nano_usd p u = Some c \<Longrightarrow> ordinary_tier (usage_service_tier u) \<Longrightarrow>
   token_cost_nano_usd (usage_counts u)
     (select_schedule p (input_tokens u)\<lparr>image_output_nano_usd_per_million_tokens := None\<rparr>) = Some c"
  by (simp add: schedule_usage_cost_nano_usd_def ordinary_tier_prices Let_def split: if_splits)

definition card_rates_ok :: "gateway_token_prices \<Rightarrow> bool" where
  "card_rates_ok p \<longleftrightarrow> rates_ok p \<and> (case long_context p of None \<Rightarrow> True | Some t \<Rightarrow> rates_ok t)"

lemma select_schedule_nonneg:
  "card_rates_ok p \<Longrightarrow> list_all (opt_ge 0) (token_rate_fields (select_schedule p n))"
  by (auto simp: card_rates_ok_def select_schedule_def rates_ok_nonneg split: option.splits)

lemma rates_of_card_schedule [simp]: "rates_of (card_schedule c us) = rates_of c"
  by (simp add: rates_of_def token_rates.truncate_def card_schedule_def)

lemma long_context_card_schedule [simp]: "long_context (card_schedule c us) = tier_long_context c"
  by (simp add: card_schedule_def)

lemma card_le_refl [simp]: "card_le c c"
  by (auto simp: card_le_def rate_le_def list_all2_same split: option.splits)

lemma card_le_rates_of [simp]:
  "card_le (rates_of c) b = card_le c b" "card_le c (rates_of b) = card_le c b"
  by (simp_all add: card_le_def)

text \<open>Leg for leg, the effective card lies below the base card on both sides of the threshold.\<close>

lemma effective_card_le:
  assumes "off_peak_bounded_by_base p = Inr p" and "effective_at p (Aware t) = Inr q"
  shows "card_le (select_schedule q n) (select_schedule p n)"
proof (cases "off_peak p")
  case None
  with assms(2) show ?thesis by (simp add: effective_at_def)
next
  case (Some op)
  obtain b where b: "applies_at op (Aware t) = Inr b" by (simp add: applies_at_def)
  show ?thesis
  proof (cases b)
    case False
    then have "select_schedule q n = select_schedule p n"
      using assms(2) Some b
      by (auto simp: effective_at_def select_schedule_def rates_of_def token_rates.truncate_def split: option.splits)
    then show ?thesis by simp
  next
    case True
    then have q: "q = card_schedule (off_peak_card op) None"
      using assms(2) Some b by (auto simp: effective_at_def)
    show ?thesis
      using assms(1) Some
      by (auto simp: off_peak_bounded_by_base_def rbind_eq_Inr_iff require_bounded_card_iff
          select_schedule_def q split: if_splits option.splits)
  qed
qed

section \<open>Sample cards\<close>

text \<open>A card with the given input, output and default write rates, for concrete evaluations.\<close>

definition sample_rates :: "int \<Rightarrow> int \<Rightarrow> int \<Rightarrow> token_rates" where
  "sample_rates i w out =
     \<lparr>input_nano_usd_per_million_tokens = Some i, cached_input_nano_usd_per_million_tokens = Some i,
      cache_creation_input_nano_usd_per_million_tokens = Some w,
      cache_creation_1h_input_nano_usd_per_million_tokens = Some w,
      cache_creation_12h_input_nano_usd_per_million_tokens = None,
      output_nano_usd_per_million_tokens = Some out, reasoning_nano_usd_per_million_tokens = Some out,
      image_output_nano_usd_per_million_tokens = None\<rparr>"

definition sample_card :: "int \<Rightarrow> int \<Rightarrow> int \<Rightarrow> gateway_token_prices" where
  "sample_card i w out = token_rates.extend (sample_rates i w out)
     \<lparr>long_context = None, flex = None, priority = None, units = None, off_peak = None\<rparr>"

definition sample_counts :: "int \<Rightarrow> int \<Rightarrow> int option \<Rightarrow> int option \<Rightarrow> token_counts" where
  "sample_counts i out cached half_day =
     \<lparr>n_input = i, n_output = out, n_cached = cached, n_written = half_day, n_hour = Some 0,
      n_reasoning = None, n_image = None, n_half_day = half_day\<rparr>"

definition sample_usage :: "int \<Rightarrow> int \<Rightarrow> int \<Rightarrow> usage" where
  "sample_usage i half_day out =
     \<lparr>input_tokens = i, output_tokens = out, cached_input_tokens = Some 0,
      cache_write_input_tokens = Some half_day, cache_write_1h_input_tokens = Some 0,
      cache_write_12h_input_tokens = Some half_day, reasoning_tokens = Some 0,
      usage_service_tier = None\<rparr>"

lemmas sample_defs = sample_rates_def sample_card_def sample_counts_def sample_usage_def
  token_rates.defs

lemmas cost_eval = token_cost_nano_usd_def write_split_unknown_def image_split_unknown_def
  dimensions_def cached_part_def written_part_def hour_part_def half_day_part_def image_part_def
  reasoning_part_def numerator_def twelve_hour_write_rate_def

lemmas schedule_eval = schedule_usage_cost_nano_usd_def for_service_tier_def service_tier_def
  select_schedule_def rates_of_def token_rates.truncate_def usage_subsets_inconsistent_def
  usage_meters_ambiguous_def usage_counts_def schedule_maximum_cost_nano_usd_def
  reachable_schedules_def schedule_ceiling_def max_rate_def schedule_prices_complete_def
  schedule_complete_def List.map_filter_def

section \<open>Properties\<close>

text \<open>
  C29. Every reported token is charged exactly once and rounding happens once: whenever
  \<open>token_cost_nano_usd\<close> knows a cost, the eight subsets it prices are nonnegative and add up
  to the input plus output total, whatever subset counts the provider reported, every
  subset with a token in it has a known rate, and the returned nano-USD amount is within half
  a nano-USD of the exact sum of tokens times rates.
\<close>

theorem token_cost_charges_each_token_once:
  assumes "counts_ok u" and "token_cost_nano_usd u r = Some c"
  shows "list_all (\<lambda>(n, rate). 0 \<le> n \<and> \<not> (0 < n \<and> rate = None)) (dimensions u r)
    \<and> sum_list (map fst (dimensions u r)) = n_input u + n_output u
    \<and> \<bar>c * 1000000 - (\<Sum>(n, rate) \<leftarrow> dimensions u r. n * or0 rate)\<bar> \<le> 500000"
proof (intro conjI)
  show "list_all (\<lambda>(n, rate). 0 \<le> n \<and> \<not> (0 < n \<and> rate = None)) (dimensions u r)"
    using dimensions_nonneg [OF assms(1), of r] token_cost_Some(2) [OF assms(2)]
    by (auto simp: list_all_iff)
  show "sum_list (map fst (dimensions u r)) = n_input u + n_output u" by (rule dimensions_sum)
  show "\<bar>c * 1000000 - (\<Sum>(n, rate) \<leftarrow> dimensions u r. n * or0 rate)\<bar> \<le> 500000"
    unfolding token_cost_Some(1) [OF assms(2)] numerator_def by linarith
qed

theorem token_cost_charges_each_token_once_witness:
  "token_cost_nano_usd (sample_counts 100 10 (Some 250) None) (sample_rates 300000 7 9) = Some 30
   \<and> sum_list (map fst (dimensions (sample_counts 100 10 (Some 250) None) (sample_rates 300000 7 9))) = 110"
  using token_cost_charges_each_token_once
    [of "sample_counts 100 10 (Some 250) None" "sample_rates 300000 7 9" 30]
  by (simp add: counts_ok_def sample_defs cost_eval)

text \<open>
  C28. The admission estimate bounds the charge: on validated rates, whenever an ordinary
  request within the estimated token counts, with no 12-hour cache writes reported, is valued at a known
  cost, that cost is at most \<open>schedule_maximum_cost_nano_usd\<close>, across the long-context
  threshold and even when some rates are unknown.
\<close>

theorem schedule_maximum_bounds_usage:
  assumes "schedule_usage_cost_nano_usd p u = Some c"
    and "usage_ok u" and "ordinary_tier (usage_service_tier u)" and "card_rates_ok p"
    and "or0 (cache_write_12h_input_tokens u) = 0"
    and "input_tokens u \<le> n_in" and "output_tokens u \<le> n_out"
  shows "c \<le> schedule_maximum_cost_nano_usd p n_in n_out"
proof -
  let ?s = "select_schedule p (input_tokens u)"
  have "c \<le> schedule_ceiling ?s n_in n_out"
    using assms
    by (intro schedule_ceiling_covers [OF schedule_usage_cost_ordinary [OF assms(1,3)]])
      (simp_all add: usage_counts_ok select_schedule_nonneg, simp_all add: usage_counts_def)
  also have "\<dots> \<le> schedule_maximum_cost_nano_usd p n_in n_out"
    by (rule schedule_maximum_ge [OF select_schedule_reachable [OF assms(6)]])
  finally show ?thesis .
qed

theorem schedule_maximum_bounds_usage_witness:
  "schedule_usage_cost_nano_usd (sample_card 3000000 4000000 15000000) (sample_usage 100 0 10) = Some 450
   \<and> (450 :: int) \<le> schedule_maximum_cost_nano_usd (sample_card 3000000 4000000 15000000) 100 10"
proof -
  let ?p = "sample_card 3000000 4000000 15000000" and ?u = "sample_usage 100 0 10"
  have cost: "schedule_usage_cost_nano_usd ?p ?u = Some 450"
    by (simp add: sample_defs cost_eval schedule_eval)
  have "usage_ok ?u" "ordinary_tier (usage_service_tier ?u)" "or0 (cache_write_12h_input_tokens ?u) = 0"
      "input_tokens ?u \<le> 100" "output_tokens ?u \<le> 10" "card_rates_ok ?p"
    by (simp_all add: usage_ok_def ordinary_tier_def card_rates_ok_def rates_ok_def token_rate_fields_def
        rate_in_range_def MAXIMUM_RATE_NANO_USD_PER_MILLION_TOKENS_def sample_defs)
  then have "450 \<le> schedule_maximum_cost_nano_usd ?p 100 10"
    by (intro schedule_maximum_bounds_usage [OF cost])
  with cost show ?thesis by blast
qed

text \<open>
  The estimate is not a bound for a request that writes a 12-hour cache: on a card for which
  \<open>schedule_prices_complete\<close> holds, a response that reports 100 such input tokens is charged
  2.5 times the input rate, above \<open>schedule_maximum_cost_nano_usd\<close> of the same counts.
\<close>

lemma schedule_maximum_misses_12h_writes:
  "schedule_prices_complete (sample_card 3000000 4000000 15000000) 100
   \<and> schedule_usage_cost_nano_usd (sample_card 3000000 4000000 15000000) (sample_usage 100 100 0) = Some 750
   \<and> schedule_maximum_cost_nano_usd (sample_card 3000000 4000000 15000000) 100 0 = 400"
  by (simp add: sample_defs cost_eval schedule_eval)

text \<open>
  The derived 12-hour write rate is the least integer rate that does not undercharge the
  published multiple of 2.5 times the input rate, and an authored rate wins.
\<close>

lemma twelve_hour_write_rate_least:
  "twelve_hour_write_rate (Some e) i = Some e
   \<and> twelve_hour_write_rate None (Some n) = Some (LEAST r. 5 * n \<le> 2 * r)"
proof -
  have "(LEAST r. 5 * n \<le> 2 * r) = (n * 5 + 1) div 2"
    by (rule Least_equality) auto
  then show ?thesis by (simp add: twelve_hour_write_rate_def)
qed

text \<open>
  C31. An off-peak schedule never raises a bill: when the price card passes its validator, and the
  effective card at some instant and the base card both value the same reported counts on the
  same side of the long-context threshold, the effective card's cost is at most the base cost.
\<close>

theorem effective_card_never_above_base:
  assumes "off_peak_bounded_by_base p = Inr p" and "effective_at p (Aware t) = Inr q"
    and "counts_ok u"
    and "token_cost_nano_usd u (select_schedule q n) = Some x"
    and "token_cost_nano_usd u (select_schedule p n) = Some y"
  shows "x \<le> y"
proof -
  have "card_le (select_schedule q n) (select_schedule p n)"
    using assms(1,2) by (rule effective_card_le)
  from token_cost_card_mono [OF assms(3) this assms(4,5)] show ?thesis .
qed

definition sample_off_peak_card :: gateway_token_prices where
  "sample_off_peak_card = (sample_card 10000000 10000000 20000000)\<lparr>off_peak := Some
     \<lparr>off_peak_card = token_rates.extend (sample_rates 4000000 4000000 8000000) \<lparr>tier_long_context = None\<rparr>,
      peak_windows = [\<lparr>window_days = [1, 2, 3, 4, 5], start_minute = 60, end_minute = 240\<rparr>],
      off_peak_dates = []\<rparr>\<rparr>"

lemmas off_peak_eval = sample_off_peak_card_def off_peak_bounded_by_base_def require_bounded_card_def
  token_rate_fields_def bounded_rate_pair_def effective_at_def applies_at_def peak_def covers_def
  utc_minute_def date_of_minute_def isoweekday_def MINUTES_PER_DAY_def PEAK_GUARD_BAND_def
  PEAK_LEAD_BAND_def card_schedule_def

definition sample_effective_card :: gateway_token_prices where
  "sample_effective_card = card_schedule
     (token_rates.extend (sample_rates 4000000 4000000 8000000) \<lparr>tier_long_context = None\<rparr>) None"

theorem effective_card_never_above_base_witness:
  "effective_at sample_off_peak_card (Aware 0) = Inr sample_effective_card
   \<and> the (token_cost_nano_usd (sample_counts 100 10 None None) (select_schedule sample_effective_card 100))
    \<le> the (token_cost_nano_usd (sample_counts 100 10 None None) (select_schedule sample_off_peak_card 100))"
  using effective_card_never_above_base
    [of sample_off_peak_card 0 sample_effective_card "sample_counts 100 10 None None" 100 480 1200]
  by (simp add: off_peak_eval sample_effective_card_def sample_defs cost_eval select_schedule_def rates_of_def
      token_rates.truncate_def counts_ok_def upto.simps)

end
