(* ===== verification/Contracts.thy ===== *)
theory Contracts
  imports Token_Cost
begin

text \<open>
  The contract models the gateway components exchange: billed units, usage, terminal events and
  failures (\<^verbatim>\<open>src/exp/runtime/gateway/stream_contracts.py\<close>), the authored dispatch policy of a
  rung (\<^verbatim>\<open>src/exp/common/models/dispatch_policy.py\<close>) and the deployment that carries it
  (\<^verbatim>\<open>src/exp/common/models/gateway_catalog.py\<close>). A pydantic model is a record together with its
  \<open>mode="after"\<close> validator, which returns the record or raises \<^const>\<open>ValueError\<close>.
\<close>

section \<open>Usage\<close>

record billed_units =
  billed_kind :: billed_unit_kind
  billed_variant :: string
  quantity_milli :: int

record gateway_usage =
  gu_input_tokens :: "int option"
  gu_output_tokens :: "int option"
  gu_cached_input_tokens :: "int option"
  gu_cache_creation_input_tokens :: "int option"
  gu_cache_creation_1h_input_tokens :: "int option"
  gu_cache_creation_12h_input_tokens :: "int option"
  gu_reasoning_tokens :: "int option"
  gu_image_output_tokens :: "int option"
  gu_tool_names :: "string list"
  gu_web_search_requests :: int
  gu_web_search_results :: "int option"
  gu_web_search_cost_nano_usd :: "int option"
  gu_tool_search_requests :: int
  gu_billed_units :: "billed_units option"

text \<open>A subset count that is present needs a present total no smaller than it.\<close>

definition covered_by :: "int option \<Rightarrow> int \<Rightarrow> int option \<Rightarrow> bool" where
  "covered_by sub extra whole = (case sub of None \<Rightarrow> True
     | Some n \<Rightarrow> (case whole of None \<Rightarrow> False | Some t \<Rightarrow> n + extra \<le> t))"

definition require_complete_tokens_or_tool_names :: "gateway_usage \<Rightarrow> py_error + gateway_usage" where
  "require_complete_tokens_or_tool_names u =
     (if gu_input_tokens u = None \<and> gu_output_tokens u = None \<and> gu_tool_names u = []
         \<and> gu_billed_units u = None
        then Inl (ValueError ''usage requires token totals, billed units, or invoked tool names'')
      else if \<not> covered_by (gu_cache_creation_1h_input_tokens u) 0 (gu_cache_creation_input_tokens u)
        then Inl (ValueError ''1-hour cache writes require a covering cache-creation total'')
      else if \<not> covered_by (gu_cache_creation_12h_input_tokens u)
                 (or0 (gu_cache_creation_1h_input_tokens u)) (gu_cache_creation_input_tokens u)
        then Inl (ValueError ''12-hour cache writes require a covering cache-creation total'')
      else if \<not> covered_by (gu_image_output_tokens u) 0 (gu_output_tokens u)
        then Inl (ValueError ''image output tokens require a covering output total'')
      else Inr u)"

definition has_token_counts :: "gateway_usage \<Rightarrow> bool" where
  "has_token_counts u \<longleftrightarrow> gu_input_tokens u \<noteq> None \<and> gu_output_tokens u \<noteq> None"

text \<open>The nonnegative field bounds.\<close>

definition gateway_usage_ok :: "gateway_usage \<Rightarrow> bool" where
  "gateway_usage_ok u \<longleftrightarrow>
     opt_ge 0 (gu_input_tokens u) \<and> opt_ge 0 (gu_output_tokens u)
     \<and> opt_ge 0 (gu_cached_input_tokens u) \<and> opt_ge 0 (gu_cache_creation_input_tokens u)
     \<and> opt_ge 0 (gu_cache_creation_1h_input_tokens u) \<and> opt_ge 0 (gu_cache_creation_12h_input_tokens u)
     \<and> opt_ge 0 (gu_reasoning_tokens u) \<and> opt_ge 0 (gu_image_output_tokens u)"

section \<open>Failures and events\<close>

datatype gateway_failure_class =
    INVALID_REQUEST | UNSUPPORTED_CAPABILITY | AUTHENTICATION | AUTHORIZATION | QUOTA_EXCEEDED
  | THROTTLED | TRANSPORT | TIMEOUT | PROVIDER_AUTHENTICATION | PROVIDER_NOT_FOUND | PROVIDER_QUOTA
  | REFUSAL | EMPTY_COMPLETION | MALFORMED_RESPONSE | PROVIDER_INTERNAL | CANCELLED | GUARDRAIL
  | INTERNAL | UNAVAILABLE

fun failure_class_value :: "gateway_failure_class \<Rightarrow> string" where
  "failure_class_value INVALID_REQUEST = ''invalid_request''"
| "failure_class_value UNSUPPORTED_CAPABILITY = ''unsupported_capability''"
| "failure_class_value AUTHENTICATION = ''authentication''"
| "failure_class_value AUTHORIZATION = ''authorization''"
| "failure_class_value QUOTA_EXCEEDED = ''quota_exceeded''"
| "failure_class_value THROTTLED = ''throttled''"
| "failure_class_value TRANSPORT = ''transport''"
| "failure_class_value TIMEOUT = ''timeout''"
| "failure_class_value PROVIDER_AUTHENTICATION = ''provider_authentication''"
| "failure_class_value PROVIDER_NOT_FOUND = ''provider_not_found''"
| "failure_class_value PROVIDER_QUOTA = ''provider_quota''"
| "failure_class_value REFUSAL = ''refusal''"
| "failure_class_value EMPTY_COMPLETION = ''empty_completion''"
| "failure_class_value MALFORMED_RESPONSE = ''malformed_response''"
| "failure_class_value PROVIDER_INTERNAL = ''provider_internal''"
| "failure_class_value CANCELLED = ''cancelled''"
| "failure_class_value GUARDRAIL = ''guardrail''"
| "failure_class_value INTERNAL = ''internal''"
| "failure_class_value UNAVAILABLE = ''unavailable''"

datatype gateway_header_timeout = ALLOWANCE | BUDGET

datatype gateway_refusal_reason =
    CYBER_POLICY | CBRN | CONTENT_POLICY | RECITATION | DATA_INSPECTION | UNSPECIFIED

text \<open>\<open>safe_details\<close> is read only for boolean flags, so its values are kept as booleans.\<close>

record gateway_failure =
  failure_class :: gateway_failure_class
  safe_message :: string
  retryable_same_deployment :: bool
  failover_eligible :: bool
  safe_details :: "(string, bool) dict"
  rejected_parameter :: "string option"
  provider_detail :: "string option"
  failure_retry_after_seconds :: "int option"
  customer_owned :: bool
  refusal_reason :: "gateway_refusal_reason option"
  header_timeout :: "gateway_header_timeout option"

datatype gateway_event_kind =
    TEXT_DELTA | REFUSAL_DELTA | CHOICE_LOGPROBS_DELTA | PROVIDER_RESPONSES_LOGPROBS
  | REASONING_SUMMARY_DELTA | THINKING_DELTA | THINKING_SIGNATURE | REDACTED_THINKING
  | ENCRYPTED_REASONING | TOOL_CALL_STARTED | TOOL_ARGUMENTS_DELTA | TOOL_CALL_COMPLETED
  | USAGE | COMPLETED | INCOMPLETE | FAILED

text \<open>Of an event, the fields accounting reads (stream deltas carry no money).\<close>

record gateway_event =
  event_kind :: gateway_event_kind
  event_usage :: "gateway_usage option"
  event_failure :: "gateway_failure option"
  usage_incomplete_due_to_disconnect :: bool
  usage_estimated :: bool
  decision_provider_rejected :: bool
  accounting_recovery :: bool
  release_reservation_flag :: bool

definition accounting_release_reservation :: "gateway_event \<Rightarrow> bool" where
  "accounting_release_reservation e \<longleftrightarrow> accounting_recovery e \<and> release_reservation_flag e"

section \<open>Dispatch policy\<close>

datatype failover_mode = Maximize_Availability | Maximize_Cache | Maximize_Cache_Affinity
datatype saturation_policy = Overflow | Refuse
datatype fleet_saturation_policy = Fleet_Spill | Fleet_Queue | Fleet_Refuse

record gateway_throttle_redial_policy =
  max_attempts :: int
  base_delay_ms :: int
  max_delay_ms :: int

definition require_ordered_delays ::
    "gateway_throttle_redial_policy \<Rightarrow> py_error + gateway_throttle_redial_policy" where
  "require_ordered_delays p =
     (if max_delay_ms p < base_delay_ms p
        then Inl (ValueError ''max_delay_ms must be at least base_delay_ms'') else Inr p)"

definition FLEET_ARRIVAL_FAST_DEFAULT_SECONDS :: int where
  "FLEET_ARRIVAL_FAST_DEFAULT_SECONDS = 30"
definition FLEET_ARRIVAL_SLOW_DEFAULT_SECONDS :: int where
  "FLEET_ARRIVAL_SLOW_DEFAULT_SECONDS = 300"

record gateway_fleet_lane_policy =
  fleet_requests_per_minute :: "int option"
  fleet_tokens_per_minute :: "int option"
  burst_requests :: "int option"
  fleet_max_inflight :: "int option"
  inflight_auto :: bool
  inflight_headroom :: "real option"
  confidence :: "real option"
  horizon_seconds :: "real option"
  arrival_fast_seconds :: "int option"
  arrival_slow_seconds :: "int option"
  throttle_backoff_factor :: "real option"
  fleet_saturation :: fleet_saturation_policy
  queue_milliseconds :: "int option"

text \<open>Python's \<open>x or default\<close> on an optional integer.\<close>

definition or_default :: "int \<Rightarrow> int option \<Rightarrow> int" where
  "or_default d x = (case x of None \<Rightarrow> d | Some v \<Rightarrow> if v = 0 then d else v)"

definition require_coherent_limits ::
    "gateway_fleet_lane_policy \<Rightarrow> py_error + gateway_fleet_lane_policy" where
  "require_coherent_limits p =
     (if fleet_requests_per_minute p = None \<and> fleet_tokens_per_minute p = None \<and> fleet_max_inflight p = None
        then Inl (ValueError ''a fleet policy needs requests_per_minute, tokens_per_minute or max_inflight'')
      else if fleet_requests_per_minute p = None \<and> inflight_auto p
        then Inl (ValueError ''inflight_auto needs requests_per_minute (the pace it scales)'')
      else if fleet_requests_per_minute p = None \<and> burst_requests p \<noteq> None
        then Inl (ValueError ''burst_requests needs requests_per_minute (the pace it scales)'')
      else if fleet_requests_per_minute p = None \<and> throttle_backoff_factor p \<noteq> None
        then Inl (ValueError ''throttle_backoff_factor needs requests_per_minute (the pace it scales)'')
      else if inflight_headroom p \<noteq> None \<and> \<not> inflight_auto p
        then Inl (ValueError ''inflight_headroom needs inflight_auto'')
      else if (fleet_saturation p = Fleet_Queue) \<noteq> (queue_milliseconds p \<noteq> None)
        then Inl (ValueError ''queue_milliseconds is required by saturation=queue and only by it'')
      else if or_default FLEET_ARRIVAL_FAST_DEFAULT_SECONDS (arrival_fast_seconds p)
              \<ge> or_default FLEET_ARRIVAL_SLOW_DEFAULT_SECONDS (arrival_slow_seconds p)
        then Inl (ValueError ''the fast arrival window must be shorter than the slow one'')
      else Inr p)"

record gateway_rung_dispatch_policy =
  concurrency_bound :: "int option"
  saturation :: saturation_policy
  fair_share :: bool
  affinity_weight :: "real option"
  requests_per_minute :: "int option"
  fleet :: "gateway_fleet_lane_policy option"
  tokens_per_minute :: "int option"
  cache_priority_alpha :: "real option"
  fresh_session_spill_fraction :: "real option"
  sticky_spill_seconds :: "int option"
  priority_overflow_paying :: "real option"
  priority_overflow_pro :: "real option"
  upstream_priority :: bool
  priority_tier_attested :: bool
  access_programs :: "(string, string) dict option"
  max_prompt_tokens :: "int option"
  fast_reserve_fraction :: "real option"

text \<open>\<open>GatewayRungDispatchPolicy()\<close>: every lever inert.\<close>

definition default_dispatch :: gateway_rung_dispatch_policy where
  "default_dispatch =
     \<lparr>concurrency_bound = None, saturation = Overflow, fair_share = False, affinity_weight = None,
      requests_per_minute = None, fleet = None, tokens_per_minute = None, cache_priority_alpha = None,
      fresh_session_spill_fraction = None, sticky_spill_seconds = None, priority_overflow_paying = None,
      priority_overflow_pro = None, upstream_priority = False, priority_tier_attested = False,
      access_programs = None, max_prompt_tokens = None, fast_reserve_fraction = None\<rparr>"

text \<open>\<open>left > right\<close> when both multiples are authored.\<close>

definition both_greater :: "real option \<Rightarrow> real option \<Rightarrow> bool" where
  "both_greater a b = (case (a, b) of (Some x, Some y) \<Rightarrow> x > y | _ \<Rightarrow> False)"

definition require_coherent_authoring ::
    "gateway_rung_dispatch_policy \<Rightarrow> py_error + gateway_rung_dispatch_policy" where
  "require_coherent_authoring p =
     (if fair_share p \<and> concurrency_bound p = None
        then Inl (ValueError ''fair_share requires a concurrency_bound to share'')
      else if both_greater (priority_overflow_paying p) (priority_overflow_pro p)
        then Inl (ValueError ''priority_overflow_paying may not exceed priority_overflow_pro'')
      else if fast_reserve_fraction p \<noteq> None \<and> concurrency_bound p = None
        then Inl (ValueError ''fast_reserve_fraction requires a concurrency_bound to reserve from'')
      else if cache_priority_alpha p \<noteq> None \<and> \<not> fair_share p
        then Inl (ValueError ''cache_priority_alpha requires fair_share to weight'')
      else if fresh_session_spill_fraction p \<noteq> None \<and> concurrency_bound p = None
        then Inl (ValueError ''fresh_session_spill_fraction requires a concurrency_bound'')
      else if fresh_session_spill_fraction p \<noteq> None \<and> sticky_spill_seconds p = None
        then Inl (ValueError ''fresh_session_spill_fraction requires sticky_spill_seconds'')
      else Inr p)"

section \<open>Deployments\<close>

datatype billing_source = HOST_MANAGED | CUSTOMER_MANAGED

text \<open>
  Of \<open>ExactModelDeployment\<close>: its identity, connection, provider, funding, the capability facts
  pricing reads, the price card and the dispatch policy. \<open>maximum_output_tokens\<close> and \<open>context_window_tokens\<close> are
  \<open>None\<close> both for absent capabilities and for an absent limit; every reader treats the two alike.
\<close>

record exact_model_deployment =
  deployment_id :: string
  source_alias :: string
  exact_model_id :: string
  provider :: string
  connection_sha256 :: string
  dep_billing_source :: billing_source
  maximum_output_tokens :: "int option"
  context_window_tokens :: "int option"
  emits_images :: bool
  reports_cached_input_tokens :: bool
  reports_cache_creation_input_tokens :: bool
  reports_reasoning_tokens :: bool
  failover_only_on :: "string list option"
  prices :: gateway_token_prices
  dispatch :: "gateway_rung_dispatch_policy option"

section \<open>Authorizations\<close>

text \<open>
  Of \<open>AuthorizationSnapshot\<close>: the identities accounting charges, the digests idempotency compares, the catalogue
  revision health keys carry, and the host-vouched admission levers. \<open>auth_direct_target\<close> tells whether the target is a
  \<open>DirectTarget\<close>.
\<close>

record authorization_snapshot =
  auth_request_id :: string
  auth_organization_id :: string
  auth_identity_id :: string
  auth_virtual_key_id :: string
  auth_alias_revision_id :: string
  auth_direct_target :: bool
  auth_surface :: string
  auth_catalog_sha256 :: string
  auth_canonical_request_sha256 :: string
  auth_caller_operation_sha256 :: "string option"
  auth_refusal_failover :: bool
  auth_fair_share_weight :: int
  auth_priority_admission :: int
  auth_priority_class :: "int option"
  auth_output_tokens_per_second :: "real option"
  auth_output_pace_saturation :: "real option"
  auth_self_hosted_class_concurrency :: "int option"
  auth_fast :: bool
  auth_prompt_caching_disabled :: bool

text \<open>The field bounds of the contract.\<close>

definition authorization_valid :: "authorization_snapshot \<Rightarrow> bool" where
  "authorization_valid a \<longleftrightarrow>
     1 \<le> auth_fair_share_weight a \<and> auth_fair_share_weight a \<le> 1000000
     \<and> 0 \<le> auth_priority_admission a \<and> auth_priority_admission a \<le> 2
     \<and> (case auth_priority_class a of None \<Rightarrow> True | Some c \<Rightarrow> 0 \<le> c \<and> c \<le> 8)
     \<and> (case auth_output_tokens_per_second a of None \<Rightarrow> True | Some x \<Rightarrow> x > 0)
     \<and> (case auth_output_pace_saturation a of None \<Rightarrow> True | Some x \<Rightarrow> x > 0)
     \<and> (case auth_self_hosted_class_concurrency a of None \<Rightarrow> True | Some c \<Rightarrow> c \<ge> 1)"

section \<open>Lemmas\<close>

lemma coherent_authoring_needs_bound:
  "require_coherent_authoring p = Inr p \<Longrightarrow>
   fair_share p \<or> fast_reserve_fraction p \<noteq> None \<or> fresh_session_spill_fraction p \<noteq> None \<Longrightarrow>
   concurrency_bound p \<noteq> None"
  by (auto simp: require_coherent_authoring_def split: if_splits)

end
