(* ===== verification/Lane_Ejection.thy ===== *)
theory Lane_Ejection
  imports Contracts
begin

text \<open>
  Ejection of a physical lane whose box answers only dead-lane failures
  (\<^verbatim>\<open>src/exp/runtime/gateway/lane_ejection.py\<close>): two failure streaks per lane, a cooldown, and a
  half-open probe. A lane is keyed by deployment and connection; its state is absent until a counted
  failure allocates it. Times are readings of one monotonic clock, which starts above zero, so the
  code's test \<open>not ejected_until\<close> reads \<open>ejected_until = 0\<close>.
\<close>

section \<open>Definitions\<close>

type_synonym lane_key = "string \<times> string"

definition DEAD_LANE_FAILURES :: "gateway_failure_class list" where
  "DEAD_LANE_FAILURES = [TRANSPORT, PROVIDER_INTERNAL]"

definition is_header_timeout :: "gateway_failure \<Rightarrow> bool" where
  "is_header_timeout f \<longleftrightarrow> header_timeout f = Some ALLOWANCE"

record lane_ejection_policy =
  ej_failures :: int
  ej_window_seconds :: seconds
  ej_header_timeouts :: int
  ej_header_window_seconds :: seconds
  ej_cooldown_seconds :: seconds

definition default_ejection_policy :: lane_ejection_policy where
  "default_ejection_policy = \<lparr>ej_failures = 3, ej_window_seconds = 10, ej_header_timeouts = 2,
     ej_header_window_seconds = 600, ej_cooldown_seconds = 30\<rparr>"

definition ejection_post_init :: "lane_ejection_policy \<Rightarrow> py_error + lane_ejection_policy" where
  "ejection_post_init p =
     (if ej_failures p < 0 \<or> ej_header_timeouts p < 0
        then Inl (ValueError ''lane ejection counts must not be negative'')
      else if min (min (ej_window_seconds p) (ej_header_window_seconds p)) (ej_cooldown_seconds p) \<le> 0
        then Inl (ValueError ''lane ejection windows and cooldown must be positive'')
      else Inr p)"

text \<open>
  The operator's overrides. \<open>float_of\<close> is Python's \<open>float(text)\<close>; an unset or empty variable keeps the default, and
  \<open>int\<close> truncates towards zero.
\<close>

definition read_override :: "(string \<Rightarrow> py_error + real) \<Rightarrow> (string, string) dict \<Rightarrow> string \<Rightarrow> real \<Rightarrow> py_error + real" where
  "read_override float_of environ name preset =
     (case dget environ name of None \<Rightarrow> Inr preset | Some raw \<Rightarrow> if raw = '''' then Inr preset else float_of raw)"

definition truncate_int :: "real \<Rightarrow> int" where
  "truncate_int x = (if x \<ge> 0 then \<lfloor>x\<rfloor> else \<lceil>x\<rceil>)"

definition ejection_from_environ ::
    "(string \<Rightarrow> py_error + real) \<Rightarrow> (string, string) dict \<Rightarrow> py_error + lane_ejection_policy" where
  "ejection_from_environ float_of environ =
     (let read = read_override float_of environ
      in rbind (read ''EXP_GATEWAY_LANE_EJECTION_FAILURES'' 3) (\<lambda>failures.
         rbind (read ''EXP_GATEWAY_LANE_EJECTION_WINDOW_SECONDS'' 10) (\<lambda>window.
         rbind (read ''EXP_GATEWAY_LANE_EJECTION_HEADER_TIMEOUTS'' 2) (\<lambda>header_timeouts.
         rbind (read ''EXP_GATEWAY_LANE_EJECTION_HEADER_WINDOW_SECONDS'' 600) (\<lambda>header_window.
         rbind (read ''EXP_GATEWAY_LANE_EJECTION_COOLDOWN_SECONDS'' 30) (\<lambda>cooldown.
           ejection_post_init
             \<lparr>ej_failures = truncate_int failures, ej_window_seconds = window,
              ej_header_timeouts = truncate_int header_timeouts, ej_header_window_seconds = header_window,
              ej_cooldown_seconds = cooldown\<rparr>))))))"

record lane_state =
  ls_failures :: "seconds list"
  ls_header_timeouts :: "seconds list"
  ejected_until :: seconds
  probe_started :: "seconds option"

definition fresh_lane :: lane_state where
  "fresh_lane = \<lparr>ls_failures = [], ls_header_timeouts = [], ejected_until = 0, probe_started = None\<rparr>"

type_synonym lanes = "(lane_key, lane_state) dict"

text \<open>Append the reading, drop the oldest past the threshold, and test the span.\<close>

definition streak_push :: "seconds list \<Rightarrow> int \<Rightarrow> seconds \<Rightarrow> seconds list" where
  "streak_push streak threshold now =
     (let s = streak @ [now] in drop (length s - nat threshold) s)"

definition streak_full :: "seconds list \<Rightarrow> int \<Rightarrow> seconds \<Rightarrow> seconds \<Rightarrow> bool" where
  "streak_full streak threshold window now =
     (let s = streak_push streak threshold now
      in int (length s) = threshold \<and> now - hd s \<le> window)"

definition tracked :: "lanes \<Rightarrow> nat" where "tracked lanes = length lanes"

definition probe_live :: "lane_ejection_policy \<Rightarrow> lane_state \<Rightarrow> seconds \<Rightarrow> bool" where
  "probe_live p s now = (case probe_started s of None \<Rightarrow> False | Some t \<Rightarrow> now - t < ej_cooldown_seconds p)"

definition ejected :: "lane_ejection_policy \<Rightarrow> lanes \<Rightarrow> lane_key \<Rightarrow> seconds \<Rightarrow> bool" where
  "ejected p lanes lane now =
     (case dget lanes lane of None \<Rightarrow> False
      | Some s \<Rightarrow>
          if ejected_until s = 0 then False
          else if now < ejected_until s then True
          else probe_live p s now)"

definition lane_claimed :: "lane_ejection_policy \<Rightarrow> lane_key \<Rightarrow> seconds \<Rightarrow> lanes \<Rightarrow> lanes" where
  "lane_claimed p lane now lanes =
     (case dget lanes lane of None \<Rightarrow> lanes
      | Some s \<Rightarrow>
          if ejected_until s = 0 \<or> now < ejected_until s then lanes
          else if \<not> probe_live p s now then dset lane (s\<lparr>probe_started := Some now\<rparr>) lanes
          else lanes)"

definition lane_released :: "lane_key \<Rightarrow> lanes \<Rightarrow> lanes" where
  "lane_released lane lanes =
     (case dget lanes lane of None \<Rightarrow> lanes | Some s \<Rightarrow> dset lane (s\<lparr>probe_started := None\<rparr>) lanes)"

definition lane_succeeded :: "lane_key \<Rightarrow> lanes \<Rightarrow> lanes" where
  "lane_succeeded lane lanes = dpop lane lanes"

definition dead_failure :: "gateway_failure \<Rightarrow> bool" where
  "dead_failure f \<longleftrightarrow> failure_class f \<in> set DEAD_LANE_FAILURES"

definition hung_failure :: "lane_ejection_policy \<Rightarrow> gateway_failure \<Rightarrow> bool" where
  "hung_failure p f \<longleftrightarrow> ej_header_timeouts p > 0 \<and> is_header_timeout f"

text \<open>The state after one counted failure.\<close>

definition count_failure :: "lane_ejection_policy \<Rightarrow> gateway_failure \<Rightarrow> seconds \<Rightarrow> lane_state \<Rightarrow> lane_state" where
  "count_failure p f now s =
     (let s0 = s\<lparr>probe_started := None\<rparr>
      in if ejected_until s \<noteq> 0 \<and> now \<ge> ejected_until s
           then s0\<lparr>ejected_until := now + ej_cooldown_seconds p\<rparr>
         else if dead_failure f then
           (if streak_full (ls_failures s) (ej_failures p) (ej_window_seconds p) now
            then s0\<lparr>ejected_until := now + ej_cooldown_seconds p, ls_failures := [], ls_header_timeouts := []\<rparr>
            else s0\<lparr>ls_failures := streak_push (ls_failures s) (ej_failures p) now\<rparr>)
         else
           (if streak_full (ls_header_timeouts s) (ej_header_timeouts p) (ej_header_window_seconds p) now
            then s0\<lparr>ejected_until := now + ej_cooldown_seconds p, ls_failures := [], ls_header_timeouts := []\<rparr>
            else s0\<lparr>ls_header_timeouts := streak_push (ls_header_timeouts s) (ej_header_timeouts p) now\<rparr>))"

definition lane_failed :: "lane_ejection_policy \<Rightarrow> lane_key \<Rightarrow> gateway_failure \<Rightarrow> seconds \<Rightarrow> lanes \<Rightarrow> lanes" where
  "lane_failed p lane f now lanes =
     (if ej_failures p = 0 then lanes
      else if \<not> (dead_failure f \<or> hung_failure p f) then lane_released lane lanes
      else dset lane (count_failure p f now (dget_or fresh_lane lanes lane)) lanes)"

section \<open>Lemmas\<close>

lemma policy_pos:
  assumes "ejection_post_init p = Inr p"
  shows "0 < ej_window_seconds p" "0 < ej_header_window_seconds p" "0 < ej_cooldown_seconds p"
    "0 \<le> ej_failures p" "0 \<le> ej_header_timeouts p"
  using assms by (auto simp: ejection_post_init_def split: if_splits)

text \<open>Every operation touches one lane only.\<close>

lemma lane_ops_other:
  assumes "l \<noteq> lane"
  shows "dget (lane_claimed p lane now lanes) l = dget lanes l"
    and "dget (lane_released lane lanes) l = dget lanes l"
    and "dget (lane_succeeded lane lanes) l = dget lanes l"
    and "dget (lane_failed p lane f now lanes) l = dget lanes l"
  using assms
  by (auto simp: lane_claimed_def lane_released_def lane_succeeded_def lane_failed_def split: option.splits)

lemma ejected_cong: "dget lanes l = dget lanes' l \<Longrightarrow> ejected p lanes l now = ejected p lanes' l now"
  by (simp add: ejected_def)

text \<open>The dead-lane streak after a run of dead-lane failures on a fresh lane.\<close>

definition dead_run :: "lane_ejection_policy \<Rightarrow> lane_key \<Rightarrow> gateway_failure \<Rightarrow> seconds list \<Rightarrow> lanes" where
  "dead_run p lane f ts = fold (lane_failed p lane f) ts []"

lemma streak_push_short:
  "length xs < nat n \<Longrightarrow> streak_push xs n t = xs @ [t]"
  by (simp add: streak_push_def Let_def)

lemma streak_full_short:
  "length xs < nat n \<Longrightarrow> streak_full xs n w t = (int (length xs) + 1 = n \<and> t - hd (xs @ [t]) \<le> w)"
  by (auto simp: streak_full_def streak_push_short Let_def)

lemma dead_run_below:
  assumes "dead_failure f" and "int (length ts) < ej_failures p" and "ts \<noteq> []"
  shows "dget (dead_run p lane f ts) lane
    = Some \<lparr>ls_failures = ts, ls_header_timeouts = [], ejected_until = 0, probe_started = None\<rparr>"
  using assms(2,3)
proof (induction ts rule: rev_induct)
  case (snoc t ts)
  let ?s = "dget_or fresh_lane (dead_run p lane f ts) lane"
  have s: "?s = \<lparr>ls_failures = ts, ls_header_timeouts = [], ejected_until = 0, probe_started = None\<rparr>"
    using snoc by (cases "ts = []") (simp_all add: dget_or_def dead_run_def fresh_lane_def)
  have "dead_run p lane f (ts @ [t]) = dset lane (count_failure p f t ?s) (dead_run p lane f ts)"
    using assms(1) snoc.prems by (simp add: dead_run_def lane_failed_def)
  moreover have "count_failure p f t ?s
      = \<lparr>ls_failures = ts @ [t], ls_header_timeouts = [], ejected_until = 0, probe_started = None\<rparr>"
    unfolding s count_failure_def Let_def
    using assms(1) snoc.prems by (simp add: streak_full_short streak_push_short)
  ultimately show ?case by simp
qed simp

lemma dead_run_full:
  assumes "dead_failure f" and "int (length ts) + 1 = ej_failures p"
  shows "dget (dead_run p lane f (ts @ [t])) lane
    = Some (if t - hd (ts @ [t]) \<le> ej_window_seconds p
        then \<lparr>ls_failures = [], ls_header_timeouts = [], ejected_until = t + ej_cooldown_seconds p, probe_started = None\<rparr>
        else \<lparr>ls_failures = ts @ [t], ls_header_timeouts = [], ejected_until = 0, probe_started = None\<rparr>)"
proof -
  let ?s = "dget_or fresh_lane (dead_run p lane f ts) lane"
  have s: "?s = \<lparr>ls_failures = ts, ls_header_timeouts = [], ejected_until = 0, probe_started = None\<rparr>"
  proof (cases "ts = []")
    case True
    then show ?thesis by (simp add: dget_or_def dead_run_def fresh_lane_def)
  next
    case False
    with dead_run_below [OF assms(1), of ts p lane] assms(2) show ?thesis by (simp add: dget_or_def)
  qed
  have "dead_run p lane f (ts @ [t]) = dset lane (count_failure p f t ?s) (dead_run p lane f ts)"
    using assms by (simp add: dead_run_def lane_failed_def)
  with s assms show ?thesis
    by (auto simp: count_failure_def streak_full_short streak_push_short Let_def)
qed

section \<open>Sample failures\<close>

definition sample_failure :: "gateway_failure_class \<Rightarrow> gateway_failure" where
  "sample_failure k = \<lparr>failure_class = k, safe_message = ''m'', retryable_same_deployment = False,
     failover_eligible = True, safe_details = [], rejected_parameter = None, provider_detail = None,
     failure_retry_after_seconds = None, customer_owned = False, refusal_reason = None, header_timeout = None\<rparr>"

section \<open>Properties\<close>

text \<open>
  A lane is ejected by exactly the authored streak: from an untracked lane, fewer than \<open>failures\<close> dead-lane
  failures never order it last at any time, and the failure that completes the streak ejects it, for
  precisely one cooldown, exactly when it falls within the window of the first of them.
\<close>

lemma ejection_needs_full_streak:
  assumes "ejection_post_init p = Inr p" and "dead_failure f" and "0 < hd (ts @ [t])" and "0 < t"
  shows "(int (length ts) < ej_failures p \<longrightarrow> \<not> ejected p (dead_run p lane f ts) lane now)
    \<and> (int (length ts) + 1 = ej_failures p \<longrightarrow>
        ejected p (dead_run p lane f (ts @ [t])) lane now
        = (t - hd (ts @ [t]) \<le> ej_window_seconds p \<and> now < t + ej_cooldown_seconds p))"
proof (intro conjI impI)
  assume "int (length ts) < ej_failures p"
  with dead_run_below [OF assms(2), of ts p lane] show "\<not> ejected p (dead_run p lane f ts) lane now"
    by (cases "ts = []") (simp_all add: ejected_def dead_run_def)
next
  assume "int (length ts) + 1 = ej_failures p"
  with dead_run_full [OF assms(2), of ts p lane t] assms policy_pos(3) [OF assms(1)]
  show "ejected p (dead_run p lane f (ts @ [t])) lane now
      = (t - hd (ts @ [t]) \<le> ej_window_seconds p \<and> now < t + ej_cooldown_seconds p)"
    by (auto simp: ejected_def probe_live_def)
qed

text \<open>
  A half-open lane admits one probe and its outcome decides: when an ejection's cooldown is over and no probe is
  live, the lane is walked normally; after one claim every other walk orders it last until the probe reports or one
  cooldown passes; a success clears the lane, a dead-lane failure ejects it again for a full cooldown, and a probe
  released before dispatch frees the slot.
\<close>

lemma half_open_single_probe:
  assumes "ejection_post_init p = Inr p" and "0 < ej_failures p" and "dget lanes lane = Some s"
    and "ejected_until s \<noteq> 0" and "ejected_until s \<le> now" and "\<not> probe_live p s now" and "dead_failure f"
    and "now \<le> later" and "0 < now"
  shows "\<not> ejected p lanes lane now
    \<and> ejected p (lane_claimed p lane now lanes) lane later = (later < now + ej_cooldown_seconds p)
    \<and> \<not> ejected p (lane_succeeded lane (lane_claimed p lane now lanes)) lane later
    \<and> \<not> ejected p (lane_released lane (lane_claimed p lane now lanes)) lane later
    \<and> ejected p (lane_failed p lane f now (lane_claimed p lane now lanes)) lane later
       = (later < now + ej_cooldown_seconds p)"
proof -
  have c: "lane_claimed p lane now lanes = dset lane (s\<lparr>probe_started := Some now\<rparr>) lanes"
    using assms by (simp add: lane_claimed_def)
  have pos: "0 < now + ej_cooldown_seconds p" using assms(9) policy_pos(3) [OF assms(1)] by linarith
  have "lane_failed p lane f now (lane_claimed p lane now lanes)
      = dset lane (s\<lparr>probe_started := None, ejected_until := now + ej_cooldown_seconds p\<rparr>)
          (dset lane (s\<lparr>probe_started := Some now\<rparr>) lanes)"
    using assms by (simp add: c lane_failed_def count_failure_def dget_or_def)
  with c pos assms show ?thesis
    by (auto simp: ejected_def lane_succeeded_def lane_released_def probe_live_def)
qed

definition ejected_lane :: lanes where
  "ejected_lane = [((''d'', ''c''), \<lparr>ls_failures = [], ls_header_timeouts = [], ejected_until = 139, probe_started = None\<rparr>)]"

end
