(* ===== verification/Health.thy ===== *)
theory Health
  imports Lane_Ejection
begin

text \<open>
  Circuits and throttle windows per deployment (\<^verbatim>\<open>src/exp/runtime/gateway/health.py\<close>). Every method holds the
  registry's lock for its whole body, so each is one atomic step; the clock reading it takes is its argument
  \<open>now\<close>. \<open>setdefault\<close> stores a closed circuit for a key seen for the first time.
\<close>

section \<open>Definitions\<close>

type_synonym health_key = "string \<times> string \<times> string"

definition HARD_FAILURES :: "gateway_failure_class list" where
  "HARD_FAILURES = [PROVIDER_AUTHENTICATION, PROVIDER_NOT_FOUND, PROVIDER_QUOTA]"

definition OPERATIONAL_FAILURES :: "gateway_failure_class list" where
  "OPERATIONAL_FAILURES = [TRANSPORT, TIMEOUT, MALFORMED_RESPONSE, PROVIDER_INTERNAL]"

definition RETRY_AFTER_WINDOW_MINIMUM_SECONDS :: seconds where "RETRY_AFTER_WINDOW_MINIMUM_SECONDS = 5"
definition RETRY_AFTER_WINDOW_MAXIMUM_SECONDS :: seconds where "RETRY_AFTER_WINDOW_MAXIMUM_SECONDS = 6 * 3600"
definition PLAN_WINDOW_MAXIMUM_SECONDS :: seconds where "PLAN_WINDOW_MAXIMUM_SECONDS = 8 * 24 * 3600"

datatype failure_cause = Cause_Transport | Cause_Credential | Cause_Throttle

definition health_failure_cause :: "gateway_failure_class \<Rightarrow> failure_cause option" where
  "health_failure_cause k =
     (if k = THROTTLED then Some Cause_Throttle
      else if k \<in> set HARD_FAILURES then Some Cause_Credential
      else if k \<in> set OPERATIONAL_FAILURES then Some Cause_Transport
      else None)"

definition lane_of :: "health_key \<Rightarrow> lane_key" where
  "lane_of = (\<lambda>(catalog, deployment, connection). (deployment, connection))"

record deployment_health =
  consecutive_failures :: int
  open_until :: seconds
  throttle_until :: seconds
  half_open_probe :: bool
  last_resort_probe :: bool
  refusal_count :: int

definition closed_circuit :: deployment_health where
  "closed_circuit = \<lparr>consecutive_failures = 0, open_until = 0, throttle_until = 0, half_open_probe = False,
     last_resort_probe = False, refusal_count = 0\<rparr>"

record health_registry =
  failure_threshold :: int
  open_seconds :: seconds
  throttle_seconds :: seconds
  ejection_policy :: lane_ejection_policy
  states :: "(health_key, deployment_health) dict"
  lanes :: lanes

text \<open>The constructor, with the ejection policy it binds already read.\<close>

definition new_health_registry :: "int \<Rightarrow> seconds \<Rightarrow> seconds \<Rightarrow> lane_ejection_policy \<Rightarrow> py_error + health_registry" where
  "new_health_registry threshold opens throttles policy =
     (if threshold < 1 then Inl (ValueError ''failure_threshold must be at least one'')
      else if opens \<le> 0 \<or> throttles \<le> 0 then Inl (ValueError ''health suppression windows must be positive'')
      else Inr \<lparr>failure_threshold = threshold, open_seconds = opens, throttle_seconds = throttles,
             ejection_policy = policy, states = [], lanes = []\<rparr>)"

definition health_of :: "health_registry \<Rightarrow> health_key \<Rightarrow> deployment_health" where
  "health_of h key = dget_or closed_circuit (states h) key"

definition put_health :: "health_key \<Rightarrow> deployment_health \<Rightarrow> health_registry \<Rightarrow> health_registry" where
  "put_health key s h = h\<lparr>states := dset key s (states h)\<rparr>"

definition note_claim :: "health_key \<Rightarrow> seconds \<Rightarrow> health_registry \<Rightarrow> health_registry" where
  "note_claim key now h = h\<lparr>lanes := lane_claimed (ejection_policy h) (lane_of key) now (lanes h)\<rparr>"

text \<open>Candidates with every ejected lane last, order otherwise kept.\<close>

definition key_at :: "health_key list \<Rightarrow> nat \<Rightarrow> health_key" where "key_at keys i = keys ! i"

definition lane_ejected :: "health_registry \<Rightarrow> health_key \<Rightarrow> seconds \<Rightarrow> bool" where
  "lane_ejected h key now = ejected (ejection_policy h) (lanes h) (lane_of key) now"

definition order :: "health_registry \<Rightarrow> health_key list \<Rightarrow> nat list \<Rightarrow> seconds \<Rightarrow> nat list" where
  "order h keys candidates now =
     filter (\<lambda>i. \<not> lane_ejected h (key_at keys i) now) candidates
     @ filter (\<lambda>i. lane_ejected h (key_at keys i) now) candidates"

definition claim :: "health_key \<Rightarrow> seconds \<Rightarrow> health_registry \<Rightarrow> bool \<times> health_registry" where
  "claim key now h =
     (let s = health_of h key; h0 = put_health key s h
      in if throttle_until s > now then (False, h0)
         else if open_until s > now then (False, h0)
         else if consecutive_failures s < failure_threshold h then (True, note_claim key now h0)
         else if half_open_probe s then (False, h0)
         else (True, note_claim key now (put_health key (s\<lparr>half_open_probe := True\<rparr>) h)))"

definition claim_last_resort :: "health_key \<Rightarrow> seconds \<Rightarrow> health_registry \<Rightarrow> bool \<times> health_registry" where
  "claim_last_resort key now h =
     (let s = health_of h key; h0 = put_health key s h
      in if throttle_until s > now then (False, h0)
         else if last_resort_probe s then (False, h0)
         else (True, note_claim key now (put_health key (s\<lparr>last_resort_probe := True\<rparr>) h)))"

definition claim_forced :: "health_key \<Rightarrow> seconds \<Rightarrow> health_registry \<Rightarrow> bool \<times> health_registry" where
  "claim_forced key now h =
     (let s = health_of h key; h0 = put_health key s h
      in if throttle_until s > now then (False, h0) else (True, note_claim key now h0))"

definition claim_throttle_redial :: "health_key \<Rightarrow> seconds \<Rightarrow> health_registry \<Rightarrow> bool \<times> health_registry" where
  "claim_throttle_redial key now h =
     (let s = health_of h key in (open_until s \<le> now, put_health key s h))"

text \<open>\<open>dispatch_opened\<close> and \<open>succeeded\<close> have the same body.\<close>

definition succeeded :: "health_key \<Rightarrow> health_registry \<Rightarrow> health_registry" where
  "succeeded key h =
     (let s = health_of h key;
          h1 = put_health key (s\<lparr>consecutive_failures := 0, open_until := 0, half_open_probe := False,
                 last_resort_probe := False\<rparr>) h
      in h1\<lparr>lanes := lane_succeeded (lane_of key) (lanes h)\<rparr>)"

definition dispatch_opened :: "health_key \<Rightarrow> health_registry \<Rightarrow> health_registry" where
  "dispatch_opened key h =
     (let s = health_of h key;
          h1 = put_health key (s\<lparr>consecutive_failures := 0, open_until := 0, half_open_probe := False,
                 last_resort_probe := False\<rparr>) h
      in h1\<lparr>lanes := lane_succeeded (lane_of key) (lanes h)\<rparr>)"

definition throttle_window_seconds :: "health_registry \<Rightarrow> gateway_failure \<Rightarrow> seconds" where
  "throttle_window_seconds h f =
     (case failure_retry_after_seconds f of
        None \<Rightarrow> throttle_seconds h
      | Some wait \<Rightarrow> min (max (real_of_int wait) RETRY_AFTER_WINDOW_MINIMUM_SECONDS)
                       RETRY_AFTER_WINDOW_MAXIMUM_SECONDS)"

definition failed_state :: "health_registry \<Rightarrow> gateway_failure \<Rightarrow> seconds \<Rightarrow> deployment_health \<Rightarrow> deployment_health" where
  "failed_state h f now s0 =
     (let s = s0\<lparr>half_open_probe := False, last_resort_probe := False\<rparr>;
          cause = health_failure_cause (failure_class f)
      in if cause = Some Cause_Throttle
           then s\<lparr>throttle_until := max (throttle_until s) (now + throttle_window_seconds h f)\<rparr>
         else if failure_class f = REFUSAL then s\<lparr>refusal_count := refusal_count s + 1\<rparr>
         else if cause = Some Cause_Credential
           then s\<lparr>consecutive_failures := failure_threshold h, open_until := now + open_seconds h\<rparr>
         else if cause = Some Cause_Transport then
           (let s1 = s\<lparr>consecutive_failures := consecutive_failures s + 1\<rparr>
            in if consecutive_failures s1 \<ge> failure_threshold h
               then s1\<lparr>open_until := now + open_seconds h\<rparr> else s1)
         else s)"

definition failed :: "health_key \<Rightarrow> gateway_failure \<Rightarrow> seconds \<Rightarrow> health_registry \<Rightarrow> health_registry" where
  "failed key f now h =
     put_health key (failed_state h f now (health_of h key))
       (h\<lparr>lanes := lane_failed (ejection_policy h) (lane_of key) f now (lanes h)\<rparr>)"

definition exhausted :: "health_key \<Rightarrow> seconds \<Rightarrow> seconds \<Rightarrow> health_registry \<Rightarrow> health_registry" where
  "exhausted key reset_after now h =
     (let window = min (max reset_after RETRY_AFTER_WINDOW_MINIMUM_SECONDS) PLAN_WINDOW_MAXIMUM_SECONDS;
          s = health_of h key
      in put_health key (s\<lparr>throttle_until := max (throttle_until s) (now + window)\<rparr>) h)"

definition suppressed :: "health_registry \<Rightarrow> health_key \<Rightarrow> seconds \<Rightarrow> bool" where
  "suppressed h key now =
     (case dget (states h) key of None \<Rightarrow> False
      | Some s \<Rightarrow> throttle_until s > now \<or> open_until s > now)"

fun throttled_remaining :: "health_registry \<Rightarrow> seconds \<Rightarrow> health_key list \<Rightarrow> seconds \<Rightarrow> seconds option" where
  "throttled_remaining h now [] acc = Some acc"
| "throttled_remaining h now (key # keys) acc =
     (case dget (states h) key of None \<Rightarrow> None
      | Some s \<Rightarrow> if throttle_until s \<le> now then None
          else throttled_remaining h now keys (max acc (throttle_until s - now)))"

definition throttled_remaining_seconds :: "health_registry \<Rightarrow> health_key list \<Rightarrow> seconds \<Rightarrow> seconds option" where
  "throttled_remaining_seconds h keys now = (if keys = [] then None else throttled_remaining h now keys 0)"

definition release_probe :: "health_key \<Rightarrow> health_registry \<Rightarrow> health_registry" where
  "release_probe key h =
     (let h1 = (case dget (states h) key of None \<Rightarrow> h
                | Some s \<Rightarrow> put_health key (s\<lparr>half_open_probe := False, last_resort_probe := False\<rparr>) h)
      in h1\<lparr>lanes := lane_released (lane_of key) (lanes h)\<rparr>)"

section \<open>The claim interface\<close>

text \<open>A key is throttled while the provider's own backoff window is open.\<close>

definition throttled :: "health_registry \<Rightarrow> health_key \<Rightarrow> seconds \<Rightarrow> bool" where
  "throttled h key now \<longleftrightarrow> throttle_until (health_of h key) > now"

text \<open>
  What a claim walk relies on: a claim never admits a throttled key, never changes which keys are throttled, a
  throttle only ends as time passes, and a forced claim admits every key that is not.
\<close>

locale claiming =
  fixes throttled :: "'r \<Rightarrow> 'k \<Rightarrow> 't :: linorder \<Rightarrow> bool"
    and claim :: "'k \<Rightarrow> 't \<Rightarrow> 'r \<Rightarrow> bool \<times> 'r"
  assumes claim_not_throttled: "claim k now r = (True, r') \<Longrightarrow> \<not> throttled r k now"
    and claim_keeps_throttles: "claim k now r = (b, r') \<Longrightarrow> throttled r' k' now' = throttled r k' now'"
    and throttle_expires: "now \<le> now' \<Longrightarrow> throttled r k now' \<Longrightarrow> throttled r k now"

locale forcing = claiming +
  assumes forced_admits: "\<not> throttled r k now \<Longrightarrow> fst (claim k now r)"
begin

lemma forced_refuses_iff: "claim k now r = (b, r') \<Longrightarrow> b = (\<not> throttled r k now)"
  using claim_not_throttled forced_admits by (metis fst_conv)

end

lemma health_of_put [simp]: "health_of (put_health key s h) k = (if k = key then s else health_of h k)"
  by (simp add: health_of_def put_health_def dget_or_def)

lemma health_of_lanes [simp]: "health_of (h\<lparr>lanes := x\<rparr>) k = health_of h k"
  by (simp add: health_of_def)

lemma health_of_note_claim [simp]: "health_of (note_claim key now h) k = health_of h k"
  by (simp add: note_claim_def)

lemma put_health_fields [simp]:
  "lanes (put_health key s h) = lanes h" "failure_threshold (put_health key s h) = failure_threshold h"
  "ejection_policy (put_health key s h) = ejection_policy h"
  by (simp_all add: put_health_def)

interpretation healthy_claim: claiming throttled claim
  by unfold_locales (auto simp: claim_def throttled_def Let_def split: if_splits)

interpretation last_resort_claim: claiming throttled claim_last_resort
  by unfold_locales (auto simp: claim_last_resort_def throttled_def Let_def split: if_splits)

interpretation forced_claim: forcing throttled claim_forced
  by unfold_locales (auto simp: claim_forced_def throttled_def Let_def split: if_splits)

section \<open>Lemmas\<close>

lemma throttled_remaining_Some:
  "throttled_remaining h now keys acc = Some w \<longleftrightarrow>
   (\<forall>k \<in> set keys. throttle_until (health_of h k) > now \<and> k \<in> dom (dget (states h)))
   \<and> w = fold max (map (\<lambda>k. throttle_until (health_of h k) - now) keys) acc"
  by (induction keys arbitrary: acc)
    (auto simp: health_of_def dget_or_def max.commute split: option.splits if_splits)

text \<open>A key never seen is closed, so from time zero on it is not throttled.\<close>

lemma throttled_seen: "0 \<le> now \<Longrightarrow> throttled h k now \<Longrightarrow> k \<in> dom (dget (states h))"
  by (auto simp: throttled_def health_of_def dget_or_def closed_circuit_def dom_def split: option.splits)

lemma fold_max_Max: "xs \<noteq> [] \<Longrightarrow> list_all (\<lambda>x. acc \<le> x) xs \<Longrightarrow> fold max xs (acc :: real) = Max (set xs)"
proof -
  assume ne: "xs \<noteq> []" and ge: "list_all (\<lambda>x. acc \<le> x) xs"
  have "fold max xs acc = Max (set (acc # xs))" unfolding Max.set_eq_fold by simp
  also have "\<dots> = max acc (Max (set xs))" using ne by simp
  also have "acc \<le> Max (set xs)" using ne ge by (cases xs) (auto simp: Max_ge_iff)
  then have "max acc (Max (set xs)) = Max (set xs)" by simp
  finally show ?thesis .
qed

section \<open>The registry as a component\<close>

datatype health_op =
    Claim health_key seconds
  | Claim_Last_Resort health_key seconds
  | Claim_Forced health_key seconds
  | Claim_Throttle_Redial health_key seconds
  | Dispatch_Opened health_key
  | Succeeded health_key
  | Failed health_key gateway_failure seconds
  | Exhausted health_key seconds seconds
  | Release_Probe health_key

fun op_key :: "health_op \<Rightarrow> health_key" where
  "op_key (Claim k _) = k"
| "op_key (Claim_Last_Resort k _) = k"
| "op_key (Claim_Forced k _) = k"
| "op_key (Claim_Throttle_Redial k _) = k"
| "op_key (Dispatch_Opened k) = k"
| "op_key (Succeeded k) = k"
| "op_key (Failed k _ _) = k"
| "op_key (Exhausted k _ _) = k"
| "op_key (Release_Probe k) = k"

fun health_step :: "health_op \<Rightarrow> health_registry \<Rightarrow> health_registry" where
  "health_step (Claim k now) h = snd (claim k now h)"
| "health_step (Claim_Last_Resort k now) h = snd (claim_last_resort k now h)"
| "health_step (Claim_Forced k now) h = snd (claim_forced k now h)"
| "health_step (Claim_Throttle_Redial k now) h = snd (claim_throttle_redial k now h)"
| "health_step (Dispatch_Opened k) h = dispatch_opened k h"
| "health_step (Succeeded k) h = succeeded k h"
| "health_step (Failed k f now) h = failed k f now h"
| "health_step (Exhausted k reset now) h = exhausted k reset now h"
| "health_step (Release_Probe k) h = release_probe k h"

definition lane_bounded :: "lane_ejection_policy \<Rightarrow> lane_state \<Rightarrow> bool" where
  "lane_bounded p s \<longleftrightarrow> int (length (ls_failures s)) \<le> ej_failures p
     \<and> int (length (ls_header_timeouts s)) \<le> ej_header_timeouts p"

definition lanes_bounded :: "lane_ejection_policy \<Rightarrow> lanes \<Rightarrow> bool" where
  "lanes_bounded p ls \<longleftrightarrow> (\<forall>l s. dget ls l = Some s \<longrightarrow> lane_bounded p s)"

definition circuit_ok :: "int \<Rightarrow> deployment_health \<Rightarrow> bool" where
  "circuit_ok threshold s \<longleftrightarrow> 0 \<le> consecutive_failures s
     \<and> (half_open_probe s \<longrightarrow> threshold \<le> consecutive_failures s)"

definition health_inv :: "health_registry \<Rightarrow> bool" where
  "health_inv h \<longleftrightarrow> 1 \<le> failure_threshold h \<and> ejection_post_init (ejection_policy h) = Inr (ejection_policy h)
     \<and> (\<forall>k. circuit_ok (failure_threshold h) (health_of h k))
     \<and> lanes_bounded (ejection_policy h) (lanes h)"

lemma streak_push_length: "int (length (streak_push xs n t)) \<le> max 0 n"
  by (simp add: streak_push_def Let_def)

lemma count_failure_bounded:
  "0 < ej_failures p \<Longrightarrow> 0 \<le> ej_header_timeouts p \<Longrightarrow> lane_bounded p s \<Longrightarrow> lane_bounded p (count_failure p f now s)"
  using streak_push_length [of "ls_failures s" "ej_failures p" now]
    streak_push_length [of "ls_header_timeouts s" "ej_header_timeouts p" now]
  by (auto simp: lane_bounded_def count_failure_def Let_def)

lemma lane_bounded_ops:
  assumes "lanes_bounded p ls" and ok: "ejection_post_init p = Inr p"
  shows "dget (lane_claimed p lane now ls) l = Some s \<Longrightarrow> lane_bounded p s"
    and "dget (lane_released lane ls) l = Some s \<Longrightarrow> lane_bounded p s"
    and "dget (lane_succeeded lane ls) l = Some s \<Longrightarrow> lane_bounded p s"
    and "dget (lane_failed p lane f now ls) l = Some s \<Longrightarrow> lane_bounded p s"
proof -
  have all: "dget ls l = Some s \<Longrightarrow> lane_bounded p s" for l s using assms(1) unfolding lanes_bounded_def by blast
  note q = policy_pos(4,5) [OF ok]
  have keep: "lane_bounded p (s\<lparr>probe_started := x\<rparr>)" if "lane_bounded p s" for s x
    using that by (simp add: lane_bounded_def)
  have own: "lane_bounded p (dget_or fresh_lane ls lane)"
    using all [of lane] q by (cases "dget ls lane") (simp_all add: dget_or_def fresh_lane_def lane_bounded_def)
  show "dget (lane_claimed p lane now ls) l = Some s \<Longrightarrow> lane_bounded p s"
    using all [of l] all [of lane] keep by (auto simp: lane_claimed_def split: option.splits if_splits)
  show released: "dget (lane_released lane ls) l = Some s \<Longrightarrow> lane_bounded p s"
    using all [of l] all [of lane] keep by (auto simp: lane_released_def split: option.splits if_splits)
  show "dget (lane_succeeded lane ls) l = Some s \<Longrightarrow> lane_bounded p s"
    using all [of l] by (auto simp: lane_succeeded_def split: if_splits)
  show "dget (lane_failed p lane f now ls) l = Some s \<Longrightarrow> lane_bounded p s"
    using all [of l] released q own count_failure_bounded [of p "dget_or fresh_lane ls lane" f now]
    by (auto simp: lane_failed_def split: if_splits)
qed

lemmas health_op_defs = claim_def claim_last_resort_def claim_forced_def claim_throttle_redial_def succeeded_def
  dispatch_opened_def failed_def exhausted_def release_probe_def note_claim_def Let_def

lemma health_step_fixed:
  "failure_threshold (health_step op h) = failure_threshold h"
  "ejection_policy (health_step op h) = ejection_policy h"
  by (cases op; simp add: health_op_defs split: option.splits)+

fun op_lanes :: "lane_ejection_policy \<Rightarrow> health_op \<Rightarrow> lanes \<Rightarrow> lanes" where
  "op_lanes p (Failed k f now) ls = lane_failed p (lane_of k) f now ls"
| "op_lanes p (Dispatch_Opened k) ls = lane_succeeded (lane_of k) ls"
| "op_lanes p (Succeeded k) ls = lane_succeeded (lane_of k) ls"
| "op_lanes p (Release_Probe k) ls = lane_released (lane_of k) ls"
| "op_lanes p (Claim k now) ls = lane_claimed p (lane_of k) now ls"
| "op_lanes p (Claim_Last_Resort k now) ls = lane_claimed p (lane_of k) now ls"
| "op_lanes p (Claim_Forced k now) ls = lane_claimed p (lane_of k) now ls"
| "op_lanes p _ ls = ls"

text \<open>The lanes after an operation: its lane step, or unchanged where a claim was refused.\<close>

lemma health_step_lanes:
  "lanes (health_step op h) = lanes h \<or> lanes (health_step op h) = op_lanes (ejection_policy h) op (lanes h)"
  by (cases op) (simp_all add: health_op_defs split: option.splits)

text \<open>An operation changes the circuit of its own key only.\<close>

lemma health_step_other: "k \<noteq> op_key op \<Longrightarrow> health_of (health_step op h) k = health_of h k"
  by (cases op) (auto simp: claim_def claim_last_resort_def claim_forced_def claim_throttle_redial_def succeeded_def
      dispatch_opened_def failed_def exhausted_def release_probe_def note_claim_def Let_def split: option.splits)

lemma release_probe_health:
  "health_of (release_probe k h) j =
     (if j = k then (health_of h k)\<lparr>half_open_probe := False, last_resort_probe := False\<rparr> else health_of h j)"
  by (auto simp: release_probe_def health_of_def dget_or_def Let_def put_health_def closed_circuit_def
      split: option.splits)

lemma failed_state_ok:
  "1 \<le> failure_threshold h \<Longrightarrow> circuit_ok (failure_threshold h) s
    \<Longrightarrow> circuit_ok (failure_threshold h) (failed_state h f now s)"
  by (simp add: circuit_ok_def failed_state_def Let_def)

lemma health_step_own:
  assumes "1 \<le> failure_threshold h" and "circuit_ok (failure_threshold h) (health_of h (op_key op))"
  shows "circuit_ok (failure_threshold h) (health_of (health_step op h) (op_key op))"
proof (cases op)
  case (Failed k f now)
  then show ?thesis using assms failed_state_ok by (simp add: failed_def)
next
  case (Release_Probe k)
  then show ?thesis using assms by (simp add: release_probe_health circuit_ok_def)
qed (use assms in \<open>simp_all add: health_op_defs circuit_ok_def\<close>)

lemma op_lanes_bounded:
  assumes "lanes_bounded p ls" and "ejection_post_init p = Inr p"
  shows "lanes_bounded p (op_lanes p op ls)"
proof -
  note ops = lane_bounded_ops [OF assms]
  show ?thesis unfolding lanes_bounded_def
    by (cases op; simp only: op_lanes.simps) (use ops assms(1) [unfolded lanes_bounded_def] in blast)+
qed

lemma health_step_inv:
  assumes "health_inv h"
  shows "health_inv (health_step op h)"
proof -
  let ?p = "ejection_policy h"
  note i = assms [unfolded health_inv_def]
  have "lanes_bounded ?p (lanes (health_step op h))"
    using health_step_lanes [of op h] op_lanes_bounded [of ?p "lanes h" op] i by metis
  moreover have "circuit_ok (failure_threshold h) (health_of (health_step op h) k)" for k
    using i health_step_other [of k op h] health_step_own [of h op] by (cases "k = op_key op") metis+
  ultimately show ?thesis using i by (simp add: health_inv_def health_step_fixed)
qed

lemma new_health_inv:
  "new_health_registry threshold opens throttles policy = Inr h \<Longrightarrow> ejection_post_init policy = Inr policy
    \<Longrightarrow> health_inv h"
  by (auto simp: new_health_registry_def health_inv_def health_of_def dget_or_def closed_circuit_def circuit_ok_def
      lanes_bounded_def split: if_splits)

text \<open>Every registry the constructor accepts is a component, the one with the default arguments among them.\<close>

lemma health_component:
  assumes "new_health_registry threshold opens throttles policy = Inr h" and "ejection_post_init policy = Inr policy"
  shows "component health_step (\<lambda>_. True) h health_inv"
  by unfold_locales (use assms new_health_inv health_step_inv in blast)+

definition default_health_registry :: health_registry where
  "default_health_registry = \<lparr>failure_threshold = 2, open_seconds = 30, throttle_seconds = 30,
     ejection_policy = default_ejection_policy, states = [], lanes = []\<rparr>"

interpretation default_health: component health_step "\<lambda>_. True" default_health_registry health_inv
  by (rule health_component [of 2 30 30 default_ejection_policy])
    (simp_all add: new_health_registry_def default_health_registry_def ejection_post_init_def
      default_ejection_policy_def)

section \<open>Properties\<close>

lemma reachable_health:
  assumes "new_health_registry threshold opens throttles policy = Inr start"
    and "ejection_post_init policy = Inr policy"
    and "reachable health_step (\<lambda>_. True) start h"
  shows "0 \<le> consecutive_failures (health_of h k)"
    and "half_open_probe (health_of h k) \<longrightarrow> threshold \<le> consecutive_failures (health_of h k)"
    and "dget (lanes h) l = Some s \<longrightarrow> int (length (ls_failures s)) \<le> ej_failures policy
           \<and> int (length (ls_header_timeouts s)) \<le> ej_header_timeouts policy"
proof -
  have inv: "health_inv h" using component.reachable_inv [OF health_component [OF assms(1,2)] assms(3)] .
  have "failure_threshold h = threshold \<and> ejection_policy h = policy" using assms(3)
  proof (induction rule: reachable.induct)
    case start
    then show ?case using assms(1) by (auto simp: new_health_registry_def split: if_splits)
  next
    case (step s op)
    then show ?case by (simp add: health_step_fixed)
  qed
  then have t: "failure_threshold h = threshold" "ejection_policy h = policy" by simp_all
  have c: "circuit_ok threshold (health_of h k)" using inv t unfolding health_inv_def by blast
  then show "0 \<le> consecutive_failures (health_of h k)"
    "half_open_probe (health_of h k) \<longrightarrow> threshold \<le> consecutive_failures (health_of h k)"
    by (simp_all add: circuit_ok_def)
  show "dget (lanes h) l = Some s \<longrightarrow> int (length (ls_failures s)) \<le> ej_failures policy
           \<and> int (length (ls_header_timeouts s)) \<le> ej_header_timeouts policy"
    using inv t unfolding health_inv_def lanes_bounded_def lane_bounded_def by blast
qed

text \<open>
  A registry the constructor accepts, after any sequence of operations: every failure count is non-negative, a
  half-open probe is outstanding only on a circuit that has reached the failure threshold, and no lane's failure
  streak grows past the count that ejects it.
\<close>

lemma health_invariant_reachable:
  assumes "new_health_registry threshold opens throttles policy = Inr start"
    and "ejection_post_init policy = Inr policy"
    and "reachable health_step (\<lambda>_. True) start h"
  shows "(0 \<le> consecutive_failures (health_of h k))
    \<and> (half_open_probe (health_of h k) \<longrightarrow> threshold \<le> consecutive_failures (health_of h k))
    \<and> (dget (lanes h) l = Some s \<longrightarrow> int (length (ls_failures s)) \<le> ej_failures policy
           \<and> int (length (ls_header_timeouts s)) \<le> ej_header_timeouts policy)"
  using reachable_health [OF assms] by blast

definition sample_key :: health_key where "sample_key = (''cat'', ''dep'', ''conn'')"

definition sample_health_ops :: "health_op list" where
  "sample_health_ops = [Failed sample_key (sample_failure TRANSPORT) 1, Failed sample_key (sample_failure TRANSPORT) 2, Claim sample_key 40]"

lemma failed_fold_circuit:
  assumes "health_failure_cause (failure_class f) = Some Cause_Transport" and "failure_class f \<noteq> REFUSAL"
    and "0 \<le> consecutive_failures (health_of h k)"
  shows "consecutive_failures (health_of (fold (failed k f) ts h) k)
      = consecutive_failures (health_of h k) + int (length ts)
    \<and> throttle_until (health_of (fold (failed k f) ts h) k) = throttle_until (health_of h k)
    \<and> failure_threshold (fold (failed k f) ts h) = failure_threshold h
    \<and> open_seconds (fold (failed k f) ts h) = open_seconds h
    \<and> (ts \<noteq> [] \<longrightarrow> \<not> half_open_probe (health_of (fold (failed k f) ts h) k))
    \<and> (ts \<noteq> [] \<longrightarrow> failure_threshold h \<le> int (length ts)
        \<longrightarrow> open_until (health_of (fold (failed k f) ts h) k) = last ts + open_seconds h)"
  using assms(3)
proof (induction ts rule: rev_induct)
  case (snoc t ts)
  then show ?case using assms(1,2)
    by (auto simp: failed_def failed_state_def Let_def put_health_def [of k _ "_\<lparr>lanes := _\<rparr>"] health_of_def
        dget_or_def)
qed simp

lemma circuit_cycle:
  assumes "health_failure_cause (failure_class f) = Some Cause_Transport"
    and "0 \<le> consecutive_failures (health_of h k)" and "1 \<le> failure_threshold h"
    and "failure_threshold h \<le> int (length ts)"
    and opened: "h1 = fold (failed k f) ts h"
    and "now \<ge> last ts + open_seconds h" and "throttle_until (health_of h k) \<le> now"
    and probed: "claim k now h1 = (b, h2)" and nonneg: "0 \<le> now"
  shows "early < last ts + open_seconds h \<longrightarrow> \<not> fst (claim k early h1)"
    and "b"
    and "\<not> fst (claim k later h2)"
    and "now \<le> later \<longrightarrow> fst (claim k later (succeeded k h2))"
    and "later < t + open_seconds h \<longrightarrow> \<not> fst (claim k later (failed k f t h2))"
proof -
  have nr: "failure_class f \<noteq> REFUSAL" using assms(1) by (auto simp: health_failure_cause_def HARD_FAILURES_def
      OPERATIONAL_FAILURES_def)
  have ne: "ts \<noteq> []" using assms(3,4) by auto
  note c = failed_fold_circuit [OF assms(1) nr assms(2), of ts, folded opened]
  have h2: "b" "h2 = note_claim k now (put_health k ((health_of h1 k)\<lparr>half_open_probe := True\<rparr>) h1)"
    using probed c ne assms(2,4,6,7) by (auto simp: claim_def Let_def split: if_splits)
  have f: "failure_threshold (note_claim k now x) = failure_threshold x" for x by (simp add: note_claim_def)
  have o: "open_seconds h2 = open_seconds h" using c h2(2) by (simp add: note_claim_def put_health_def)
  show "b" by fact
  show "early < last ts + open_seconds h \<longrightarrow> \<not> fst (claim k early h1)"
    using c ne assms(4) by (simp add: claim_def Let_def)
  show "\<not> fst (claim k later h2)"
    using c ne assms(2,4) h2(2) f by (simp add: claim_def Let_def)
  show "now \<le> later \<longrightarrow> fst (claim k later (succeeded k h2))"
    using c ne assms(3,7) h2(2) f nonneg by (simp add: claim_def succeeded_def Let_def)
  show "later < t + open_seconds h \<longrightarrow> \<not> fst (claim k later (failed k f t h2))"
    using c ne assms(1,2,4) nr h2(2) f o by (simp add: claim_def failed_def failed_state_def Let_def)
qed

text \<open>
  C35. The circuit of a deployment that keeps failing operationally. After at least \<open>failure_threshold\<close> failures it
  refuses every claim for \<open>open_seconds\<close> from the last one; once the cooldown is over (and no throttle window is
  open) exactly one claim gets through as the half-open probe; the probe's success re-admits everyone, its failure
  refuses everyone for another cooldown.
\<close>

theorem circuit_half_open_cycle:
  assumes "health_failure_cause (failure_class f) = Some Cause_Transport"
    and "0 \<le> consecutive_failures (health_of h k)" and "1 \<le> failure_threshold h"
    and "failure_threshold h \<le> int (length ts)"
    and opened: "h1 = fold (failed k f) ts h"
    and "now \<ge> last ts + open_seconds h" and "throttle_until (health_of h k) \<le> now"
    and probed: "claim k now h1 = (b, h2)" and nonneg: "0 \<le> now"
  shows "(early < last ts + open_seconds h \<longrightarrow> \<not> fst (claim k early h1))
    \<and> (b)
    \<and> (\<not> fst (claim k later h2))
    \<and> (now \<le> later \<longrightarrow> fst (claim k later (succeeded k h2)))
    \<and> (later < t + open_seconds h \<longrightarrow> \<not> fst (claim k later (failed k f t h2)))"
  using circuit_cycle [OF assms] by blast

theorem circuit_half_open_cycle_witness:
  "let h1 = fold (failed sample_key (sample_failure TRANSPORT)) [1, 2] default_health_registry;
       h2 = snd (claim sample_key 32 h1)
   in fst (claim sample_key 32 h1) \<and> \<not> fst (claim sample_key 31 h1) \<and> \<not> fst (claim sample_key 33 h2)
      \<and> fst (claim sample_key 33 (succeeded sample_key h2))
      \<and> \<not> fst (claim sample_key 62 (failed sample_key (sample_failure TRANSPORT) 33 h2))"
proof -
  let ?h1 = "fold (failed sample_key (sample_failure TRANSPORT)) [1, 2] default_health_registry"
  have pre: "health_failure_cause (failure_class (sample_failure TRANSPORT)) = Some Cause_Transport"
    "0 \<le> consecutive_failures (health_of default_health_registry sample_key)"
    "1 \<le> failure_threshold default_health_registry"
    "failure_threshold default_health_registry \<le> int (length [1 :: seconds, 2])"
    "(32 :: seconds) \<ge> last [1, 2] + open_seconds default_health_registry"
    "throttle_until (health_of default_health_registry sample_key) \<le> 32"
    by code_simp+
  note c = circuit_half_open_cycle [OF pre(1-4) refl pre(5,6) prod.collapse [symmetric], simplified]
  show ?thesis unfolding Let_def
    using c [of 31 33 30] c [of 31 62 33] by (simp add: default_health_registry_def)
qed

text \<open>
  A provider's backoff is never shortened: whatever operations follow, a deployment's throttle window ends no
  earlier than it did, and only an operation on that very deployment changes its circuit at all.
\<close>

lemma throttle_window_never_shortens:
  "throttle_until (health_of h k) \<le> throttle_until (health_of (fold health_step ops h) k)
   \<and> (k \<notin> op_key ` set ops \<longrightarrow> health_of (fold health_step ops h) k = health_of h k)"
proof (induction ops arbitrary: h)
  case (Cons op ops)
  have "throttle_until (health_of h k) \<le> throttle_until (health_of (health_step op h) k)"
  proof (cases "k = op_key op")
    case True
    then show ?thesis
      by (cases op) (simp_all add: health_op_defs failed_state_def health_of_def dget_or_def put_health_def
          split: option.splits)
  qed (simp add: health_step_other)
  with Cons [of "health_step op h"] health_step_other [of k op h] show ?case by auto
qed simp

text \<open>
  \<open>throttled_remaining_seconds\<close> answers exactly when the route has a deployment and every one is inside its
  throttle window, and then with the longest remaining window.
\<close>

lemma throttled_remaining_seconds_exact:
  assumes "0 \<le> now"
  shows "throttled_remaining_seconds h keys now =
    (if keys \<noteq> [] \<and> list_all (\<lambda>k. throttled h k now) keys
     then Some (Max (set (map (\<lambda>k. throttle_until (health_of h k) - now) keys))) else None)"
proof (cases "keys \<noteq> [] \<and> list_all (\<lambda>k. throttled h k now) keys")
  case True
  let ?ws = "map (\<lambda>k. throttle_until (health_of h k) - now) keys"
  have "fold max ?ws 0 = Max (set ?ws)"
    using True by (intro fold_max_Max) (auto simp: throttled_def list_all_iff)
  moreover have "throttled_remaining h now keys 0 = Some (fold max ?ws 0)"
    using True throttled_seen [OF assms, of h] by (auto simp: throttled_remaining_Some list_all_iff throttled_def)
  ultimately show ?thesis using True by (simp add: throttled_remaining_seconds_def)
next
  case False
  have "throttled_remaining h now keys 0 = None" if "keys \<noteq> []"
  proof (rule ccontr)
    assume "throttled_remaining h now keys 0 \<noteq> None"
    then obtain w where "throttled_remaining h now keys 0 = Some w" by blast
    then have "\<forall>k \<in> set keys. throttle_until (health_of h k) > now" unfolding throttled_remaining_Some by blast
    then show False using False that by (simp add: throttled_def list_all_iff)
  qed
  then show ?thesis using False by (auto simp: throttled_remaining_seconds_def)
qed

end
