(* ===== verification/Waterfall.thy ===== *)
theory Waterfall
  imports Health
begin

text \<open>
  The certified waterfall: which route depth a dispatch may claim, and which one a failed dispatch moves to
  (\<^verbatim>\<open>native_execution.py\<close>, \<^verbatim>\<open>native_fallback_rules.py\<close>, \<^verbatim>\<open>execution_snapshot.py\<close> under
  \<^verbatim>\<open>src/exp/runtime/gateway/\<close>, and \<^verbatim>\<open>src/exp/common/models/failover_tokens.py\<close>). A route depth is a
  \<^typ>\<open>nat\<close> index into the route's deployments and the tuples aligned with them; \<open>clock n\<close> is the \<open>n\<close>-th reading of
  the monotonic clock, and every registry call of a walk takes the next one.
\<close>

section \<open>Failover-only rungs\<close>

definition REFUSAL_TOKEN :: string where "REFUSAL_TOKEN = ''refusal''"
definition REFUSAL_TOKEN_PREFIX :: string where "REFUSAL_TOKEN_PREFIX = ''refusal:''"
definition FALLBACK_REASON_PREFIX :: string where "FALLBACK_REASON_PREFIX = ''failover_only_on:''"

definition failover_tokens :: "string list" where
  "failover_tokens =
     [''throttled'', ''timeout'', ''transport'', ''provider_internal'', ''provider_quota'', ''provider_authentication'',
      ''provider_not_found'', ''unavailable'', ''empty_completion'', ''malformed_response'', ''guardrail'', ''refusal'',
      ''refusal:cyber_policy'', ''refusal:cbrn'', ''refusal:content_policy'', ''refusal:recitation'',
      ''refusal:data_inspection'', ''refusal:unspecified'']"

fun refusal_reason_value :: "gateway_refusal_reason \<Rightarrow> string" where
  "refusal_reason_value CYBER_POLICY = ''cyber_policy''"
| "refusal_reason_value CBRN = ''cbrn''"
| "refusal_reason_value CONTENT_POLICY = ''content_policy''"
| "refusal_reason_value RECITATION = ''recitation''"
| "refusal_reason_value DATA_INSPECTION = ''data_inspection''"
| "refusal_reason_value UNSPECIFIED = ''unspecified''"

type_synonym rung_token_set = "string list option"
type_synonym fallback_rules = "rung_token_set list"

definition rung_rules :: "exact_model_deployment \<Rightarrow> rung_token_set" where
  "rung_rules d = failover_only_on d"

definition failure_token :: "gateway_failure \<Rightarrow> string" where
  "failure_token f =
     (if failure_class f = REFUSAL
      then REFUSAL_TOKEN_PREFIX
             @ refusal_reason_value (case refusal_reason f of None \<Rightarrow> UNSPECIFIED | Some r \<Rightarrow> r)
      else failure_class_value (failure_class f))"

definition matched_token :: "rung_token_set \<Rightarrow> gateway_failure option \<Rightarrow> string option" where
  "matched_token rules failure =
     (case (rules, failure) of
        (Some tokens, Some f) \<Rightarrow>
          (let token = failure_token f
           in if token \<in> set tokens then Some token
              else if failure_class f = REFUSAL \<and> REFUSAL_TOKEN \<in> set tokens then Some token
              else None)
      | _ \<Rightarrow> None)"

definition rung_eligible :: "rung_token_set \<Rightarrow> gateway_failure option \<Rightarrow> bool \<Rightarrow> bool" where
  "rung_eligible rules failure unrestricted \<longleftrightarrow>
     (rules = None \<and> unrestricted) \<or> matched_token rules failure \<noteq> None"

definition eligible_depths :: "fallback_rules \<Rightarrow> nat \<Rightarrow> gateway_failure option \<Rightarrow> bool \<Rightarrow> nat list" where
  "eligible_depths rules start failure unrestricted =
     filter (\<lambda>depth. rung_eligible (rules ! depth) failure unrestricted) [start..<length rules]"

definition untried_depths ::
    "fallback_rules \<Rightarrow> gateway_failure option \<Rightarrow> int list \<Rightarrow> nat \<Rightarrow> bool \<Rightarrow> nat list" where
  "untried_depths rules failure dispatched current_depth unrestricted =
     filter (\<lambda>depth. depth \<noteq> current_depth \<and> (depth \<ge> length dispatched \<or> dispatched ! depth = 0))
       (eligible_depths rules 0 failure unrestricted)"

definition has_unrestricted_rung :: "fallback_rules \<Rightarrow> bool" where
  "has_unrestricted_rung rules \<longleftrightarrow> list_ex (\<lambda>r. r = None) rules"

section \<open>Routes\<close>

record model_execution_stage =
  stage_index :: int
  stage_exact_model_id :: string
  stage_pool_id :: string
  stage_deployment_ids :: "string list"
  stage_failover_mode :: failover_mode
  stage_throttle_cache_threshold :: "real option"
  stage_throttle_redial :: "gateway_throttle_redial_policy option"

record execution_snapshot =
  snapshot_authorization :: authorization_snapshot
  snapshot_exact_model_id :: string
  snapshot_pool_id :: string
  snapshot_deployment_ids :: "string list"
  snapshot_failover_mode :: failover_mode
  snapshot_throttle_cache_threshold :: "real option"
  snapshot_throttle_redial :: "gateway_throttle_redial_policy option"
  model_stages :: "model_execution_stage list"

definition require_stage_projection :: "execution_snapshot \<Rightarrow> py_error + execution_snapshot" where
  "require_stage_projection s =
     (if model_stages s \<noteq> [] \<and> concat (map stage_deployment_ids (model_stages s)) \<noteq> snapshot_deployment_ids s
        then Inl (ValueError ''execution stages must exactly cover ordered deployment_ids'') else Inr s)"

fun stage_walk :: "model_execution_stage list \<Rightarrow> nat \<Rightarrow> nat \<Rightarrow> py_error + model_execution_stage" where
  "stage_walk [] cursor depth = Inl (ValueError ''execution stage projection is incomplete'')"
| "stage_walk (stage # stages) cursor depth =
     (let cursor = cursor + length (stage_deployment_ids stage)
      in if depth < cursor then Inr stage else stage_walk stages cursor depth)"

text \<open>Depths are positions of the route, natural numbers here: the source also turns away a negative one.\<close>

definition stage_for_depth :: "execution_snapshot \<Rightarrow> nat \<Rightarrow> py_error + model_execution_stage" where
  "stage_for_depth s depth =
     (if \<not> depth < length (snapshot_deployment_ids s)
        then Inl (ValueError ''execution route depth is outside the authorized plan'')
      else if model_stages s = [] then
        Inr \<lparr>stage_index = 0, stage_exact_model_id = snapshot_exact_model_id s, stage_pool_id = snapshot_pool_id s,
             stage_deployment_ids = snapshot_deployment_ids s, stage_failover_mode = snapshot_failover_mode s,
             stage_throttle_cache_threshold = snapshot_throttle_cache_threshold s,
             stage_throttle_redial = snapshot_throttle_redial s\<rparr>
      else stage_walk (model_stages s) 0 depth)"

record gateway_route =
  snapshot :: execution_snapshot
  deployment :: exact_model_deployment
  fallback_deployments :: "exact_model_deployment list"
  route_reason :: string
  fallback_reason :: "string option"
  resolved_route_id :: "string option"
  reasoning_pinned_deployment_id :: "string option"
  cache_placed_deployment_id :: "string option"

definition deployments :: "gateway_route \<Rightarrow> exact_model_deployment list" where
  "deployments route = deployment route # fallback_deployments route"

definition requires_reasoning_strip :: "gateway_route \<Rightarrow> exact_model_deployment \<Rightarrow> bool" where
  "requires_reasoning_strip route d =
     (case reasoning_pinned_deployment_id route of None \<Rightarrow> False | Some pinned \<Rightarrow> deployment_id d \<noteq> pinned)"

definition REASONING_CONTINUATION_FAILOVER_ROUTE_REASON :: string where
  "REASONING_CONTINUATION_FAILOVER_ROUTE_REASON = ''reasoning_continuation_failover''"

definition attempt_route_reason :: "gateway_route \<Rightarrow> exact_model_deployment \<Rightarrow> string" where
  "attempt_route_reason route d =
     (if requires_reasoning_strip route d then REASONING_CONTINUATION_FAILOVER_ROUTE_REASON else route_reason route)"

definition route_fallback_rules :: "gateway_route \<Rightarrow> fallback_rules" where
  "route_fallback_rules route = map rung_rules (deployments route)"

definition eligible_ladder :: "gateway_route \<Rightarrow> gateway_failure option \<Rightarrow> nat list" where
  "eligible_ladder route failure = eligible_depths (route_fallback_rules route) 0 failure True"

definition require_unrestricted_rung :: "gateway_route \<Rightarrow> py_error + unit" where
  "require_unrestricted_rung route =
     (if has_unrestricted_rung (route_fallback_rules route) then Inr ()
      else Inl (RuntimeError ''every admitted deployment carries failover_only_on; at least one rung must be unrestricted to take the first dial''))"

text \<open>\<open>current_depth\<close> is \<open>None\<close> where the data plane sent no depth.\<close>

definition rule_fallback_reason ::
    "gateway_route \<Rightarrow> nat \<Rightarrow> nat option \<Rightarrow> gateway_failure option \<Rightarrow> string option" where
  "rule_fallback_reason route candidate current_depth failure =
     (if current_depth = None \<or> current_depth = Some candidate then fallback_reason route
      else case matched_token (rung_rules (deployments route ! candidate)) failure of
             None \<Rightarrow> fallback_reason route
           | Some token \<Rightarrow> Some (FALLBACK_REASON_PREFIX @ token))"

definition deployment_health_key :: "string \<Rightarrow> exact_model_deployment \<Rightarrow> health_key" where
  "deployment_health_key catalog_sha256 d = (catalog_sha256, deployment_id d, connection_sha256 d)"

definition rung_load_key :: "exact_model_deployment \<Rightarrow> lane_key" where
  "rung_load_key d = (deployment_id d, connection_sha256 d)"

section \<open>Claiming a depth\<close>

text \<open>
  One pass of a claim method over the candidates, stopping at the first admission. The counter is the next clock
  reading to take.
\<close>

fun claim_pass ::
    "('k \<Rightarrow> 't \<Rightarrow> 'r \<Rightarrow> bool \<times> 'r) \<Rightarrow> (nat \<Rightarrow> 't) \<Rightarrow> (nat \<Rightarrow> 'k) \<Rightarrow> nat list \<Rightarrow> nat \<Rightarrow> 'r \<Rightarrow> nat option \<times> nat \<times> 'r"
where
  "claim_pass attempt clock key [] n r = (None, n, r)"
| "claim_pass attempt clock key (i # cands) n r =
     (case attempt (key i) (clock n) r of
        (True, r') \<Rightarrow> (Some i, Suc n, r')
      | (False, r') \<Rightarrow> claim_pass attempt clock key cands (Suc n) r')"

definition claim_candidates :: "health_key list \<Rightarrow> nat \<Rightarrow> nat list option \<Rightarrow> nat list" where
  "claim_candidates keys start depths =
     filter (\<lambda>i. i \<ge> start) (case depths of None \<Rightarrow> [0..<length keys] | Some ds \<Rightarrow> ds)"

definition claim_route_from ::
    "(nat \<Rightarrow> seconds) \<Rightarrow> health_key list \<Rightarrow> nat \<Rightarrow> nat list option \<Rightarrow> nat \<Rightarrow> health_registry
      \<Rightarrow> nat option \<times> nat \<times> health_registry" where
  "claim_route_from clock keys start depths n h =
     (let cands = order h keys (claim_candidates keys start depths) (clock n)
      in case claim_pass claim clock (key_at keys) cands (Suc n) h of
           (Some i, s) \<Rightarrow> (Some i, s)
         | (None, n1, h1) \<Rightarrow>
             (case claim_pass claim_last_resort clock (key_at keys) cands n1 h1 of
                (Some i, s) \<Rightarrow> (Some i, s)
              | (None, n2, h2) \<Rightarrow> claim_pass claim_forced clock (key_at keys) cands n2 h2))"

section \<open>The successor of a failed dispatch\<close>

definition MAXIMUM_TOTAL_ATTEMPTS :: int where "MAXIMUM_TOTAL_ATTEMPTS = 8"
definition MAXIMUM_SAME_DEPLOYMENT_ATTEMPTS :: int where "MAXIMUM_SAME_DEPLOYMENT_ATTEMPTS = 2"

definition CACHE_PRESERVING_NO_FAILOVER_CLASSES :: "gateway_failure_class list" where
  "CACHE_PRESERVING_NO_FAILOVER_CLASSES = [THROTTLED]"

datatype throttle_disposition_code =
    THROTTLE_SURFACED_CACHE_PRESERVING | THROTTLE_FAILOVER_COLD | THROTTLE_BACKOFF

definition throttle_disposition ::
    "gateway_failure \<Rightarrow> real option \<Rightarrow> real \<Rightarrow> throttle_disposition_code option" where
  "throttle_disposition f threshold cached_fraction =
     (case threshold of
        None \<Rightarrow> None
      | Some t \<Rightarrow>
          if failure_class f \<notin> set CACHE_PRESERVING_NO_FAILOVER_CLASSES then None
          else if cached_fraction \<ge> t then Some THROTTLE_SURFACED_CACHE_PRESERVING
          else Some THROTTLE_FAILOVER_COLD)"

record successor_args =
  nr_failure :: gateway_failure
  nr_current_depth :: nat
  nr_attempt_counts :: "int list"
  nr_total_attempts :: int
  nr_refusal_failover :: bool
  nr_failover_mode :: failover_mode
  nr_throttle_cache_threshold :: "real option"
  nr_cached_fraction :: real
  nr_throttle_redial :: "gateway_throttle_redial_policy option"
  nr_throttle_backoff :: bool
  nr_throttle_redial_budget :: int
  nr_maximum_total_attempts :: int
  nr_maximum_same_deployment_attempts :: int
  nr_fallback_rules :: fallback_rules
  nr_physical_route_cap :: "int option"
  nr_physical_attempt_counts :: "int list option"

text \<open>\<open>physical_attempt_counts or attempt_counts\<close>.\<close>

definition physical_counts :: "successor_args \<Rightarrow> int list" where
  "physical_counts a =
     (case nr_physical_attempt_counts a of
        None \<Rightarrow> nr_attempt_counts a | Some [] \<Rightarrow> nr_attempt_counts a | Some cs \<Rightarrow> cs)"

definition same_permitted :: "successor_args \<Rightarrow> bool" where
  "same_permitted a =
     (case nr_physical_route_cap a of
        None \<Rightarrow> True | Some cap \<Rightarrow> physical_counts a ! nr_current_depth a < cap)"

definition nr_throttled :: "successor_args \<Rightarrow> bool" where
  "nr_throttled a \<longleftrightarrow> failure_class (nr_failure a) \<in> set CACHE_PRESERVING_NO_FAILOVER_CLASSES"

definition refusal_eligible :: "successor_args \<Rightarrow> bool" where
  "refusal_eligible a \<longleftrightarrow> failure_class (nr_failure a) = REFUSAL \<and> nr_refusal_failover a"

definition successor_depths :: "health_key list \<Rightarrow> successor_args \<Rightarrow> nat list" where
  "successor_depths keys a =
     untried_depths
       (if nr_fallback_rules a = [] then replicate (length keys) None else nr_fallback_rules a)
       (Some (nr_failure a)) (physical_counts a) (nr_current_depth a)
       (failover_eligible (nr_failure a) \<or> refusal_eligible a)"

text \<open>A throttle that ends the ladder, where no redial schedule is authored.\<close>

definition throttle_surfaces :: "successor_args \<Rightarrow> bool" where
  "throttle_surfaces a =
     (let d = throttle_disposition (nr_failure a) (nr_throttle_cache_threshold a) (nr_cached_fraction a)
      in d = Some THROTTLE_SURFACED_CACHE_PRESERVING
         \<or> (d = None \<and> nr_failover_mode a = Maximize_Cache \<and> nr_throttled a))"

definition advance_route ::
    "(nat \<Rightarrow> seconds) \<Rightarrow> health_key list \<Rightarrow> successor_args \<Rightarrow> nat \<Rightarrow> health_registry
      \<Rightarrow> nat option \<times> nat \<times> health_registry" where
  "advance_route clock keys a n h =
     (let depths = successor_depths keys a
      in if depths = [] then (None, n, h) else claim_route_from clock keys 0 (Some depths) n h)"

definition throttle_step ::
    "(nat \<Rightarrow> seconds) \<Rightarrow> health_key list \<Rightarrow> successor_args \<Rightarrow> nat \<Rightarrow> health_registry
      \<Rightarrow> nat option \<times> nat \<times> health_registry" where
  "throttle_step clock keys a n h =
     (if nr_throttle_redial a \<noteq> None \<and> nr_throttled a then
        (if nr_throttle_backoff a \<and> same_permitted a \<and> nr_throttle_redial_budget a > 0 then
           (case claim_throttle_redial (key_at keys (nr_current_depth a)) (clock n) h of
              (True, h') \<Rightarrow> (Some (nr_current_depth a), Suc n, h')
            | (False, h') \<Rightarrow> advance_route clock keys a (Suc n) h')
         else advance_route clock keys a n h)
      else if throttle_surfaces a then (None, n, h)
      else advance_route clock keys a n h)"

definition next_route_candidate ::
    "(nat \<Rightarrow> seconds) \<Rightarrow> health_key list \<Rightarrow> successor_args \<Rightarrow> nat \<Rightarrow> health_registry
      \<Rightarrow> nat option \<times> nat \<times> health_registry" where
  "next_route_candidate clock keys a n h =
     (if nr_total_attempts a \<ge> nr_maximum_total_attempts a then (None, n, h)
      else if same_permitted a \<and> retryable_same_deployment (nr_failure a)
              \<and> nr_attempt_counts a ! nr_current_depth a < nr_maximum_same_deployment_attempts a then
        (case claim (key_at keys (nr_current_depth a)) (clock n) h of
           (True, h') \<Rightarrow> (Some (nr_current_depth a), Suc n, h')
         | (False, h') \<Rightarrow> throttle_step clock keys a (Suc n) h')
      else throttle_step clock keys a n h)"

section \<open>Disclosure\<close>

definition index_of :: "string list \<Rightarrow> string \<Rightarrow> py_error + nat" where
  "index_of xs x = (if x \<in> set xs then Inr (length (takeWhile (\<lambda>y. y \<noteq> x) xs))
     else Inl (ValueError ''tuple.index(x): x not in tuple''))"

definition name_preferred :: "gateway_route \<Rightarrow> nat \<Rightarrow> string \<Rightarrow> nat \<Rightarrow> string option \<times> exact_model_deployment option" where
  "name_preferred route candidate reason target =
     (if target = candidate then (Some reason, None) else (Some reason, Some (deployments route ! target)))"

definition dispatch_disclosure ::
    "gateway_route \<Rightarrow> nat \<Rightarrow> (nat \<times> string) list \<Rightarrow> bool \<Rightarrow> bool \<Rightarrow> bool
      \<Rightarrow> py_error + string option \<times> exact_model_deployment option" where
  "dispatch_disclosure route candidate policy_sheds forced_overflow sticky_preferred throttle_backoff =
     (if throttle_backoff then Inr (Some ''throttle_backoff'', None)
      else rbind (stage_for_depth (snapshot route) candidate) (\<lambda>stage.
        if stage_failover_mode stage = Maximize_Cache_Affinity then
          rbind (index_of (snapshot_deployment_ids (snapshot route)) (hd (stage_deployment_ids stage))) (\<lambda>target.
            Inr (name_preferred route candidate
              (if forced_overflow then ''saturated_overflow''
               else if candidate = target
                 then (if sticky_preferred \<and> candidate = 0 then ''affinity_sticky'' else ''affinity'')
               else (case find (\<lambda>(depth, shed). depth = target) policy_sheds of
                       None \<Rightarrow> ''rung_dead''
                     | Some (depth, shed) \<Rightarrow> if shed = '''' then ''rung_dead'' else shed))
              target))
        else (case policy_sheds of
            [] \<Rightarrow> if forced_overflow then Inl (IndexError ''list index out of range'') else Inr (None, None)
          | (depth, reason) # _ \<Rightarrow>
              Inr (name_preferred route candidate
                (if forced_overflow then ''saturated_overflow'' else reason) depth))))"

section \<open>Lemmas\<close>

context claiming
begin

lemma pass_keeps_throttles:
  "claim_pass claim clock key cs n r = (res, m, r') \<Longrightarrow> throttled r' k t = throttled r k t"
proof (induction cs arbitrary: n r)
  case (Cons i cs)
  obtain b r1 where c: "claim (key i) (clock n) r = (b, r1)" by fastforce
  show ?case using Cons.prems Cons.IH [of "Suc n" r1] c claim_keeps_throttles [OF c] by (cases b) auto
qed simp

lemma pass_Some:
  assumes "claim_pass claim clock key cs n r = (Some i, m, r')"
  shows "i \<in> set cs" "n < m" "\<not> throttled r (key i) (clock (m - 1))"
  using assms
proof (induction cs arbitrary: n r)
  case (Cons j cs)
  case 1
  then show ?case using Cons(1) by (cases "claim (key j) (clock n) r") (auto split: bool.splits)
  case 2
  then show ?case using Cons(2) by (cases "claim (key j) (clock n) r") (force split: bool.splits)
  case 3
  show ?case
  proof (cases "claim (key j) (clock n) r")
    case (Pair b r1)
    then show ?thesis
      using 3 Cons(3) [of "Suc n" r1] claim_not_throttled [of "key j" "clock n" r r1]
        claim_keeps_throttles [OF Pair] by (cases b) auto
  qed
qed simp_all

lemma pass_None: "claim_pass claim clock key cs n r = (None, m, r') \<Longrightarrow> m = n + length cs"
proof (induction cs arbitrary: n r)
  case (Cons i cs)
  obtain b r1 where c: "claim (key i) (clock n) r = (b, r1)" by fastforce
  show ?case using Cons.prems Cons.IH [of "Suc n" r1] c by (cases b) auto
qed simp

end

context forcing
begin

lemma forced_pass_None:
  assumes "mono clock" and "claim_pass claim clock key cs n r = (None, m, r')" and "i \<in> set cs"
  shows "throttled r (key i) (clock n)"
  using assms(2,3)
proof (induction cs arbitrary: n r)
  case (Cons j cs)
  obtain b r1 where c: "claim (key j) (clock n) r = (b, r1)" by fastforce
  with Cons.prems have b: "\<not> b" and rest: "claim_pass claim clock key cs (Suc n) r1 = (None, m, r')"
    by (auto split: bool.splits)
  have j: "throttled r (key j) (clock n)" using forced_refuses_iff [OF c] b by simp
  have "throttled r (key i) (clock n)" if "i \<in> set cs"
    using Cons.IH [OF rest that] claim_keeps_throttles [OF c] throttle_expires monoD [OF assms(1), of n "Suc n"] by auto
  with j Cons.prems(2) show ?case by auto
qed simp

end

text \<open>Interpreting the walk of a claim method over the registry's three claims.\<close>

lemma order_set: "set (order h keys cs now) = set cs"
  by (auto simp: order_def)

lemma claim_route_cases:
  assumes "claim_route_from clock keys start depths n h = (res, m, h')"
  obtains (healthy) i where "res = Some i"
      "claim_pass claim clock (key_at keys) (order h keys (claim_candidates keys start depths) (clock n)) (Suc n) h
        = (Some i, m, h')"
  | (last_resort) i n1 h1 where "res = Some i"
      "claim_pass claim clock (key_at keys) (order h keys (claim_candidates keys start depths) (clock n)) (Suc n) h
        = (None, n1, h1)"
      "claim_pass claim_last_resort clock (key_at keys)
        (order h keys (claim_candidates keys start depths) (clock n)) n1 h1 = (Some i, m, h')"
  | (forced) n1 h1 n2 h2 where
      "claim_pass claim clock (key_at keys) (order h keys (claim_candidates keys start depths) (clock n)) (Suc n) h
        = (None, n1, h1)"
      "claim_pass claim_last_resort clock (key_at keys)
        (order h keys (claim_candidates keys start depths) (clock n)) n1 h1 = (None, n2, h2)"
      "claim_pass claim_forced clock (key_at keys)
        (order h keys (claim_candidates keys start depths) (clock n)) n2 h2 = (res, m, h')"
  using assms unfolding claim_route_from_def Let_def
  by (auto split: prod.splits option.splits)

lemma claim_route_gives_up:
  assumes "mono clock" and "claim_route_from clock keys start depths n h = (res, m, h')"
  shows "res = None \<longrightarrow> (\<forall>i \<in> set (claim_candidates keys start depths). throttled h (key_at keys i) (clock n))"
    and "res = Some i \<longrightarrow> i \<in> set (claim_candidates keys start depths) \<and> n < m
           \<and> \<not> throttled h (key_at keys i) (clock (m - 1))"
    and "throttled h' k t = throttled h k t"
  using assms(2)
proof (induction rule: claim_route_cases)
  case (healthy j)
  note p = healthy_claim.pass_Some [OF healthy(2)] healthy_claim.pass_keeps_throttles [OF healthy(2)]
  case 1 show ?case using healthy(1) by simp
  case 2 show ?case using healthy(1) p by (auto simp: order_set)
  case 3 show ?case using p by simp
next
  case (last_resort j n1 h1)
  note p = last_resort_claim.pass_Some [OF last_resort(3)] last_resort_claim.pass_keeps_throttles [OF last_resort(3)]
    healthy_claim.pass_keeps_throttles [OF last_resort(2)] healthy_claim.pass_None [OF last_resort(2)]
  case 1 show ?case using last_resort(1) by simp
  case 2 show ?case using last_resort(1) p by (auto simp: order_set)
  case 3 show ?case using p by simp
next
  case (forced n1 h1 n2 h2)
  note q = healthy_claim.pass_keeps_throttles [OF forced(1)] last_resort_claim.pass_keeps_throttles [OF forced(2)]
    healthy_claim.pass_None [OF forced(1)] last_resort_claim.pass_None [OF forced(2)]
  have all: "throttled h (key_at keys j) (clock n)"
    if "res = None" "j \<in> set (claim_candidates keys start depths)" for j
    using forced_claim.forced_pass_None [OF assms(1) forced(3) [unfolded that(1)], of j] that(2) q
      forced_claim.throttle_expires [OF monoD [OF assms(1), of n n2]] by (auto simp: order_set)
  case 1 show ?case using all by blast
  case 2 show ?case
  proof
    assume "res = Some i"
    note p = forced_claim.pass_Some [OF forced(3) [unfolded this]]
    show "i \<in> set (claim_candidates keys start depths) \<and> n < m \<and> \<not> throttled h (key_at keys i) (clock (m - 1))"
      using p q by (auto simp: order_set)
  qed
  case 3 show ?case using forced_claim.pass_keeps_throttles [OF forced(3)] q by simp
qed

section \<open>Properties\<close>

text \<open>
  C32. Claiming a route depth gives up only on provider throttles. For a monotonic clock: when no depth is claimed,
  every candidate sat inside its throttle window when the walk began; a claimed depth is one of the candidates and
  was not throttled at the reading that admitted it; the walk leaves every throttle window as it was.
\<close>

theorem claim_route_gives_up_only_on_throttles:
  assumes "mono clock" and "claim_route_from clock keys start depths n h = (res, m, h')"
  shows "(res = None \<longrightarrow> (\<forall>i \<in> set (claim_candidates keys start depths). throttled h (key_at keys i) (clock n)))
    \<and> (res = Some i \<longrightarrow> i \<in> set (claim_candidates keys start depths) \<and> n < m
           \<and> \<not> throttled h (key_at keys i) (clock (m - 1)))
    \<and> (throttled h' k t = throttled h k t)"
  using claim_route_gives_up [OF assms] by blast

definition sample_clock :: "nat \<Rightarrow> seconds" where "sample_clock n = 10 + real n"

lemma sample_clock_mono: "mono sample_clock" by (simp add: mono_def sample_clock_def)

definition sample_keys :: "health_key list" where
  "sample_keys = [(''cat'', ''dep'', ''a''), (''cat'', ''dep'', ''b'')]"

definition throttled_registry :: health_registry where
  "throttled_registry = failed (''cat'', ''dep'', ''a'') (sample_failure THROTTLED) 5 default_health_registry"

theorem claim_route_gives_up_only_on_throttles_witness:
  "throttled throttled_registry (''cat'', ''dep'', ''a'') 10
   \<and> fst (claim_route_from sample_clock sample_keys 0 (Some [0]) 0 throttled_registry) = None
   \<and> fst (claim_route_from sample_clock sample_keys 0 None 0 throttled_registry) = Some 1
   \<and> \<not> throttled throttled_registry (''cat'', ''dep'', ''b'') 12"
proof -
  have r: "claim_route_from sample_clock sample_keys 0 (Some [0]) 0 throttled_registry
      = (None, snd (claim_route_from sample_clock sample_keys 0 (Some [0]) 0 throttled_registry))"
    "claim_route_from sample_clock sample_keys 0 None 0 throttled_registry
      = (Some 1, 3, snd (snd (claim_route_from sample_clock sample_keys 0 None 0 throttled_registry)))"
    by code_simp+
  obtain m h' where s: "claim_route_from sample_clock sample_keys 0 (Some [0]) 0 throttled_registry = (None, m, h')"
    using r(1) by (metis prod.collapse)
  from claim_route_gives_up_only_on_throttles [OF sample_clock_mono s]
    claim_route_gives_up_only_on_throttles [OF sample_clock_mono r(2), of 1]
  have "throttled throttled_registry (key_at sample_keys 0) (sample_clock 0)"
    "\<not> throttled throttled_registry (key_at sample_keys 1) (sample_clock 2)"
    by (simp_all add: claim_candidates_def)
  moreover have "fst (claim_route_from sample_clock sample_keys 0 (Some [0]) 0 throttled_registry) = None"
    "fst (claim_route_from sample_clock sample_keys 0 None 0 throttled_registry) = Some 1"
    using s r(2) by (metis fst_conv)+
  ultimately show ?thesis by (simp add: key_at_def sample_keys_def sample_clock_def)
qed

text \<open>A refused claim changes nothing a later claim of the walk can see.\<close>

lemma claim_refused_same:
  "claim k now h = (False, h') \<Longrightarrow> health_of h' k' = health_of h k' \<and> failure_threshold h' = failure_threshold h"
  by (auto simp: claim_def Let_def split: if_splits)

definition circuit_closed :: "health_registry \<Rightarrow> health_key \<Rightarrow> seconds \<Rightarrow> bool" where
  "circuit_closed h k now \<longleftrightarrow> \<not> throttled h k now \<and> open_until (health_of h k) \<le> now
     \<and> consecutive_failures (health_of h k) < failure_threshold h"

lemma claim_closed: "circuit_closed h k now \<Longrightarrow> now \<le> now' \<Longrightarrow> fst (claim k now' h)"
  by (auto simp: circuit_closed_def claim_def Let_def throttled_def)

lemma pass_reaches_closed:
  assumes "mono clock" and "i \<in> set cs" and "circuit_closed h (key i) (clock n)"
  shows "\<exists>j m h'. claim_pass claim clock key (cs @ ds) n h = (Some j, m, h') \<and> j \<in> set cs"
  using assms(2,3)
proof (induction cs arbitrary: n h)
  case (Cons j cs)
  obtain b h1 where c: "claim (key j) (clock n) h = (b, h1)" by fastforce
  show ?case
  proof (cases b)
    case False
    then have "i \<noteq> j" using claim_closed [OF Cons.prems(2) order.refl] c by auto
    moreover have "circuit_closed h1 (key i) (clock (Suc n))"
      using Cons.prems(2) claim_refused_same [of "key j" "clock n" h h1] c False monoD [OF assms(1), of n "Suc n"]
      by (auto simp: circuit_closed_def throttled_def)
    ultimately show ?thesis using Cons.IH [of h1 "Suc n"] Cons.prems(1) c False by auto
  qed (use c in auto)
qed simp

text \<open>
  A lane this worker ejected as a dead box is dialled only when nothing better answers: while some candidate on a
  live lane has a closed circuit, the claimed depth is on a live lane.
\<close>

lemma dead_boxes_dialled_last:
  assumes "mono clock" and "i \<in> set (claim_candidates keys start depths)"
    and "\<not> lane_ejected h (key_at keys i) (clock n)" and "circuit_closed h (key_at keys i) (clock n)"
  shows "\<exists>j. fst (claim_route_from clock keys start depths n h) = Some j
    \<and> j \<in> set (claim_candidates keys start depths) \<and> \<not> lane_ejected h (key_at keys j) (clock n)"
proof -
  let ?live = "filter (\<lambda>i. \<not> lane_ejected h (key_at keys i) (clock n)) (claim_candidates keys start depths)"
  let ?dead = "filter (\<lambda>i. lane_ejected h (key_at keys i) (clock n)) (claim_candidates keys start depths)"
  have "circuit_closed h (key_at keys i) (clock (Suc n))"
    using assms(4) monoD [OF assms(1), of n "Suc n"] by (auto simp: circuit_closed_def throttled_def)
  then obtain j m h' where "claim_pass claim clock (key_at keys) (?live @ ?dead) (Suc n) h = (Some j, m, h')"
      and "j \<in> set ?live"
    using pass_reaches_closed [OF assms(1), of i ?live h "key_at keys" "Suc n" ?dead] assms(2,3) by auto
  then show ?thesis by (auto simp: claim_route_from_def order_def Let_def)
qed

definition ejected_registry :: health_registry where
  "ejected_registry = fold (\<lambda>t. failed (''cat'', ''dep'', ''a'') (sample_failure TRANSPORT) t)
     [4, 5, 6] default_health_registry"

lemma matched_token_iff:
  "matched_token rules (Some f) = Some t \<longleftrightarrow> t = failure_token f
     \<and> (\<exists>tokens. rules = Some tokens \<and> (t \<in> set tokens \<or> failure_class f = REFUSAL \<and> REFUSAL_TOKEN \<in> set tokens))"
  by (auto simp: matched_token_def Let_def split: option.splits)

lemma matched_token_first_dial [simp]: "matched_token rules None = None"
  by (cases rules) (simp_all add: matched_token_def)

lemma untried_depths_set:
  "i \<in> set (untried_depths rules failure dispatched current unrestricted) \<longleftrightarrow>
     i < length rules \<and> rung_eligible (rules ! i) failure unrestricted \<and> i \<noteq> current
     \<and> (i < length dispatched \<longrightarrow> dispatched ! i = 0)"
  by (auto simp: untried_depths_def eligible_depths_def)

lemma advance_route_Some:
  assumes "mono clock" and "advance_route clock keys a n h = (Some i, m, h')"
  shows "i \<in> set (successor_depths keys a)"
  using assms(2) claim_route_gives_up [OF assms(1), of keys 0 "Some (successor_depths keys a)" n h "Some i" m h']
  by (auto simp: advance_route_def Let_def claim_candidates_def split: if_splits)

lemma throttle_step_Some:
  assumes "mono clock" and "throttle_step clock keys a n h = (Some i, m, h')"
  shows "i = nr_current_depth a \<and> same_permitted a \<and> nr_throttled a \<and> nr_throttle_redial a \<noteq> None
      \<and> nr_throttle_backoff a \<and> 0 < nr_throttle_redial_budget a
    \<or> i \<in> set (successor_depths keys a) \<and> (nr_throttle_redial a = None \<longrightarrow> \<not> throttle_surfaces a)"
  using assms advance_route_Some [OF assms(1)]
  by (auto simp: throttle_step_def split: if_splits prod.splits bool.splits)

text \<open>The two ways a failed dispatch may continue.\<close>

definition redials_same_rung :: "successor_args \<Rightarrow> nat \<Rightarrow> bool" where
  "redials_same_rung a i \<longleftrightarrow> i = nr_current_depth a \<and> same_permitted a
     \<and> (retryable_same_deployment (nr_failure a) \<and> nr_attempt_counts a ! i < nr_maximum_same_deployment_attempts a
        \<or> failure_class (nr_failure a) = THROTTLED \<and> nr_throttle_redial a \<noteq> None \<and> nr_throttle_backoff a
          \<and> 0 < nr_throttle_redial_budget a)"

definition advances_to :: "health_key list \<Rightarrow> successor_args \<Rightarrow> nat \<Rightarrow> bool" where
  "advances_to keys a i \<longleftrightarrow> i \<noteq> nr_current_depth a \<and> i < length keys
     \<and> (i < length (physical_counts a) \<longrightarrow> physical_counts a ! i = 0)
     \<and> (if nr_fallback_rules a = [] \<or> nr_fallback_rules a ! i = None
        then failover_eligible (nr_failure a) \<or> failure_class (nr_failure a) = REFUSAL \<and> nr_refusal_failover a
        else matched_token (nr_fallback_rules a ! i) (Some (nr_failure a)) \<noteq> None)"

lemma successor_depths_advance:
  assumes "nr_fallback_rules a \<noteq> [] \<longrightarrow> length (nr_fallback_rules a) = length keys"
  shows "i \<in> set (successor_depths keys a) \<longleftrightarrow> advances_to keys a i"
  using assms
  by (auto simp: successor_depths_def untried_depths_set rung_eligible_def refusal_eligible_def advances_to_def
      matched_token_def [of None])

text \<open>
  C33. Where a failed dispatch may go. A successor is reserved only below the total cap, and it is either the same
  rung (a retryable failure below the per-rung cap, or a throttle after the waited backoff with redial budget left),
  or another rung this request has never dispatched to: an unrestricted one when the failure may advance the ladder,
  a failover-only one exactly when its own token set names the failure.
\<close>

theorem successor_is_permitted:
  assumes "mono clock" and "next_route_candidate clock keys a n h = (Some i, m, h')"
    and "nr_fallback_rules a \<noteq> [] \<longrightarrow> length (nr_fallback_rules a) = length keys"
  shows "nr_total_attempts a < nr_maximum_total_attempts a \<and> (redials_same_rung a i \<or> advances_to keys a i)"
proof -
  have "nr_total_attempts a < nr_maximum_total_attempts a"
    using assms(2) by (auto simp: next_route_candidate_def split: if_splits)
  moreover have "redials_same_rung a i \<or> (\<exists>n h. throttle_step clock keys a n h = (Some i, m, h'))"
    using assms(2)
    by (auto simp: next_route_candidate_def redials_same_rung_def split: if_splits prod.splits bool.splits)
  moreover have "redials_same_rung a i \<or> advances_to keys a i"
    if "throttle_step clock keys a n h = (Some i, m, h')" for n h
    using throttle_step_Some [OF assms(1) that] successor_depths_advance [OF assms(3), of i]
    by (auto simp: redials_same_rung_def nr_throttled_def CACHE_PRESERVING_NO_FAILOVER_CLASSES_def)
  ultimately show ?thesis by blast
qed

definition sample_successor :: "gateway_failure \<Rightarrow> successor_args" where
  "sample_successor f = \<lparr>nr_failure = f, nr_current_depth = 0, nr_attempt_counts = [1, 0], nr_total_attempts = 1,
     nr_refusal_failover = False, nr_failover_mode = Maximize_Availability, nr_throttle_cache_threshold = Some (1/2),
     nr_cached_fraction = 1/4, nr_throttle_redial = None, nr_throttle_backoff = False, nr_throttle_redial_budget = 0,
     nr_maximum_total_attempts = MAXIMUM_TOTAL_ATTEMPTS,
     nr_maximum_same_deployment_attempts = MAXIMUM_SAME_DEPLOYMENT_ATTEMPTS,
     nr_fallback_rules = [None, Some [''throttled'']], nr_physical_route_cap = None,
     nr_physical_attempt_counts = None\<rparr>"

theorem successor_is_permitted_witness:
  "fst (next_route_candidate sample_clock sample_keys (sample_successor (sample_failure THROTTLED)) 0
     throttled_registry) = Some 1
   \<and> advances_to sample_keys (sample_successor (sample_failure THROTTLED)) 1"
proof -
  let ?a = "sample_successor (sample_failure THROTTLED)"
  have f: "fst (next_route_candidate sample_clock sample_keys ?a 0 throttled_registry) = Some 1" by code_simp
  then obtain m h' where r: "next_route_candidate sample_clock sample_keys ?a 0 throttled_registry = (Some 1, m, h')"
    by (metis prod.collapse)
  have "nr_fallback_rules ?a \<noteq> [] \<longrightarrow> length (nr_fallback_rules ?a) = length sample_keys"
    by (simp add: sample_successor_def sample_keys_def)
  from successor_is_permitted [OF sample_clock_mono r this] f show ?thesis
    by (auto simp: redials_same_rung_def sample_successor_def)
qed

definition cache_at_stake :: "successor_args \<Rightarrow> bool" where
  "cache_at_stake a \<longleftrightarrow> (case nr_throttle_cache_threshold a of
      None \<Rightarrow> nr_failover_mode a = Maximize_Cache | Some t \<Rightarrow> t \<le> nr_cached_fraction a)"

text \<open>
  C0. A throttle is a decision about the prompt cache at stake. Where no redial schedule is authored and the failure
  is not retryable in place, an authored threshold surfaces the throttle exactly when the organisation's cached
  fraction reaches it (leaving the circuits untouched) and otherwise, where a permitted rung is outside its throttle window,
  advances to an untried rung the failover rules permit that is outside its window; without a threshold only \<open>maximize_cache\<close> surfaces.
\<close>

theorem throttle_surfaces_by_cache_at_stake:
  assumes "mono clock" and "failure_class (nr_failure a) = THROTTLED" and "\<not> retryable_same_deployment (nr_failure a)"
    and "nr_throttle_redial a = None" and "nr_total_attempts a < nr_maximum_total_attempts a"
    and "\<not> throttled h (key_at keys j) (clock n)" and "j \<in> set (successor_depths keys a)"
  shows "(cache_at_stake a \<longrightarrow> next_route_candidate clock keys a n h = (None, n, h))
    \<and> (\<not> cache_at_stake a \<longrightarrow> (\<exists>i m h'. next_route_candidate clock keys a n h = (Some i, m, h')
           \<and> i \<in> set (successor_depths keys a) \<and> n < m \<and> \<not> throttled h (key_at keys i) (clock (m - 1))))"
proof -
  have s: "throttle_surfaces a \<longleftrightarrow> cache_at_stake a"
    using assms(2)
    by (auto simp: cache_at_stake_def throttle_surfaces_def throttle_disposition_def nr_throttled_def Let_def
        CACHE_PRESERVING_NO_FAILOVER_CLASSES_def split: option.splits)
  have step: "next_route_candidate clock keys a n h = throttle_step clock keys a n h"
    using assms(3,5) by (simp add: next_route_candidate_def)
  obtain res m h' where c: "claim_route_from clock keys 0 (Some (successor_depths keys a)) n h = (res, m, h')"
    by (metis prod.collapse)
  note g = claim_route_gives_up [OF assms(1) c]
  have "res \<noteq> None" using g(1) assms(6,7) by (auto simp: claim_candidates_def)
  then obtain i where "res = Some i" by blast
  with g(2) [of i] c step s assms(4,7)
  have "\<not> cache_at_stake a \<longrightarrow> (\<exists>i m h'. next_route_candidate clock keys a n h = (Some i, m, h')
           \<and> i \<in> set (successor_depths keys a) \<and> n < m \<and> \<not> throttled h (key_at keys i) (clock (m - 1)))"
    by (auto simp: throttle_step_def advance_route_def claim_candidates_def Let_def)
  moreover have "cache_at_stake a \<longrightarrow> next_route_candidate clock keys a n h = (None, n, h)"
    using assms(4) s step by (simp add: throttle_step_def)
  ultimately show ?thesis by blast
qed

theorem throttle_surfaces_by_cache_at_stake_witness:
  "next_route_candidate sample_clock sample_keys
     ((sample_successor (sample_failure THROTTLED))\<lparr>nr_cached_fraction := 3/4\<rparr>) 0 throttled_registry
     = (None, 0, throttled_registry)
   \<and> (\<exists>i m h'. next_route_candidate sample_clock sample_keys (sample_successor (sample_failure THROTTLED)) 0
        throttled_registry = (Some i, m, h'))"
proof -
  let ?a = "sample_successor (sample_failure THROTTLED)"
  let ?b = "?a\<lparr>nr_cached_fraction := 3/4\<rparr>"
  have j: "\<not> throttled throttled_registry (key_at sample_keys 1) (sample_clock 0)"
    "1 \<in> set (successor_depths sample_keys ?a)" "1 \<in> set (successor_depths sample_keys ?b)"
    by code_simp+
  have fa: "failure_class (nr_failure ?a) = THROTTLED" "\<not> retryable_same_deployment (nr_failure ?a)"
    "nr_throttle_redial ?a = None" "nr_total_attempts ?a < nr_maximum_total_attempts ?a"
    "nr_throttle_cache_threshold ?a = Some (1/2)" "nr_cached_fraction ?a = 1/4"
    by (simp_all add: sample_successor_def sample_failure_def MAXIMUM_TOTAL_ATTEMPTS_def)
  have fb: "failure_class (nr_failure ?b) = THROTTLED" "\<not> retryable_same_deployment (nr_failure ?b)"
    "nr_throttle_redial ?b = None" "nr_total_attempts ?b < nr_maximum_total_attempts ?b"
    "nr_throttle_cache_threshold ?b = Some (1/2)" "nr_cached_fraction ?b = 3/4"
    by (simp_all add: sample_successor_def sample_failure_def MAXIMUM_TOTAL_ATTEMPTS_def)
  have ba: "cache_at_stake ?b" "\<not> cache_at_stake ?a" by (simp_all add: cache_at_stake_def fa fb)
  have "next_route_candidate sample_clock sample_keys ?b 0 throttled_registry = (None, 0, throttled_registry)"
    using throttle_surfaces_by_cache_at_stake [OF sample_clock_mono fb(1-4) j(1,3)] ba(1) by blast
  moreover have "\<exists>i m h'. next_route_candidate sample_clock sample_keys ?a 0 throttled_registry = (Some i, m, h')"
    using throttle_surfaces_by_cache_at_stake [OF sample_clock_mono fa(1-4) j(1,2)] ba(2) by blast
  ultimately show ?thesis by blast
qed

text \<open>
  A failover-only rung never takes a first dial: the ladder of a request with no failure yet is exactly the
  unrestricted depths in route order, admission refuses a route without one, and after a failure the ladder gains
  exactly the rungs whose token set names that failure (its class, the precise refusal, or any refusal).
\<close>

lemma failover_only_rungs_wait_for_their_failure:
  "eligible_ladder route None = filter (\<lambda>i. failover_only_on (deployments route ! i) = None) [0..<length (deployments route)]
   \<and> (require_unrestricted_rung route = Inr () \<longleftrightarrow> eligible_ladder route None \<noteq> [])
   \<and> (i \<in> set (eligible_ladder route (Some f)) \<longleftrightarrow> i < length (deployments route)
        \<and> (case failover_only_on (deployments route ! i) of
             None \<Rightarrow> True
           | Some tokens \<Rightarrow> failure_token f \<in> set tokens
               \<or> failure_class f = REFUSAL \<and> REFUSAL_TOKEN \<in> set tokens))"
proof (intro conjI)
  show ladder: "eligible_ladder route None
      = filter (\<lambda>i. failover_only_on (deployments route ! i) = None) [0..<length (deployments route)]"
    by (auto simp: eligible_ladder_def eligible_depths_def route_fallback_rules_def rung_eligible_def rung_rules_def
        intro!: filter_cong)
  show "require_unrestricted_rung route = Inr () \<longleftrightarrow> eligible_ladder route None \<noteq> []"
  proof -
    have "has_unrestricted_rung (route_fallback_rules route)
        \<longleftrightarrow> (\<exists>j < length (deployments route). failover_only_on (deployments route ! j) = None)"
      by (simp add: has_unrestricted_rung_def route_fallback_rules_def list_ex_length rung_rules_def cong: conj_cong)
    also have "\<dots> \<longleftrightarrow> eligible_ladder route None \<noteq> []" unfolding ladder filter_empty_conv set_upt by fastforce
    finally show ?thesis by (simp add: require_unrestricted_rung_def)
  qed
  show "i \<in> set (eligible_ladder route (Some f)) \<longleftrightarrow> i < length (deployments route)
        \<and> (case failover_only_on (deployments route ! i) of
             None \<Rightarrow> True
           | Some tokens \<Rightarrow> failure_token f \<in> set tokens
               \<or> failure_class f = REFUSAL \<and> REFUSAL_TOKEN \<in> set tokens)"
    by (auto simp: eligible_ladder_def eligible_depths_def route_fallback_rules_def rung_eligible_def rung_rules_def
        matched_token_iff split: option.splits)
qed

lemma stage_walk_owner:
  assumes "depth < cursor + length (concat (map stage_deployment_ids stages))" and "cursor \<le> depth"
  shows "\<exists>stage \<in> set stages. stage_walk stages cursor depth = Inr stage
    \<and> concat (map stage_deployment_ids stages) ! (depth - cursor) \<in> set (stage_deployment_ids stage)"
  using assms
proof (induction stages arbitrary: cursor)
  case (Cons s stages)
  then show ?case
    using Cons.IH [of "cursor + length (stage_deployment_ids s)"]
    by (auto simp: Let_def nth_append diff_diff_left)
qed simp

lemma stage_for_depth_cases:
  assumes "require_stage_projection s = Inr s"
  shows "depth < length (snapshot_deployment_ids s) \<longrightarrow>
      (\<exists>stage. stage_for_depth s depth = Inr stage
         \<and> snapshot_deployment_ids s ! depth \<in> set (stage_deployment_ids stage))"
    and "length (snapshot_deployment_ids s) \<le> depth \<longrightarrow> (\<exists>e. stage_for_depth s depth = Inl e)"
proof -
  have cover: "concat (map stage_deployment_ids (model_stages s)) = snapshot_deployment_ids s" if "model_stages s \<noteq> []"
    using assms that by (auto simp: require_stage_projection_def split: if_splits)
  show "depth < length (snapshot_deployment_ids s) \<longrightarrow>
      (\<exists>stage. stage_for_depth s depth = Inr stage
         \<and> snapshot_deployment_ids s ! depth \<in> set (stage_deployment_ids stage))"
    using cover stage_walk_owner [of depth 0 "model_stages s"]
    by (cases "model_stages s = []") (auto simp: stage_for_depth_def)
  show "length (snapshot_deployment_ids s) \<le> depth \<longrightarrow> (\<exists>e. stage_for_depth s depth = Inl e)"
    by (simp add: stage_for_depth_def)
qed

text \<open>
  C34. A validated execution snapshot names the right authority for every depth of its plan: \<open>stage_for_depth\<close>
  returns a stage, and that stage's own segment contains the deployment dispatched at the depth. Outside the plan it
  raises.
\<close>

theorem stage_for_depth_owns_the_deployment:
  assumes "require_stage_projection s = Inr s"
  shows "(depth < length (snapshot_deployment_ids s) \<longrightarrow>
      (\<exists>stage. stage_for_depth s depth = Inr stage
         \<and> snapshot_deployment_ids s ! depth \<in> set (stage_deployment_ids stage)))
    \<and> (length (snapshot_deployment_ids s) \<le> depth \<longrightarrow> (\<exists>e. stage_for_depth s depth = Inl e))"
  using stage_for_depth_cases [OF assms] by blast

definition sample_stage :: "string list \<Rightarrow> model_execution_stage" where
  "sample_stage ids = \<lparr>stage_index = 0, stage_exact_model_id = ''m'', stage_pool_id = ''p'', stage_deployment_ids = ids,
     stage_failover_mode = Maximize_Cache_Affinity, stage_throttle_cache_threshold = None,
     stage_throttle_redial = None\<rparr>"

definition sample_authorization :: authorization_snapshot where
  "sample_authorization = \<lparr>auth_request_id = ''r'', auth_organization_id = ''acme'', auth_identity_id = ''i'',
     auth_virtual_key_id = ''k'', auth_alias_revision_id = ''rev'', auth_direct_target = True, auth_surface = ''responses'',
     auth_catalog_sha256 = ''cat'', auth_canonical_request_sha256 = ''sha'', auth_caller_operation_sha256 = None, auth_refusal_failover = False, auth_fair_share_weight = 1, auth_priority_admission = 0, auth_priority_class = None,
     auth_output_tokens_per_second = None, auth_output_pace_saturation = None,
     auth_self_hosted_class_concurrency = None, auth_fast = False, auth_prompt_caching_disabled = False\<rparr>"

definition sample_snapshot :: execution_snapshot where
  "sample_snapshot = \<lparr>snapshot_authorization = sample_authorization, snapshot_exact_model_id = ''m'', snapshot_pool_id = ''p'',
     snapshot_deployment_ids = [''d0'', ''d1'', ''d2''], snapshot_failover_mode = Maximize_Availability,
     snapshot_throttle_cache_threshold = None, snapshot_throttle_redial = None,
     model_stages = [sample_stage [''d0''], sample_stage [''d1'', ''d2'']]\<rparr>"

theorem stage_for_depth_owns_the_deployment_witness:
  "(\<exists>stage. stage_for_depth sample_snapshot 2 = Inr stage \<and> ''d2'' \<in> set (stage_deployment_ids stage))
   \<and> (\<exists>e. stage_for_depth sample_snapshot 3 = Inl e)"
proof -
  have v: "require_stage_projection sample_snapshot = Inr sample_snapshot"
    by (simp add: require_stage_projection_def sample_snapshot_def sample_stage_def)
  have "snapshot_deployment_ids sample_snapshot = [''d0'', ''d1'', ''d2'']" by (simp add: sample_snapshot_def)
  then show ?thesis
    using stage_for_depth_owns_the_deployment [OF v, of 2] stage_for_depth_owns_the_deployment [OF v, of 3]
    by (simp add: numeral_2_eq_2)
qed

end
