(* ===== verification/Ledger_Valuation.thy ===== *)
theory Ledger_Valuation
  imports Contracts
begin

text \<open>
  Cost attribution of the attempt ledger (\<^verbatim>\<open>src/exp/runtime/gateway/ledger_valuation.py\<close>): the
  signed 64-bit guard, token and unit costs, the schedule an attempt row froze at reservation,
  and the amount a settlement charges to the budgets.
\<close>

section \<open>Amounts that fit the ledger column\<close>

definition MAXIMUM_NANO_USD :: int where
  "MAXIMUM_NANO_USD = 9223372036854775807"

definition require_representable_nano_usd :: "int \<Rightarrow> string \<Rightarrow> py_error + int" where
  "require_representable_nano_usd amount what =
     (if amount > MAXIMUM_NANO_USD then Inl (NanoUsdOverflowError what) else Inr amount)"

text \<open>A price that may be unknown: \<open>None\<close> passes through, a known amount is guarded.\<close>

definition representable_option :: "int option \<Rightarrow> string \<Rightarrow> py_error + int option" where
  "representable_option cost what =
     (case cost of None \<Rightarrow> Inr None
      | Some c \<Rightarrow> rbind (require_representable_nano_usd c what) (\<lambda>a. Inr (Some a)))"

section \<open>Token and unit costs\<close>

definition gateway_counts :: "gateway_usage \<Rightarrow> int \<Rightarrow> int \<Rightarrow> token_counts" where
  "gateway_counts u n_in n_out =
     \<lparr>n_input = n_in, n_output = n_out, n_cached = gu_cached_input_tokens u,
      n_written = gu_cache_creation_input_tokens u, n_hour = gu_cache_creation_1h_input_tokens u,
      n_reasoning = gu_reasoning_tokens u, n_image = gu_image_output_tokens u,
      n_half_day = gu_cache_creation_12h_input_tokens u\<rparr>"

definition estimated_cost_nano_usd ::
    "gateway_usage option \<Rightarrow> token_rates \<Rightarrow> py_error + int option" where
  "estimated_cost_nano_usd usage r =
     (case usage of None \<Rightarrow> Inr None
      | Some u \<Rightarrow> (case (gu_input_tokens u, gu_output_tokens u) of
            (Some n_in, Some n_out) \<Rightarrow>
              representable_option (token_cost_nano_usd (gateway_counts u n_in n_out) r) ''attempt cost''
          | _ \<Rightarrow> Inr None))"

definition unit_rate_nano_usd :: "billed_units \<Rightarrow> gateway_unit_prices option \<Rightarrow> int option" where
  "unit_rate_nano_usd billed c =
     (case c of None \<Rightarrow> None
      | Some k \<Rightarrow> if unit_kind k \<noteq> billed_kind billed then None else rate_for k (billed_variant billed))"

definition unit_cost_nano_usd :: "billed_units \<Rightarrow> int option \<Rightarrow> py_error + int option" where
  "unit_cost_nano_usd billed rate =
     (case rate of None \<Rightarrow> Inr None
      | Some r \<Rightarrow> representable_option (Some ((quantity_milli billed * r + 500) div 1000)) ''unit cost'')"

section \<open>The attempt row\<close>

text \<open>
  The pricing columns an attempt row freezes at reservation. A schedule has the six rate columns of
  its prefix; the 12-hour write and image-output rates of the card have no column.
\<close>

record frozen_rates =
  fr_input_rate :: "int option"
  fr_cached_input_rate :: "int option"
  fr_cache_creation_input_rate :: "int option"
  fr_cache_creation_1h_input_rate :: "int option"
  fr_output_rate :: "int option"
  fr_reasoning_rate :: "int option"

record attempt_row =
  row_base :: frozen_rates
  row_long_context_threshold_tokens :: "int option"
  row_long_context :: frozen_rates
  row_preferred :: frozen_rates
  row_unit_prices :: "gateway_unit_prices option"
  row_budget_reserved_nano_usd :: "int option"
  row_api_surface :: string

definition freeze_rates :: "'a token_rates_scheme \<Rightarrow> frozen_rates" where
  "freeze_rates c =
     \<lparr>fr_input_rate = input_nano_usd_per_million_tokens c,
      fr_cached_input_rate = cached_input_nano_usd_per_million_tokens c,
      fr_cache_creation_input_rate = cache_creation_input_nano_usd_per_million_tokens c,
      fr_cache_creation_1h_input_rate = cache_creation_1h_input_nano_usd_per_million_tokens c,
      fr_output_rate = output_nano_usd_per_million_tokens c,
      fr_reasoning_rate = reasoning_nano_usd_per_million_tokens c\<rparr>"

definition no_rates :: frozen_rates where
  "no_rates = \<lparr>fr_input_rate = None, fr_cached_input_rate = None, fr_cache_creation_input_rate = None,
     fr_cache_creation_1h_input_rate = None, fr_output_rate = None, fr_reasoning_rate = None\<rparr>"

text \<open>\<open>long_context_values\<close>: the threshold and rates, or seven NULLs.\<close>

definition long_context_values :: "gateway_token_prices \<Rightarrow> int option \<times> frozen_rates" where
  "long_context_values p =
     (case long_context p of None \<Rightarrow> (None, no_rates)
      | Some tier \<Rightarrow> (Some (input_threshold_tokens tier), freeze_rates tier))"

text \<open>The pricing columns of the row \<open>apply_start_attempt\<close> inserts.\<close>

definition insert_attempt_prices ::
    "gateway_token_prices \<Rightarrow> gateway_token_prices option \<Rightarrow> string \<Rightarrow> int option \<Rightarrow> attempt_row" where
  "insert_attempt_prices p preferred surface maximum_cost =
     \<lparr>row_base = freeze_rates p,
      row_long_context_threshold_tokens = fst (long_context_values p),
      row_long_context = snd (long_context_values p),
      row_preferred = (case preferred of None \<Rightarrow> no_rates | Some q \<Rightarrow> freeze_rates q),
      row_unit_prices = units p,
      row_budget_reserved_nano_usd = maximum_cost,
      row_api_surface = surface\<rparr>"

datatype schedule_prefix = Base | Long_Context | Preferred

definition row_rates :: "attempt_row \<Rightarrow> schedule_prefix \<Rightarrow> frozen_rates" where
  "row_rates row prefix =
     (case prefix of Base \<Rightarrow> row_base row | Long_Context \<Rightarrow> row_long_context row
      | Preferred \<Rightarrow> row_preferred row)"

text \<open>The rates \<open>frozen_usage_cost\<close> passes on: the image and 12-hour rates keep their default \<open>None\<close>.\<close>

definition frozen_schedule :: "frozen_rates \<Rightarrow> token_rates" where
  "frozen_schedule f =
     \<lparr>input_nano_usd_per_million_tokens = fr_input_rate f,
      cached_input_nano_usd_per_million_tokens = fr_cached_input_rate f,
      cache_creation_input_nano_usd_per_million_tokens = fr_cache_creation_input_rate f,
      cache_creation_1h_input_nano_usd_per_million_tokens = fr_cache_creation_1h_input_rate f,
      cache_creation_12h_input_nano_usd_per_million_tokens = None,
      output_nano_usd_per_million_tokens = fr_output_rate f,
      reasoning_nano_usd_per_million_tokens = fr_reasoning_rate f,
      image_output_nano_usd_per_million_tokens = None\<rparr>"

definition frozen_usage_cost ::
    "attempt_row \<Rightarrow> gateway_usage option \<Rightarrow> schedule_prefix \<Rightarrow> py_error + int option" where
  "frozen_usage_cost row usage prefix =
     rbind (estimated_cost_nano_usd usage (frozen_schedule (row_rates row prefix))) (\<lambda>token_cost.
       case usage of None \<Rightarrow> Inr token_cost
       | Some u \<Rightarrow> (case gu_billed_units u of None \<Rightarrow> Inr token_cost
         | Some billed \<Rightarrow>
             if prefix = Preferred then Inr None
             else rbind (unit_cost_nano_usd billed (unit_rate_nano_usd billed (row_unit_prices row)))
               (\<lambda>unit_cost. case unit_cost of None \<Rightarrow> Inr None
                | Some uc \<Rightarrow>
                    if gu_input_tokens u = None \<and> gu_output_tokens u = None then Inr (Some uc)
                    else (case token_cost of None \<Rightarrow> Inr None
                      | Some tc \<Rightarrow> representable_option (Some (tc + uc)) ''attempt cost''))))"

section \<open>Settlement\<close>

definition terminal_kind_value :: "gateway_event_kind \<Rightarrow> string option" where
  "terminal_kind_value k =
     (case k of COMPLETED \<Rightarrow> Some ''completed'' | INCOMPLETE \<Rightarrow> Some ''incomplete''
      | FAILED \<Rightarrow> Some ''failed'' | _ \<Rightarrow> None)"

text \<open>State, failure class, provider explanation and usage of one finish call.\<close>

definition terminal_values :: "gateway_event option \<Rightarrow> gateway_failure option \<Rightarrow>
    py_error + (string \<times> string option \<times> string option \<times> gateway_usage option)" where
  "terminal_values terminal_event failure =
     (let normalized = (case failure of Some f \<Rightarrow> Some f
                        | None \<Rightarrow> Option.bind terminal_event event_failure);
          kind = map_option event_kind terminal_event;
          usage = Option.bind terminal_event event_usage
      in if kind = None \<and> normalized = None
           then Inl (GatewayLedgerError ''attempt finish needs a terminal event or failure'')
         else if kind \<noteq> None \<and> terminal_kind_value (the kind) = None
           then Inl (GatewayLedgerError ''attempt finish event must be terminal'')
         else case normalized of
             Some f \<Rightarrow> Inr (if failure_class f = CANCELLED then ''cancelled'' else ''failed'',
                       Some (failure_class_value (failure_class f)), provider_detail f, usage)
           | None \<Rightarrow> Inr (the (terminal_kind_value (the kind)), None, None, usage))"

definition observed_prefix :: "attempt_row \<Rightarrow> gateway_usage option \<Rightarrow> schedule_prefix" where
  "observed_prefix row usage =
     (case (row_long_context_threshold_tokens row, Option.bind usage gu_input_tokens) of
        (Some threshold, Some n) \<Rightarrow> if n \<ge> threshold then Long_Context else Base
      | _ \<Rightarrow> Base)"

definition observed_usage_cost ::
    "attempt_row \<Rightarrow> gateway_usage option \<Rightarrow> gateway_event option \<Rightarrow> py_error + int option" where
  "observed_usage_cost row usage terminal_event =
     (let partial = (case terminal_event of None \<Rightarrow> False
                     | Some e \<Rightarrow> usage_incomplete_due_to_disconnect e \<and> \<not> usage_estimated e)
      in if partial then Inr None else frozen_usage_cost row usage (observed_prefix row usage))"

definition decision_rejected :: "gateway_usage option \<Rightarrow> gateway_event option \<Rightarrow> bool" where
  "decision_rejected usage terminal_event =
     (case terminal_event of None \<Rightarrow> False
      | Some e \<Rightarrow> event_kind e = FAILED \<and> decision_provider_rejected e \<and> usage = None)"

definition budget_settlement_nano_usd :: "attempt_row \<Rightarrow> int option \<Rightarrow> gateway_usage option \<Rightarrow>
    gateway_event option \<Rightarrow> py_error + int option" where
  "budget_settlement_nano_usd row cost usage terminal_event =
     (let settled = (case cost of Some c \<Rightarrow> Some c | None \<Rightarrow> row_budget_reserved_nano_usd row);
          settled' = (if row_api_surface row = ''decisions'' \<and> cost = None
                      then (if decision_rejected usage terminal_event then Some 0 else None)
                      else settled)
      in case settled' of
           None \<Rightarrow> Inr None
         | Some s \<Rightarrow> if s > MAXIMUM_NANO_USD
             then Inl (GatewayLedgerError ''attempt cost exceeds SQLite integer capacity'')
             else Inr (Some s))"

definition usage_source_label :: "gateway_usage option \<Rightarrow> bool \<Rightarrow> string" where
  "usage_source_label usage estimated =
     (if usage = None then ''unknown'' else if estimated then ''estimated'' else ''observed'')"

definition billed_unit_columns :: "attempt_row \<Rightarrow> gateway_usage option \<Rightarrow>
    (billed_unit_kind \<times> string \<times> int \<times> int option) option" where
  "billed_unit_columns row usage =
     map_option (\<lambda>b. (billed_kind b, billed_variant b, quantity_milli b,
                      unit_rate_nano_usd b (row_unit_prices row)))
       (Option.bind usage gu_billed_units)"

section \<open>Lemmas\<close>

lemma representable_option_Inr [result_simps]:
  "representable_option c w = Inr x \<longleftrightarrow> x = c \<and> (case c of None \<Rightarrow> True | Some v \<Rightarrow> v \<le> MAXIMUM_NANO_USD)"
  by (auto simp: representable_option_def require_representable_nano_usd_def split: option.splits if_splits)

lemma estimated_cost_Some:
  "estimated_cost_nano_usd usage r = Inr (Some c) \<longleftrightarrow>
   (\<exists>u n_in n_out. usage = Some u \<and> gu_input_tokens u = Some n_in \<and> gu_output_tokens u = Some n_out
      \<and> token_cost_nano_usd (gateway_counts u n_in n_out) r = Some c \<and> c \<le> MAXIMUM_NANO_USD)"
  by (auto simp: estimated_cost_nano_usd_def representable_option_Inr split: option.splits)

lemma gateway_counts_ok:
  "gateway_usage_ok u \<Longrightarrow> gu_input_tokens u = Some n_in \<Longrightarrow> gu_output_tokens u = Some n_out \<Longrightarrow>
   counts_ok (gateway_counts u n_in n_out)"
  by (simp add: gateway_usage_ok_def counts_ok_def gateway_counts_def)

text \<open>The token-only and unit-only cases of the frozen price.\<close>

lemma frozen_usage_cost_tokens:
  "gu_billed_units u = None \<Longrightarrow>
   frozen_usage_cost row (Some u) prefix = estimated_cost_nano_usd (Some u) (frozen_schedule (row_rates row prefix))"
  by (simp add: frozen_usage_cost_def) (cases "estimated_cost_nano_usd (Some u) (frozen_schedule (row_rates row prefix))";
      simp)

lemma unit_cost_Some:
  "unit_cost_nano_usd b rate = Inr (Some c) \<longleftrightarrow>
   (\<exists>r. rate = Some r \<and> c = (quantity_milli b * r + 500) div 1000 \<and> c \<le> MAXIMUM_NANO_USD)"
  by (cases rate) (auto simp: unit_cost_nano_usd_def representable_option_Inr)

text \<open>With billed units on the dispatched schedule: units alone, or units plus tokens.\<close>

lemma frozen_usage_cost_units:
  assumes "frozen_usage_cost row (Some u) prefix = Inr (Some c)" and "gu_billed_units u = Some b"
  obtains uc where "prefix \<noteq> Preferred"
      "unit_cost_nano_usd b (unit_rate_nano_usd b (row_unit_prices row)) = Inr (Some uc)"
      "gu_input_tokens u = None" "gu_output_tokens u = None" "c = uc"
  | uc tc where "prefix \<noteq> Preferred"
      "unit_cost_nano_usd b (unit_rate_nano_usd b (row_unit_prices row)) = Inr (Some uc)"
      "estimated_cost_nano_usd (Some u) (frozen_schedule (row_rates row prefix)) = Inr (Some tc)"
      "c = tc + uc" "c \<le> MAXIMUM_NANO_USD"
proof -
  from assms obtain t un where
    t: "estimated_cost_nano_usd (Some u) (frozen_schedule (row_rates row prefix)) = Inr t"
    and p: "prefix \<noteq> Preferred"
    and un: "unit_cost_nano_usd b (unit_rate_nano_usd b (row_unit_prices row)) = Inr un"
    and rest: "(case un of None \<Rightarrow> Inr None
        | Some uc \<Rightarrow> if gu_input_tokens u = None \<and> gu_output_tokens u = None then Inr (Some uc)
            else (case t of None \<Rightarrow> Inr None
              | Some tc \<Rightarrow> representable_option (Some (tc + uc)) ''attempt cost'')) = Inr (Some c)"
    by (auto simp: frozen_usage_cost_def rbind_eq_Inr_iff split: if_splits)
  then show ?thesis
    using that
    by (cases un; cases t) (auto simp: representable_option_Inr split: if_splits)
qed

lemma frozen_usage_cost_fits:
  assumes "frozen_usage_cost row usage prefix = Inr (Some c)"
  shows "c \<le> MAXIMUM_NANO_USD"
proof (cases usage)
  case None
  with assms show ?thesis by (simp add: frozen_usage_cost_def estimated_cost_nano_usd_def)
next
  case (Some u)
  show ?thesis
  proof (cases "gu_billed_units u")
    case None
    with assms Some show ?thesis by (auto simp: frozen_usage_cost_tokens estimated_cost_Some)
  next
    case (Some b)
    from assms [unfolded \<open>usage = Some u\<close>] Some show ?thesis
      by (rule frozen_usage_cost_units) (auto simp: unit_cost_Some)
  qed
qed

lemma frozen_schedule_freeze:
  "frozen_schedule (freeze_rates c) = (rates_of c)\<lparr>cache_creation_12h_input_nano_usd_per_million_tokens := None,
     image_output_nano_usd_per_million_tokens := None\<rparr>"
  by (simp add: frozen_schedule_def freeze_rates_def rates_of_def token_rates.truncate_def)

text \<open>The row prices usage at the schedule its card selects for the same input total.\<close>

lemma row_observed_rates:
  assumes "gu_input_tokens u = Some n"
  shows "frozen_schedule (row_rates (insert_attempt_prices p q s m)
           (observed_prefix (insert_attempt_prices p q s m) (Some u)))
    = (select_schedule p n)\<lparr>cache_creation_12h_input_nano_usd_per_million_tokens := None,
         image_output_nano_usd_per_million_tokens := None\<rparr>"
  using assms
  by (auto simp: observed_prefix_def insert_attempt_prices_def long_context_values_def row_rates_def
      select_schedule_def frozen_schedule_freeze split: option.splits)

end
