(* ===== verification/Attempt_Costs.thy ===== *)
theory Attempt_Costs
  imports Ledger_Valuation
begin

text \<open>
  The money ceiling reserved before one physical call, per serving surface
  (\<^verbatim>\<open>src/exp/runtime/gateway/attempt_costs.py\<close>, with the ceilings of the embeddings, images, audio
  and video contracts and \<^verbatim>\<open>audio_billing.py\<close>). The token estimates of \<open>attempt_tokens.py\<close> and the
  cache-marker scan of \<open>cache_write.py\<close> reach these functions as numbers and flags, and are
  arguments here.
\<close>

section \<open>Requests, as the ceilings read them\<close>

datatype serving_request =
    Embeddings_Request
  | Images_Request (images_n: int) (images_size: "string option") (images_quality: "string option")
  | Speech_Request (input_characters: int)
  | Transcription_Request (audio_duration_milli: int)
  | Video_Request (video_seconds: int) (video_size: string)
  | Gateway_Request (requests_hour_cache: bool) (prompt_cache_ttl_12h: bool)
  | Decision_Request

definition hour_cache :: "serving_request \<Rightarrow> bool" where
  "hour_cache r = (case r of Gateway_Request h _ \<Rightarrow> h | _ \<Rightarrow> False)"

definition twelve_hour_cache :: "serving_request \<Rightarrow> bool" where
  "twelve_hour_cache r = (case r of Gateway_Request _ t \<Rightarrow> t | _ \<Rightarrow> False)"

section \<open>Media ceilings\<close>

definition ceil_million :: "int \<Rightarrow> int" where
  "ceil_million n = (n + 999999) div 1000000"

definition priced :: "py_error + int \<Rightarrow> py_error + int option" where
  "priced r = rbind r (\<lambda>c. Inr (Some c))"

definition embeddings_input_ceiling_nano_usd :: "int \<Rightarrow> int option \<Rightarrow> py_error + int option" where
  "embeddings_input_ceiling_nano_usd n_in input_rate =
     (case input_rate of None \<Rightarrow> Inr None
      | Some r \<Rightarrow> priced (require_representable_nano_usd (ceil_million (n_in * r))
                    ''embeddings reservation ceiling''))"

definition MAXIMUM_IMAGE_OUTPUT_TOKENS :: int where "MAXIMUM_IMAGE_OUTPUT_TOKENS = 6240"

text \<open>\<open>"/".join\<close> over the parts that are present and nonempty.\<close>

definition image_variant :: "string option \<Rightarrow> string option \<Rightarrow> string" where
  "image_variant quality sz =
     (case (quality, sz) of
        (Some (q # qs), Some (s # ss)) \<Rightarrow> (q # qs) @ ''/'' @ (s # ss)
      | (Some (q # qs), _) \<Rightarrow> q # qs
      | (_, Some s) \<Rightarrow> s
      | _ \<Rightarrow> '''')"

definition per_image_rate :: "gateway_token_prices \<Rightarrow> string \<Rightarrow> int option" where
  "per_image_rate p variant =
     (case units p of None \<Rightarrow> None
      | Some k \<Rightarrow> if unit_kind k \<noteq> IMAGE then None else rate_for k variant)"

definition images_ceiling_nano_usd ::
    "int \<Rightarrow> int \<Rightarrow> int option \<Rightarrow> int option \<Rightarrow> int option \<Rightarrow> py_error + int option" where
  "images_ceiling_nano_usd n n_in input_rate output_rate image_rate =
     (case image_rate of
        Some r \<Rightarrow> priced (require_representable_nano_usd (n * r) ''images reservation ceiling'')
      | None \<Rightarrow> (case (input_rate, output_rate) of
            (Some i, Some out) \<Rightarrow> priced (require_representable_nano_usd
               (ceil_million (n_in * i + n * MAXIMUM_IMAGE_OUTPUT_TOKENS * out))
               ''images reservation ceiling'')
          | _ \<Rightarrow> Inr None))"

definition flat_unit_rate :: "gateway_token_prices \<Rightarrow> billed_unit_kind \<Rightarrow> int option" where
  "flat_unit_rate p kind =
     (case units p of None \<Rightarrow> None
      | Some k \<Rightarrow> if unit_kind k \<noteq> kind then None else rate_for k '''')"

definition all_schedules :: "gateway_token_prices \<Rightarrow> token_rates list" where
  "all_schedules p = rates_of p # (case long_context p of None \<Rightarrow> [] | Some t \<Rightarrow> [rates_of t])"

definition highest_known :: "int option list \<Rightarrow> int option" where
  "highest_known rs = (if None \<in> set rs then None else Some (max_rate rs))"

definition audio_token_rates :: "gateway_token_prices \<Rightarrow> int option \<times> int option" where
  "audio_token_rates p =
     (highest_known (map input_nano_usd_per_million_tokens (all_schedules p)),
      highest_known (map output_nano_usd_per_million_tokens (all_schedules p)))"

datatype audio_surface = Speech | Transcription
datatype billing_mode_kind = Units | Tokens

definition any_token_rate :: "gateway_token_prices \<Rightarrow> bool" where
  "any_token_rate p = list_ex (\<lambda>s. input_nano_usd_per_million_tokens s \<noteq> None
     \<or> output_nano_usd_per_million_tokens s \<noteq> None) (all_schedules p)"

definition billing_mode :: "exact_model_deployment \<Rightarrow> audio_surface \<Rightarrow> billing_mode_kind option" where
  "billing_mode d surface =
     (let kind = (if surface = Speech then CHARACTER else AUDIO_SECOND);
          p = prices d
      in if flat_unit_rate p kind \<noteq> None
           then (if any_token_rate p then None else Some Units)
         else if fst (audio_token_rates p) = None \<or> snd (audio_token_rates p) = None then None
         else if maximum_output_tokens d = None then None
         else Some Tokens)"

text \<open>The token leg speech and transcription share.\<close>

definition audio_token_ceiling ::
    "int \<Rightarrow> int option \<Rightarrow> int option \<Rightarrow> int option \<Rightarrow> string \<Rightarrow> py_error + int option" where
  "audio_token_ceiling n_in input_rate output_rate maximum what =
     (case (input_rate, output_rate, maximum) of
        (Some i, Some out, Some m) \<Rightarrow>
          priced (require_representable_nano_usd (ceil_million (n_in * i + m * out)) what)
      | _ \<Rightarrow> Inr None)"

definition speech_ceiling_nano_usd :: "int \<Rightarrow> int option \<Rightarrow> int \<Rightarrow> int option \<Rightarrow> int option \<Rightarrow>
    int option \<Rightarrow> py_error + int option" where
  "speech_ceiling_nano_usd characters unit_rate n_in input_rate output_rate maximum =
     (case unit_rate of
        Some r \<Rightarrow> priced (require_representable_nano_usd (characters * r) ''speech reservation ceiling'')
      | None \<Rightarrow> audio_token_ceiling n_in input_rate output_rate maximum
                  ''speech reservation ceiling'')"

definition maximum_audio_seconds :: "int \<Rightarrow> int" where
  "maximum_audio_seconds duration_milli = (duration_milli + 999) div 1000 + 1"

definition transcription_ceiling_nano_usd :: "int \<Rightarrow> int option \<Rightarrow> int \<Rightarrow> int option \<Rightarrow> int option \<Rightarrow>
    int option \<Rightarrow> py_error + int option" where
  "transcription_ceiling_nano_usd duration_milli unit_rate n_in input_rate output_rate maximum =
     (case unit_rate of
        Some r \<Rightarrow> priced (require_representable_nano_usd (maximum_audio_seconds duration_milli * r)
                    ''transcription reservation ceiling'')
      | None \<Rightarrow> audio_token_ceiling n_in input_rate output_rate maximum
                  ''transcription reservation ceiling'')"

definition VIDEO_SIZES :: "(string, string \<times> string) dict" where
  "VIDEO_SIZES =
     [(''854x480'', (''16:9'', ''480p'')), (''480x854'', (''9:16'', ''480p'')),
      (''1280x720'', (''16:9'', ''720p'')), (''720x1280'', (''9:16'', ''720p'')),
      (''1920x1080'', (''16:9'', ''1080p'')), (''1080x1920'', (''9:16'', ''1080p'')),
      (''3840x2160'', (''16:9'', ''4k'')), (''2160x3840'', (''9:16'', ''4k''))]"

definition resolution :: "string \<Rightarrow> py_error + string" where
  "resolution sz = (case dget VIDEO_SIZES sz of None \<Rightarrow> Inl (KeyLookupError sz) | Some e \<Rightarrow> Inr (snd e))"

definition video_unit_rate :: "gateway_token_prices \<Rightarrow> string \<Rightarrow> int option" where
  "video_unit_rate p res =
     (case units p of None \<Rightarrow> None
      | Some k \<Rightarrow> if unit_kind k \<noteq> VIDEO_SECOND then None else rate_for k res)"

definition video_ceiling_nano_usd :: "int \<Rightarrow> int option \<Rightarrow> py_error + int option" where
  "video_ceiling_nano_usd secs rate =
     (case rate of None \<Rightarrow> Inr None
      | Some r \<Rightarrow> priced (require_representable_nano_usd (secs * r) ''video reservation''))"

section \<open>The token ceiling\<close>

definition LONG_CONTEXT_TIER_MARGIN_PERCENT :: int where
  "LONG_CONTEXT_TIER_MARGIN_PERCENT = 20"

definition reservation_schedules :: "gateway_token_prices \<Rightarrow> int \<Rightarrow> token_rates list" where
  "reservation_schedules p n_in =
     (case long_context p of None \<Rightarrow> [rates_of p]
      | Some tier \<Rightarrow>
          if n_in * 100 < input_threshold_tokens tier * (100 - LONG_CONTEXT_TIER_MARGIN_PERCENT)
          then [rates_of p] else [rates_of p, rates_of tier])"

definition required_rates :: "exact_model_deployment \<Rightarrow> serving_request \<Rightarrow> token_rates \<Rightarrow> int option list" where
  "required_rates d r s =
     [input_nano_usd_per_million_tokens s, output_nano_usd_per_million_tokens s]
     @ (if reports_cached_input_tokens d then [cached_input_nano_usd_per_million_tokens s] else [])
     @ (if reports_cache_creation_input_tokens d
        then [cache_creation_input_nano_usd_per_million_tokens s]
          @ (if hour_cache r then [cache_creation_1h_input_nano_usd_per_million_tokens s] else [])
        else [])
     @ (if reports_reasoning_tokens d then [reasoning_nano_usd_per_million_tokens s] else [])"

definition input_rate_candidates :: "exact_model_deployment \<Rightarrow> serving_request \<Rightarrow> token_rates \<Rightarrow> int option list" where
  "input_rate_candidates d r s =
     [input_nano_usd_per_million_tokens s,
      cached_input_nano_usd_per_million_tokens s,
      if reports_cache_creation_input_tokens d then cache_creation_input_nano_usd_per_million_tokens s else None,
      if reports_cache_creation_input_tokens d \<and> hour_cache r
        then cache_creation_1h_input_nano_usd_per_million_tokens s else None,
      if twelve_hour_cache r
        then twelve_hour_write_rate (cache_creation_12h_input_nano_usd_per_million_tokens s)
               (input_nano_usd_per_million_tokens s)
        else None]"

definition output_rate_candidates :: "token_rates \<Rightarrow> int option list" where
  "output_rate_candidates s =
     [output_nano_usd_per_million_tokens s, reasoning_nano_usd_per_million_tokens s,
      image_output_nano_usd_per_million_tokens s]"

text \<open>Both maxima range over at least one known rate: the required rates were checked first.\<close>

definition token_attempt_cost_nano_usd ::
    "serving_request \<Rightarrow> exact_model_deployment \<Rightarrow> int \<Rightarrow> int \<Rightarrow> py_error + int option" where
  "token_attempt_cost_nano_usd r d n_in n_out =
     (let schedules = reservation_schedules (prices d) n_in
      in if list_ex (\<lambda>s. None \<in> set (required_rates d r s)) schedules then Inr None
         else
           let input_rate = max_rate (concat (map (input_rate_candidates d r) schedules));
               output_rate = max_rate (concat (map output_rate_candidates schedules))
           in priced (require_representable_nano_usd
                (ceil_million (n_in * input_rate + n_out * output_rate))
                ''attempt reservation ceiling''))"

definition maximum_attempt_cost_nano_usd ::
    "serving_request \<Rightarrow> exact_model_deployment \<Rightarrow> int \<Rightarrow> int \<Rightarrow> py_error + int option" where
  "maximum_attempt_cost_nano_usd r d n_in n_out =
     (let p = prices d; (input_rate, output_rate) = audio_token_rates p
      in case r of
        Embeddings_Request \<Rightarrow>
          embeddings_input_ceiling_nano_usd n_in (input_nano_usd_per_million_tokens p)
      | Images_Request n sz quality \<Rightarrow>
          images_ceiling_nano_usd n n_in (input_nano_usd_per_million_tokens p)
            (output_nano_usd_per_million_tokens p) (per_image_rate p (image_variant quality sz))
      | Speech_Request characters \<Rightarrow>
          speech_ceiling_nano_usd characters (flat_unit_rate p CHARACTER) n_in
            input_rate output_rate (maximum_output_tokens d)
      | Transcription_Request duration_milli \<Rightarrow>
          transcription_ceiling_nano_usd duration_milli (flat_unit_rate p AUDIO_SECOND) n_in
            input_rate output_rate (maximum_output_tokens d)
      | Video_Request secs sz \<Rightarrow>
          rbind (resolution sz) (\<lambda>res. video_ceiling_nano_usd secs (video_unit_rate p res))
      | _ \<Rightarrow> token_attempt_cost_nano_usd r d n_in n_out)"

section \<open>Lemmas\<close>

lemma priced_Inr [result_simps]:
  "priced (require_representable_nano_usd c w) = Inr x \<longleftrightarrow> x = Some c \<and> c \<le> MAXIMUM_NANO_USD"
  by (auto simp: priced_def require_representable_nano_usd_def)

text \<open>A schedule the observed input selects was reachable for any estimate no smaller.\<close>

lemma select_schedule_reserved:
  assumes "n \<le> m" and "0 \<le> m"
  shows "select_schedule p n \<in> set (reservation_schedules p m)"
proof -
  have "\<not> m * 100 < t * 80" if "t \<le> n" for t :: int
    using assms that by linarith
  then show ?thesis
    by (auto simp: select_schedule_def reservation_schedules_def LONG_CONTEXT_TIER_MARGIN_PERCENT_def
        split: option.splits)
qed

lemma reservation_schedules_nonneg:
  "card_rates_ok p \<Longrightarrow> s \<in> set (reservation_schedules p m) \<Longrightarrow> list_all (opt_ge 0) (token_rate_fields s)"
  by (auto simp: card_rates_ok_def reservation_schedules_def rates_ok_nonneg split: option.splits if_splits)

lemma candidates_nonneg:
  assumes "list_all (opt_ge 0) (token_rate_fields s)"
  shows "list_all (opt_ge 0) (input_rate_candidates d r s)" "list_all (opt_ge 0) (output_rate_candidates s)"
  using assms
  by (auto simp: token_rate_fields_def input_rate_candidates_def output_rate_candidates_def
      twelve_hour_write_rate_def split: option.splits)

lemma concat_nonneg:
  "(\<And>s. s \<in> set ss \<Longrightarrow> list_all (opt_ge 0) (f s)) \<Longrightarrow> list_all (opt_ge 0) (concat (map f ss))"
  by (induction ss) auto

lemma max_rate_concat:
  assumes "\<And>s. s \<in> set ss \<Longrightarrow> list_all (opt_ge 0) (f s)" and "s \<in> set ss" and "r \<in> set (f s)"
  shows "or0 r \<le> max_rate (concat (map f ss))"
  using assms(2,3) by (intro or0_le_max_rate concat_nonneg assms(1)) auto

text \<open>Billed quantities up to a whole number of units cost at most that many units.\<close>

lemma unit_cost_le:
  assumes "q \<le> 1000 * k" and "0 \<le> r"
  shows "(q * r + 500) div 1000 \<le> k * (r :: int)"
proof -
  have "q * r \<le> 1000 * k * r" using assms by (intro mult_right_mono)
  then have "(q * r + 500) div 1000 \<le> (1000 * (k * r) + 500) div 1000"
    by (intro zdiv_mono1) (auto simp: algebra_simps)
  also have "\<dots> = k * r" by simp
  finally show ?thesis .
qed

text \<open>What the provider may report for a request: write subsets only where they were reserved.\<close>

definition usage_within :: "serving_request \<Rightarrow> exact_model_deployment \<Rightarrow> int \<Rightarrow> int \<Rightarrow> gateway_usage \<Rightarrow> bool" where
  "usage_within r d n_in n_out u \<longleftrightarrow>
     gateway_usage_ok u \<and> gu_billed_units u = None
     \<and> or0 (gu_input_tokens u) \<le> n_in \<and> or0 (gu_output_tokens u) \<le> n_out
     \<and> (or0 (gu_cache_creation_input_tokens u) = 0 \<or> reports_cache_creation_input_tokens d)
     \<and> (or0 (gu_cache_creation_1h_input_tokens u) = 0 \<or> hour_cache r)
     \<and> (or0 (gu_cache_creation_12h_input_tokens u) = 0 \<or> twelve_hour_cache r)"

definition no_authored_12h :: "gateway_token_prices \<Rightarrow> bool" where
  "no_authored_12h p = list_all (\<lambda>s. cache_creation_12h_input_nano_usd_per_million_tokens s = None)
     (all_schedules p)"

lemma select_schedule_no_12h:
  "no_authored_12h p \<Longrightarrow> cache_creation_12h_input_nano_usd_per_million_tokens (select_schedule p n) = None"
  by (auto simp: no_authored_12h_def all_schedules_def select_schedule_def split: option.splits)

text \<open>Every dimension of the settled schedule with a token in it has its rate among the candidates.\<close>

lemma settled_rates_reserved:
  fixes s :: token_rates and d :: exact_model_deployment
  defines "s' \<equiv> s\<lparr>cache_creation_12h_input_nano_usd_per_million_tokens := None,
      image_output_nano_usd_per_million_tokens := None\<rparr>"
  assumes w: "usage_within r d n_in n_out u" and c: "counts_ok (gateway_counts u a b)"
    and h: "cache_creation_12h_input_nano_usd_per_million_tokens s = None"
    and I: "\<And>x. x \<in> set (input_rate_candidates d r s) \<Longrightarrow> or0 x \<le> A"
    and O: "\<And>x. x \<in> set (output_rate_candidates s) \<Longrightarrow> or0 x \<le> B"
  shows "list_all (\<lambda>(n, r). 0 < n \<longrightarrow> or0 r \<le> A) (take 5 (dimensions (gateway_counts u a b) s'))"
    and "list_all (\<lambda>(n, r). 0 < n \<longrightarrow> or0 r \<le> B) (drop 5 (dimensions (gateway_counts u a b) s'))"
proof -
  let ?c = "gateway_counts u a b"
  have f: "n_written ?c = gu_cache_creation_input_tokens u" "n_hour ?c = gu_cache_creation_1h_input_tokens u"
    "n_half_day ?c = gu_cache_creation_12h_input_tokens u"
    by (simp_all add: gateway_counts_def)
  have W: "written_part ?c \<le> 0" if "\<not> reports_cache_creation_input_tokens d"
    using w that by (auto simp: written_part_def f usage_within_def)
  have H: "hour_part ?c \<le> 0" if "\<not> (reports_cache_creation_input_tokens d \<and> hour_cache r)"
    using w that W by (auto simp: hour_part_def f usage_within_def)
  have D: "half_day_part ?c \<le> 0" if "\<not> twelve_hour_cache r"
    using w that by (auto simp: half_day_part_def f usage_within_def)
  have base: "or0 (input_nano_usd_per_million_tokens s) \<le> A" "or0 (cached_input_nano_usd_per_million_tokens s) \<le> A"
    by (rule I, simp add: input_rate_candidates_def)+
  have wr: "or0 (cache_creation_input_nano_usd_per_million_tokens s) \<le> A" if "reports_cache_creation_input_tokens d"
    using that by (intro I) (simp add: input_rate_candidates_def)
  have hr: "or0 (cache_creation_1h_input_nano_usd_per_million_tokens s) \<le> A"
    if "reports_cache_creation_input_tokens d \<and> hour_cache r"
    using that by (intro I) (simp add: input_rate_candidates_def)
  have hd: "or0 (twelve_hour_write_rate None (input_nano_usd_per_million_tokens s)) \<le> A" if "twelve_hour_cache r"
    using that h by (intro I) (simp add: input_rate_candidates_def)
  have w0: "written_part ?c - hour_part ?c - half_day_part ?c \<le> 0" if "\<not> reports_cache_creation_input_tokens d"
    using W [OF that] input_parts(3,4) [OF c] by linarith
  have "0 < n \<longrightarrow> or0 x \<le> A" if "P \<Longrightarrow> or0 x \<le> A" "\<not> P \<Longrightarrow> n \<le> 0" for n :: int and x P
    using that by (cases P) (auto simp: not_less)
  note lift = this
  show "list_all (\<lambda>(n, r). 0 < n \<longrightarrow> or0 r \<le> A) (take 5 (dimensions ?c s'))"
    using base lift [OF wr w0, of "reports_cache_creation_input_tokens d"]
      lift [OF hr H, of "reports_cache_creation_input_tokens d \<and> hour_cache r"]
      lift [OF hd D, of "twelve_hour_cache r"]
    by (simp add: dimensions_def s'_def)
  have "image_part ?c s' = 0" by (simp add: image_part_def s'_def)
  then show "list_all (\<lambda>(n, r). 0 < n \<longrightarrow> or0 r \<le> B) (drop 5 (dimensions ?c s'))"
    using O by (auto simp: dimensions_def s'_def output_rate_candidates_def)
qed

text \<open>The ceiling covers any reported usage within the reserved counts, priced at the schedule its input selects.\<close>

lemma token_ceiling_covers:
  assumes reserved: "token_attempt_cost_nano_usd r d n_in n_out = Inr (Some cap)"
    and ab: "gu_input_tokens u = Some a" "gu_output_tokens u = Some b"
    and c: "token_cost_nano_usd (gateway_counts u a b)
      ((select_schedule (prices d) a)\<lparr>cache_creation_12h_input_nano_usd_per_million_tokens := None,
         image_output_nano_usd_per_million_tokens := None\<rparr>) = Some c"
    and within: "usage_within r d n_in n_out u"
    and card: "card_rates_ok (prices d)" "no_authored_12h (prices d)"
  shows "c \<le> cap"
proof -
  let ?ss = "reservation_schedules (prices d) n_in"
  define A where "A = max_rate (concat (map (input_rate_candidates d r) ?ss))"
  define B where "B = max_rate (concat (map output_rate_candidates ?ss))"
  have cap: "cap = ceil_million (n_in * A + n_out * B)"
    using reserved by (auto simp: token_attempt_cost_nano_usd_def priced_Inr Let_def A_def B_def split: if_splits)
  let ?s = "select_schedule (prices d) a"
  let ?s' = "?s\<lparr>cache_creation_12h_input_nano_usd_per_million_tokens := None,
      image_output_nano_usd_per_million_tokens := None\<rparr>"
  have ok: "counts_ok (gateway_counts u a b)" and le: "a \<le> n_in" "b \<le> n_out" "0 \<le> a"
    using within ab by (auto simp: usage_within_def gateway_counts_ok gateway_usage_ok_def)
  have s: "?s \<in> set ?ss" using le by (intro select_schedule_reserved) auto
  note nn = candidates_nonneg [OF reservation_schedules_nonneg [OF card(1)]]
  have I: "or0 x \<le> A" if "x \<in> set (input_rate_candidates d r ?s)" for x
    unfolding A_def by (rule max_rate_concat [OF _ s]) (auto intro: nn(1) that)
  have O: "or0 x \<le> B" if "x \<in> set (output_rate_candidates ?s)" for x
    unfolding B_def by (rule max_rate_concat [OF _ s]) (auto intro: nn(2) that)
  have AB: "0 \<le> A" "0 \<le> B"
    unfolding A_def B_def by (intro max_rate_nonneg concat_nonneg nn, assumption)+
  note rates = settled_rates_reserved [OF within ok select_schedule_no_12h [OF card(2)] I O]
  have "numerator (dimensions (gateway_counts u a b) ?s')
      \<le> n_input (gateway_counts u a b) * A + n_output (gateway_counts u a b) * B"
    by (rule numerator_le [OF ok rates])
  also have "\<dots> = a * A + b * B" by (simp add: gateway_counts_def)
  also have "\<dots> \<le> n_in * A + n_out * B"
    using le AB by (intro add_mono mult_right_mono) auto
  finally show ?thesis
    unfolding token_cost_Some(1) [OF c] cap ceil_million_def by (rule half_up_le_ceiling)
qed

section \<open>Sample deployments\<close>

definition sample_deployment :: "gateway_token_prices \<Rightarrow> exact_model_deployment" where
  "sample_deployment p =
     \<lparr>deployment_id = ''d'', source_alias = ''m'', exact_model_id = ''m'', provider = ''openai'',
      connection_sha256 = ''c'', dep_billing_source = HOST_MANAGED, maximum_output_tokens = Some 4096,
      context_window_tokens = None,
      emits_images = False, reports_cached_input_tokens = True, reports_cache_creation_input_tokens = True,
      reports_reasoning_tokens = True, failover_only_on = None, prices = p, dispatch = None\<rparr>"

definition sample_gateway_usage :: "int \<Rightarrow> int \<Rightarrow> int \<Rightarrow> gateway_usage" where
  "sample_gateway_usage i half_day out =
     \<lparr>gu_input_tokens = Some i, gu_output_tokens = Some out, gu_cached_input_tokens = Some 0,
      gu_cache_creation_input_tokens = Some half_day, gu_cache_creation_1h_input_tokens = Some 0,
      gu_cache_creation_12h_input_tokens = Some half_day, gu_reasoning_tokens = Some 0,
      gu_image_output_tokens = None, gu_tool_names = [], gu_web_search_requests = 0,
      gu_web_search_results = None, gu_web_search_cost_nano_usd = None, gu_tool_search_requests = 0,
      gu_billed_units = None\<rparr>"

lemmas reservation_eval = token_attempt_cost_nano_usd_def reservation_schedules_def required_rates_def
  input_rate_candidates_def output_rate_candidates_def hour_cache_def twelve_hour_cache_def
  ceil_million_def priced_def require_representable_nano_usd_def MAXIMUM_NANO_USD_def max_rate_def
  List.map_filter_def rates_of_def token_rates.truncate_def sample_deployment_def

lemmas settlement_eval = observed_usage_cost_def frozen_usage_cost_def estimated_cost_nano_usd_def
  representable_option_def require_representable_nano_usd_def MAXIMUM_NANO_USD_def observed_prefix_def
  row_rates_def frozen_schedule_def insert_attempt_prices_def long_context_values_def freeze_rates_def
  gateway_counts_def sample_gateway_usage_def

section \<open>Properties\<close>




text \<open>The unit kind, priced variant and largest billed quantity of a unit-priced request.\<close>

definition unit_bound :: "serving_request \<Rightarrow> (billed_unit_kind \<times> string \<times> int) option" where
  "unit_bound r =
     (case r of
        Images_Request n sz quality \<Rightarrow> Some (IMAGE, image_variant quality sz, 1000 * n)
      | Speech_Request characters \<Rightarrow> Some (CHARACTER, '''', 1000 * characters)
      | Transcription_Request duration_milli \<Rightarrow>
          Some (AUDIO_SECOND, '''', 1000 * maximum_audio_seconds duration_milli)
      | Video_Request secs sz \<Rightarrow>
          (case resolution sz of Inl _ \<Rightarrow> None | Inr res \<Rightarrow> Some (VIDEO_SECOND, res, 1000 * secs))
      | _ \<Rightarrow> None)"

definition unit_card_ok :: "gateway_unit_prices option \<Rightarrow> bool" where
  "unit_card_ok c = (case c of None \<Rightarrow> True | Some k \<Rightarrow> bounded_rates (rates k) = Inr ())"

lemma bounded_rates_nonneg: "bounded_rates d = Inr () \<Longrightarrow> (v, r) \<in> set d \<Longrightarrow> 0 \<le> r"
  unfolding bounded_rates_def
  by (induction d) (auto simp: rbind_eq_Inr_iff unit_rate_entry_ok_def split: if_splits)

lemma rate_for_nonneg: "bounded_rates (rates k) = Inr () \<Longrightarrow> rate_for k v = Some r \<Longrightarrow> 0 \<le> r"
  by (auto simp: rate_for_def split: option.splits intro: bounded_rates_nonneg dest!: dget_in_set)

lemma unit_rate_known:
  "unit_rate_nano_usd b c = Some r \<longleftrightarrow>
   (\<exists>k. c = Some k \<and> unit_kind k = billed_kind b \<and> rate_for k (billed_variant b) = Some r)"
  by (auto simp: unit_rate_nano_usd_def split: option.splits if_splits)

text \<open>
  C26. A unit-priced lane reserves at least what it can settle: for image, speech, transcription and
  video requests, when the ceiling is known and the attempt bills the request's own unit kind and variant,
  at most the requested images, characters, bounded seconds or video seconds, the settled unit cost is
  at most the reserved ceiling.
\<close>

theorem unit_reservation_covers_settlement:
  assumes "maximum_attempt_cost_nano_usd r d n_in n_out = Inr (Some cap)"
    and "unit_bound r = Some (billed_kind b, billed_variant b, bound)" and "quantity_milli b \<le> bound"
    and "unit_card_ok (units (prices d))"
    and "unit_cost_nano_usd b (unit_rate_nano_usd b (units (prices d))) = Inr (Some c)"
  shows "c \<le> cap"
proof -
  from assms(5) obtain k rate where k: "units (prices d) = Some k" "unit_kind k = billed_kind b"
      "rate_for k (billed_variant b) = Some rate" and c: "c = (quantity_milli b * rate + 500) div 1000"
    by (auto simp: unit_cost_Some unit_rate_known)
  have rate: "0 \<le> rate" using assms(4) k by (auto simp: unit_card_ok_def intro: rate_for_nonneg)
  from assms(1,2) k obtain n where n: "bound = 1000 * n" "cap = n * rate"
    by (cases r)
      (auto simp: maximum_attempt_cost_nano_usd_def unit_bound_def images_ceiling_nano_usd_def per_image_rate_def
        speech_ceiling_nano_usd_def transcription_ceiling_nano_usd_def flat_unit_rate_def video_ceiling_nano_usd_def
        video_unit_rate_def priced_Inr rbind_eq_Inr_iff Let_def split: sum.splits prod.splits)
  show ?thesis unfolding c n(2) using assms(3) n(1) rate by (intro unit_cost_le) simp_all
qed

theorem unit_reservation_covers_settlement_witness:
  "let d = sample_deployment ((sample_card 1 1 1)\<lparr>units := Some \<lparr>unit_kind = AUDIO_SECOND, rates = [('''', 100000)]\<rparr>\<rparr>)
   in maximum_attempt_cost_nano_usd (Transcription_Request 12300) d 0 0 = Inr (Some 1400000)
    \<and> (1230000 :: int) \<le> 1400000"
proof -
  let ?d = "sample_deployment ((sample_card 1 1 1)\<lparr>units := Some \<lparr>unit_kind = AUDIO_SECOND, rates = [('''', 100000)]\<rparr>\<rparr>)"
  let ?b = "\<lparr>billed_kind = AUDIO_SECOND, billed_variant = '''', quantity_milli = 12300\<rparr>"
  have m: "maximum_attempt_cost_nano_usd (Transcription_Request 12300) ?d 0 0 = Inr (Some 1400000)"
    by (simp add: maximum_attempt_cost_nano_usd_def transcription_ceiling_nano_usd_def flat_unit_rate_def
        rate_for_def dget_def sample_deployment_def maximum_audio_seconds_def priced_Inr MAXIMUM_NANO_USD_def Let_def
        split: prod.splits)
  have "1230000 \<le> (1400000 :: int)"
    by (rule unit_reservation_covers_settlement [OF m, of ?b 14000])
      (simp_all add: unit_bound_def maximum_audio_seconds_def unit_card_ok_def bounded_rates_def unit_rate_entry_ok_def
        MAXIMUM_UNIT_VARIANT_CHARACTERS_def MAXIMUM_RATE_NANO_USD_PER_UNIT_def sample_deployment_def
        unit_cost_Some unit_rate_known rate_for_def dget_def MAXIMUM_NANO_USD_def)
  with m show ?thesis by simp
qed

text \<open>
  An audio lane that may serve bills by exactly one meter and its reservation is never unknown:
  \<open>billing_mode\<close> answers \<open>units\<close> only for a lane with no token rate on any schedule, \<open>tokens\<close> only for a lane
  with no flat unit rate of the surface's kind, and in both cases \<open>maximum_attempt_cost_nano_usd\<close> yields a
  known ceiling or refuses an unrepresentable one.
\<close>

lemma audio_billing_mode_prices_reservation:
  assumes "billing_mode d surface = Some mode"
  shows "(mode = Units) = (\<not> any_token_rate (prices d))
    \<and> (mode = Tokens) = (flat_unit_rate (prices d) (if surface = Speech then CHARACTER else AUDIO_SECOND) = None)
    \<and> maximum_attempt_cost_nano_usd
       (if surface = Speech then Speech_Request n else Transcription_Request n) d n_in n_out \<noteq> Inr None"
proof (cases mode)
  case Units
  with assms show ?thesis
    by (auto simp: billing_mode_def maximum_attempt_cost_nano_usd_def speech_ceiling_nano_usd_def
        transcription_ceiling_nano_usd_def priced_Inr Let_def split: if_splits prod.splits)
next
  case Tokens
  with assms obtain i out m where t: "audio_token_rates (prices d) = (Some i, Some out)"
      "maximum_output_tokens d = Some m"
      "flat_unit_rate (prices d) (if surface = Speech then CHARACTER else AUDIO_SECOND) = None"
    by (cases "audio_token_rates (prices d)") (auto simp: billing_mode_def Let_def split: if_splits)
  then have "any_token_rate (prices d)"
    by (auto simp: any_token_rate_def audio_token_rates_def all_schedules_def highest_known_def split: if_splits)
  with Tokens t show ?thesis
    by (auto simp: maximum_attempt_cost_nano_usd_def speech_ceiling_nano_usd_def
        transcription_ceiling_nano_usd_def audio_token_ceiling_def priced_Inr split: if_splits)
qed

end
