(* ===== verification/Sticky_Affinity.thy ===== *)
theory Sticky_Affinity
  imports Waterfall Attempt_Costs
begin

text \<open>
  Worker-local bindings of conversation fingerprints to serving rungs
  (\<^verbatim>\<open>src/exp/runtime/gateway/sticky_affinity.py\<close>): a bounded least-recently-used dictionary whose entries lapse when idle
  for their lifetime, and at the latest four lifetimes after they were made. A fingerprint is a byte string; the
  \<open>OrderedDict\<close> is an association list, oldest entry first.
\<close>

section \<open>The registry\<close>

definition STICKY_MAXIMUM_AGE_LIFETIMES :: real where "STICKY_MAXIMUM_AGE_LIFETIMES = 4"
definition MAXIMUM_BINDINGS :: int where "MAXIMUM_BINDINGS = 65536"

type_synonym fingerprint = string

text \<open>Deployment, expiry and age deadline.\<close>

type_synonym sticky_binding = "string \<times> seconds \<times> seconds"

record sticky_registry =
  sk_maximum :: int
  sk_bindings :: "(fingerprint, sticky_binding) dict"

definition new_sticky_registry :: "int \<Rightarrow> py_error + sticky_registry" where
  "new_sticky_registry maximum_bindings =
     (if maximum_bindings < 1 then Inl (ValueError ''sticky binding capacity must be positive'')
      else Inr \<lparr>sk_maximum = maximum_bindings, sk_bindings = []\<rparr>)"

definition move_to_end :: "'k \<Rightarrow> ('k, 'v) dict \<Rightarrow> ('k, 'v) dict" where
  "move_to_end k d = (case dget d k of None \<Rightarrow> d | Some v \<Rightarrow> dpop k d @ [(k, v)])"

fun evict_oldest :: "int \<Rightarrow> ('k, 'v) dict \<Rightarrow> ('k, 'v) dict" where
  "evict_oldest maximum [] = []"
| "evict_oldest maximum (e # d) = (if int (length (e # d)) > maximum then evict_oldest maximum d else e # d)"

definition sticky_bind :: "fingerprint \<Rightarrow> string \<Rightarrow> seconds \<Rightarrow> seconds \<Rightarrow> sticky_registry \<Rightarrow> sticky_registry" where
  "sticky_bind fp d ttl now r =
     (if ttl \<le> 0 then r
      else
        (let expires_at = now + ttl;
             age_deadline = (case dget (sk_bindings r) fp of
                 Some (bound, _, age) \<Rightarrow> if bound = d then age else now + STICKY_MAXIMUM_AGE_LIFETIMES * ttl
               | None \<Rightarrow> now + STICKY_MAXIMUM_AGE_LIFETIMES * ttl)
         in r\<lparr>sk_bindings := evict_oldest (sk_maximum r)
                (move_to_end fp (dset fp (d, min expires_at age_deadline, age_deadline) (sk_bindings r)))\<rparr>))"

definition bound_deployment :: "fingerprint \<Rightarrow> seconds \<Rightarrow> sticky_registry \<Rightarrow> string option \<times> sticky_registry" where
  "bound_deployment fp now r =
     (case dget (sk_bindings r) fp of
        None \<Rightarrow> (None, r)
      | Some (d, expires_at, _) \<Rightarrow>
          if expires_at \<le> now then (None, r\<lparr>sk_bindings := dpop fp (sk_bindings r)\<rparr>) else (Some d, r))"

definition sticky_clear :: "fingerprint \<Rightarrow> sticky_registry \<Rightarrow> sticky_registry" where
  "sticky_clear fp r = r\<lparr>sk_bindings := dpop fp (sk_bindings r)\<rparr>"

definition sticky_size :: "sticky_registry \<Rightarrow> int" where
  "sticky_size r = int (length (sk_bindings r))"

section \<open>Placement\<close>

text \<open>The first route index that carries the bound deployment.\<close>

definition deployment_index :: "gateway_route \<Rightarrow> string \<Rightarrow> nat option" where
  "deployment_index route d_id = find (\<lambda>i. deployment_id (deployments route ! i) = d_id) [0..<length (deployments route)]"

text \<open>\<open>perm\<close> is a permutation of the route's indexes, so it is never empty. \<open>now\<close> is the sticky clock's reading,
  \<open>health_now\<close> the health registry's.\<close>

definition sticky_first_order ::
    "nat list \<Rightarrow> gateway_route \<Rightarrow> fingerprint \<Rightarrow> health_registry \<Rightarrow> authorization_snapshot \<Rightarrow> seconds \<Rightarrow> seconds
      \<Rightarrow> sticky_registry \<Rightarrow> (nat list \<times> nat option \<times> string option) \<times> sticky_registry" where
  "sticky_first_order perm route fp health auth now health_now sticky =
     (case bound_deployment fp now sticky of
        (None, s) \<Rightarrow> ((perm, None, None), s)
      | (Some bound, s) \<Rightarrow>
          (case deployment_index route bound of
             None \<Rightarrow> ((perm, None, None), s)
           | Some i \<Rightarrow>
               if suppressed health (deployment_health_key (auth_catalog_sha256 auth) (deployments route ! i)) health_now
                 then ((perm, None, None), sticky_clear fp s)
               else if hd perm = i then ((perm, None, Some bound), s)
               else ((i # filter (\<lambda>j. j \<noteq> i) perm, Some i, Some bound), s)))"

section \<open>Steps\<close>

datatype sticky_op =
    Sticky_Bind fingerprint string seconds seconds
  | Sticky_Read fingerprint seconds
  | Sticky_Clear fingerprint

fun sticky_step :: "sticky_op \<Rightarrow> sticky_registry \<Rightarrow> sticky_registry" where
  "sticky_step (Sticky_Bind fp d ttl now) r = sticky_bind fp d ttl now r"
| "sticky_step (Sticky_Read fp now) r = snd (bound_deployment fp now r)"
| "sticky_step (Sticky_Clear fp) r = sticky_clear fp r"

section \<open>Lemmas\<close>

lemma evict_oldest_drop: "0 \<le> m \<Longrightarrow> evict_oldest m d = drop (length d - nat m) d"
proof (induction m d rule: evict_oldest.induct)
  case (2 m e d)
  then show ?case
    by (cases "int (length (e # d)) > m") (auto simp: Suc_diff_le nat_le_iff le_nat_iff)
qed simp

lemma dkeys_move_to_end: "dkeys_distinct d \<Longrightarrow> dkeys_distinct (move_to_end k d)"
  by (auto simp: move_to_end_def dkeys_distinct_def dpop_eq_filter distinct_map_filter split: option.split)

lemma dget_append: "dget (d @ e) k = (case dget d k of None \<Rightarrow> dget e k | Some v \<Rightarrow> Some v)"
  by (simp add: dget_def map_add_def split: option.split)

lemma move_to_end_dset: "move_to_end k (dset k v d) = dpop k (dset k v d) @ [(k, v)]"
  by (simp add: move_to_end_def)

lemma dget_move_to_end [simp]: "dget (move_to_end k d) j = dget d j"
  by (auto simp: move_to_end_def dget_append split: option.splits) (auto simp: dget_def)

definition sticky_inv :: "sticky_registry \<Rightarrow> bool" where
  "sticky_inv r \<longleftrightarrow> 1 \<le> sk_maximum r \<and> dkeys_distinct (sk_bindings r) \<and> sticky_size r \<le> sk_maximum r
     \<and> (\<forall>(fp, d, expires, age) \<in> set (sk_bindings r). expires \<le> age)"

lemma set_dpop_subset: "set (dpop k d) \<subseteq> set d"
  by (auto simp: dpop_eq_filter)

lemma set_dset_bound: "set (dset k v d) \<subseteq> insert (k, v) (set d)"
  unfolding dset_def by (induction d) auto

text \<open>What a binding leaves: the fingerprint is the most recent entry, the oldest entries are evicted.\<close>

lemma sticky_bind_entries:
  assumes "0 < ttl" and "1 \<le> sk_maximum r"
  obtains age rest where "sk_bindings (sticky_bind fp d ttl now r) = rest @ [(fp, d, min (now + ttl) age, age)]"
    "rest = drop (length (dpop fp (sk_bindings r)) - nat (sk_maximum r - 1)) (dpop fp (sk_bindings r))"
    "age = (case dget (sk_bindings r) fp of
       Some (bound, _, a) \<Rightarrow> if bound = d then a else now + STICKY_MAXIMUM_AGE_LIFETIMES * ttl
     | None \<Rightarrow> now + STICKY_MAXIMUM_AGE_LIFETIMES * ttl)"
proof -
  define age where "age = (case dget (sk_bindings r) fp of
       Some (bound, _, a) \<Rightarrow> if bound = d then a else now + STICKY_MAXIMUM_AGE_LIFETIMES * ttl
     | None \<Rightarrow> now + STICKY_MAXIMUM_AGE_LIFETIMES * ttl)"
  let ?v = "(d, min (now + ttl) age, age)" and ?rest = "dpop fp (sk_bindings r)"
  have "dpop fp (dset fp ?v (sk_bindings r)) = ?rest"
    by (simp add: dpop_def dset_def delete_update_same)
  then have "sk_bindings (sticky_bind fp d ttl now r) = evict_oldest (sk_maximum r) (?rest @ [(fp, ?v)])"
    using assms(1) by (simp add: sticky_bind_def Let_def move_to_end_dset age_def)
  also have "\<dots> = drop (length ?rest - nat (sk_maximum r - 1)) ?rest @ [(fp, ?v)]"
  proof -
    have "nat (sk_maximum r) = Suc (nat (sk_maximum r - 1))" using assms(2) by simp
    then show ?thesis using assms(2) by (simp add: evict_oldest_drop)
  qed
  finally show ?thesis using that age_def by blast
qed

lemma dkeys_distinct_snoc:
  "dkeys_distinct d \<Longrightarrow> dkeys_distinct (drop n (dpop k d) @ [(k, v)])"
  by (auto simp: dkeys_distinct_def dpop_eq_filter distinct_map_filter simp flip: drop_map dest: in_set_dropD)

lemma sticky_inv_bind:
  assumes inv: "sticky_inv r"
  shows "sticky_inv (sticky_bind fp d ttl now r)"
proof (cases "0 < ttl")
  case True
  have m: "1 \<le> sk_maximum r" using inv by (simp add: sticky_inv_def)
  obtain age rest where b: "sk_bindings (sticky_bind fp d ttl now r) = rest @ [(fp, d, min (now + ttl) age, age)]"
    and rest: "rest = drop (length (dpop fp (sk_bindings r)) - nat (sk_maximum r - 1)) (dpop fp (sk_bindings r))"
    using sticky_bind_entries [OF True m] by metis
  have "set rest \<subseteq> set (sk_bindings r)" unfolding rest using set_drop_subset set_dpop_subset by fast
  moreover have "sk_maximum (sticky_bind fp d ttl now r) = sk_maximum r" by (simp add: sticky_bind_def Let_def)
  moreover have "int (length rest) \<le> sk_maximum r - 1" using m by (simp add: rest)
  moreover have "dkeys_distinct (rest @ [(fp, d, min (now + ttl) age, age)])"
    unfolding rest using inv by (intro dkeys_distinct_snoc) (simp add: sticky_inv_def)
  ultimately show ?thesis using inv m by (auto simp: sticky_inv_def b sticky_size_def)
qed (use inv in \<open>simp add: sticky_bind_def\<close>)

lemma length_dpop_le: "length (dpop k d) \<le> length d"
  by (simp add: dpop_eq_filter)

lemma sticky_inv_pop: "sticky_inv r \<Longrightarrow> sticky_inv (r\<lparr>sk_bindings := dpop fp (sk_bindings r)\<rparr>)"
  using set_dpop_subset [of fp "sk_bindings r"] length_dpop_le [of fp "sk_bindings r"]
  by (auto simp: sticky_inv_def sticky_size_def)

lemma sticky_inv_step: "sticky_inv r \<Longrightarrow> sticky_inv (sticky_step op r)"
  by (cases op) (auto simp: sticky_inv_bind sticky_clear_def sticky_inv_pop bound_deployment_def split: option.split)

lemma sticky_component: "new_sticky_registry m = Inr start \<Longrightarrow> component sticky_step (\<lambda>_. True) start sticky_inv"
proof unfold_locales
  show "sticky_inv start" if "new_sticky_registry m = Inr start"
    using that by (auto simp: new_sticky_registry_def sticky_inv_def sticky_size_def split: if_splits)
qed (rule sticky_inv_step)

lemma reachable_maximum: "reachable sticky_step (\<lambda>_. True) start r \<Longrightarrow> sk_maximum r = sk_maximum start"
proof (induction rule: reachable.induct)
  case (step s op)
  then show ?case
    by (cases op) (auto simp: sticky_bind_def sticky_clear_def bound_deployment_def Let_def split: option.split)
qed simp

definition default_sticky_registry :: sticky_registry where
  "default_sticky_registry = \<lparr>sk_maximum = MAXIMUM_BINDINGS, sk_bindings = []\<rparr>"

lemma default_sticky_registry: "new_sticky_registry MAXIMUM_BINDINGS = Inr default_sticky_registry"
  by (simp add: new_sticky_registry_def default_sticky_registry_def MAXIMUM_BINDINGS_def)

interpretation sticky: component sticky_step "\<lambda>_. True" default_sticky_registry sticky_inv
  by (rule sticky_component [OF default_sticky_registry])

lemma dget_snoc_new: "dkeys_distinct (d @ [(k, v)]) \<Longrightarrow> dget (d @ [(k, v)]) k = Some v"
  by (rule in_set_dget) auto

lemma sticky_bind_get:
  assumes inv: "sticky_inv r" and "0 < ttl"
  obtains age where "dget (sk_bindings (sticky_bind fp d ttl now r)) fp = Some (d, min (now + ttl) age, age)"
    "age = (case dget (sk_bindings r) fp of
       Some (bound, _, a) \<Rightarrow> if bound = d then a else now + STICKY_MAXIMUM_AGE_LIFETIMES * ttl
     | None \<Rightarrow> now + STICKY_MAXIMUM_AGE_LIFETIMES * ttl)"
proof -
  have "1 \<le> sk_maximum r" using inv by (simp add: sticky_inv_def)
  then obtain age rest where "sk_bindings (sticky_bind fp d ttl now r) = rest @ [(fp, d, min (now + ttl) age, age)]"
    "age = (case dget (sk_bindings r) fp of
       Some (bound, _, a) \<Rightarrow> if bound = d then a else now + STICKY_MAXIMUM_AGE_LIFETIMES * ttl
     | None \<Rightarrow> now + STICKY_MAXIMUM_AGE_LIFETIMES * ttl)"
    using sticky_bind_entries [OF assms(2)] by metis
  moreover have "dkeys_distinct (sk_bindings (sticky_bind fp d ttl now r))"
    using sticky_inv_bind [OF inv] by (simp add: sticky_inv_def)
  ultimately show ?thesis using that dget_snoc_new by metis
qed

text \<open>Any number of refreshes of one conversation on one rung, each with its lifetime and time.\<close>

definition refresh_all :: "fingerprint \<Rightarrow> string \<Rightarrow> (seconds \<times> seconds) list \<Rightarrow> sticky_registry \<Rightarrow> sticky_registry" where
  "refresh_all fp d refreshes r = fold (\<lambda>(ttl, now). sticky_bind fp d ttl now) refreshes r"

lemma refreshes_keep_age:
  assumes "sticky_inv r" and "dget (sk_bindings r) fp = Some (d, e, age)" and "e \<le> age"
  shows "\<exists>e'. dget (sk_bindings (refresh_all fp d refreshes r)) fp = Some (d, e', age) \<and> e' \<le> age"
  using assms
proof (induction refreshes arbitrary: r e)
  case (Cons x xs)
  obtain ttl now where x: "x = (ttl, now)" by fastforce
  have "\<exists>e'. dget (sk_bindings (sticky_bind fp d ttl now r)) fp = Some (d, e', age) \<and> e' \<le> age"
  proof (cases "0 < ttl")
    case True
    from sticky_bind_get [OF Cons.prems(1) True, of fp d now] Cons.prems(2)
    obtain age' where "dget (sk_bindings (sticky_bind fp d ttl now r)) fp = Some (d, min (now + ttl) age', age')"
      "age' = age" by auto
    then show ?thesis by simp
  qed (use Cons.prems in \<open>simp add: sticky_bind_def\<close>)
  with Cons.IH [OF sticky_inv_bind [OF Cons.prems(1)]] show ?case by (auto simp: x refresh_all_def)
qed (auto simp: refresh_all_def)

section \<open>Properties\<close>

text \<open>
  C0. A sticky binding has a bounded life. In every registry reachable from an empty one the bindings never outnumber the
  capacity; a conversation bound to a rung it was not yet bound to is answered that rung until its lifetime has passed
  without a refresh; and however often and with whatever lifetimes it is refreshed on that rung, four lifetimes after it
  was made it is answered no more.
\<close>

theorem sticky_binding_lifetime:
  assumes "new_sticky_registry m = Inr start" and "reachable sticky_step (\<lambda>_. True) start r"
    and "0 < ttl" and "\<forall>e age. dget (sk_bindings r) fp \<noteq> Some (d, e, age)"
  shows "sticky_size r \<le> m
    \<and> (t < t0 + ttl \<longrightarrow> fst (bound_deployment fp t (sticky_bind fp d ttl t0 r)) = Some d)
    \<and> (t0 + STICKY_MAXIMUM_AGE_LIFETIMES * ttl \<le> t \<longrightarrow>
         fst (bound_deployment fp t (refresh_all fp d refreshes (sticky_bind fp d ttl t0 r))) = None)"
proof -
  have inv: "sticky_inv r" by (rule component.reachable_inv [OF sticky_component [OF assms(1)] assms(2)])
  have "sk_maximum start = m" using assms(1) by (auto simp: new_sticky_registry_def split: if_splits)
  with reachable_maximum [OF assms(2)] inv have size: "sticky_size r \<le> m" by (simp add: sticky_inv_def)
  let ?b = "sticky_bind fp d ttl t0 r" and ?age = "t0 + STICKY_MAXIMUM_AGE_LIFETIMES * ttl"
  have g: "dget (sk_bindings ?b) fp = Some (d, min (t0 + ttl) ?age, ?age)"
  proof (rule sticky_bind_get [OF inv assms(3), of fp d t0])
    fix age
    assume "age = (case dget (sk_bindings r) fp of
         Some (bound, _, a) \<Rightarrow> if bound = d then a else t0 + STICKY_MAXIMUM_AGE_LIFETIMES * ttl
       | None \<Rightarrow> t0 + STICKY_MAXIMUM_AGE_LIFETIMES * ttl)"
    then have "age = ?age" using assms(4) by (cases "dget (sk_bindings r) fp") auto
    moreover assume "dget (sk_bindings ?b) fp = Some (d, min (t0 + ttl) age, age)"
    ultimately show ?thesis by simp
  qed
  have le: "t0 + ttl \<le> ?age" using assms(3) by (simp add: STICKY_MAXIMUM_AGE_LIFETIMES_def)
  have "fst (bound_deployment fp t ?b) = Some d" if "t < t0 + ttl"
    using that le by (simp add: bound_deployment_def g)
  moreover have "fst (bound_deployment fp t (refresh_all fp d refreshes ?b)) = None" if "?age \<le> t"
    using refreshes_keep_age [OF sticky_inv_bind [OF inv] g, of refreshes] that
    by (auto simp: bound_deployment_def)
  ultimately show ?thesis using size by blast
qed

theorem sticky_binding_lifetime_witness:
  "fst (bound_deployment ''f'' 5 (sticky_bind ''f'' ''d'' 10 0 default_sticky_registry)) = Some ''d''
   \<and> fst (bound_deployment ''f'' 40 (refresh_all ''f'' ''d'' [(10, 9), (10, 18), (10, 27), (10, 36)]
        (sticky_bind ''f'' ''d'' 10 0 default_sticky_registry))) = None"
proof -
  have r: "reachable sticky_step (\<lambda>_. True) default_sticky_registry default_sticky_registry" by (rule reachable.intros)
  have "\<forall>e age. dget (sk_bindings default_sticky_registry) ''f'' \<noteq> Some (''d'', e, age)"
    by (simp add: default_sticky_registry_def)
  from sticky_binding_lifetime [OF default_sticky_registry r _ this, of 10 5 0]
    sticky_binding_lifetime [OF default_sticky_registry r _ this, of 10 40 0]
  show ?thesis by (simp add: STICKY_MAXIMUM_AGE_LIFETIMES_def)
qed

lemma deployment_index_Some:
  "deployment_index route b = Some i \<Longrightarrow> i < length (deployments route) \<and> deployment_id (deployments route ! i) = b"
  by (auto simp: deployment_index_def find_Some_iff)

lemma front_permutation:
  assumes "distinct perm" and "i \<in> set perm"
  shows "distinct (i # filter (\<lambda>j. j \<noteq> i) perm)" and "set (i # filter (\<lambda>j. j \<noteq> i) perm) = set perm"
  using assms by auto

text \<open>
  Stickiness reorders and never drops a rung. On a permutation of the route's depths the sticky order is again a
  permutation of them; it changes only to put in front the rung of a live binding that is neither throttled nor open, and
  every other depth keeps its place in the rendezvous order; and a binding to a suppressed rung is forgotten.
\<close>

lemma sticky_order_permutes:
  assumes perm: "distinct perm" "set perm = {..<length (deployments route)}"
    and run: "sticky_first_order perm route fp health auth now health_now sticky = ((perm', moved, warm), sticky')"
  shows "distinct perm' \<and> set perm' = set perm
    \<and> (moved = None \<longrightarrow> perm' = perm)
    \<and> (\<forall>i. moved = Some i \<longrightarrow> perm' = i # filter (\<lambda>j. j \<noteq> i) perm)
    \<and> (\<forall>b. warm = Some b \<longrightarrow> fst (bound_deployment fp now sticky) = Some b
         \<and> deployment_id (deployments route ! hd perm') = b
         \<and> \<not> suppressed health (deployment_health_key (auth_catalog_sha256 auth) (deployments route ! hd perm')) health_now)
    \<and> (\<forall>b i. fst (bound_deployment fp now sticky) = Some b \<and> deployment_index route b = Some i
         \<and> suppressed health (deployment_health_key (auth_catalog_sha256 auth) (deployments route ! i)) health_now
         \<longrightarrow> dget (sk_bindings sticky') fp = None)"
proof -
  obtain bound s where b: "bound_deployment fp now sticky = (bound, s)" by fastforce
  have "i \<in> set perm" if "deployment_index route x = Some i" for i x
    using deployment_index_Some [OF that] perm(2) by auto
  note front = front_permutation [OF perm(1) this]
  show ?thesis
    using run perm(1) front deployment_index_Some [of route]
    by (auto simp: sticky_first_order_def b sticky_clear_def split: option.splits if_splits)
qed

text \<open>A pool of three rungs, each with the given dispatch policy.\<close>

definition sample_rung :: "string \<Rightarrow> gateway_rung_dispatch_policy option \<Rightarrow> exact_model_deployment" where
  "sample_rung d policy = (sample_deployment (sample_card 100 20 400))\<lparr>deployment_id := d, dispatch := policy\<rparr>"

definition sample_route :: "gateway_rung_dispatch_policy option \<Rightarrow> gateway_route" where
  "sample_route policy =
     \<lparr>snapshot = sample_snapshot, deployment = sample_rung ''d0'' policy,
      fallback_deployments = [sample_rung ''d1'' policy, sample_rung ''d2'' policy], route_reason = ''direct'',
      fallback_reason = None, resolved_route_id = None, reasoning_pinned_deployment_id = None,
      cache_placed_deployment_id = None\<rparr>"

end
