(* ===== verification/Fleet_Lanes.thy ===== *)
theory Fleet_Lanes
  imports Contracts "HOL-Library.Multiset"
begin

text \<open>
  The bookkeeping that ties a host gate's fleet-wide leases to rung tickets and durable attempts
  (\<^verbatim>\<open>src/exp/runtime/gateway/fleet_lanes.py\<close>). The gate is the host's: its answer to an \<open>acquire\<close> is the argument
  \<open>verdict\<close>, whether a \<open>release\<close> call raised is the argument \<open>raises\<close>, and the calls made to \<open>gate.release\<close> are
  recorded in order in \<open>gate_calls\<close>. Each critical section touches the two dictionaries once, and gate calls share
  no state with them, so every method is one step.
\<close>

section \<open>Definitions\<close>

datatype fleet_lane_shed_reason = Shed_Rate | Shed_Concurrency

record fleet_lane =
  lane_deployment_id :: string
  lane_connection :: string
  lane_policy :: gateway_fleet_lane_policy

datatype gate_verdict = Gate_Raised | Gate_Shed fleet_lane_shed_reason | Gate_Lease string

record fleet_usage =
  used_tokens :: "int option"
  fu_output_tokens :: "int option"
  first_token_at :: "seconds option"

definition no_fleet_usage :: fleet_usage where
  "no_fleet_usage = \<lparr>used_tokens = None, fu_output_tokens = None, first_token_at = None\<rparr>"

record held_lease =
  held_lane :: fleet_lane
  held_id :: string
  acquired_at :: seconds
  acquired_wall :: seconds

record gate_release_call =
  released_lane :: fleet_lane
  released_lease :: string
  duration_seconds :: "seconds option"
  released_throttled :: bool
  released_used_tokens :: "int option"
  released_output_tokens :: "int option"
  first_token_seconds :: "seconds option"

record fleet_leases =
  by_ticket :: "(string, held_lease) dict"
  ticket_by_attempt :: "(string, string) dict"
  gate_errors :: int
  gate_sheds :: int
  gate_calls :: "gate_release_call list"

definition new_fleet_leases :: fleet_leases where
  "new_fleet_leases = \<lparr>by_ticket = [], ticket_by_attempt = [], gate_errors = 0, gate_sheds = 0, gate_calls = []\<rparr>"

text \<open>\<open>None\<close> is an admitted dispatch, with or without a lease.\<close>

definition fleet_acquire_lease ::
    "string \<Rightarrow> fleet_lane \<Rightarrow> gate_verdict \<Rightarrow> seconds \<Rightarrow> seconds \<Rightarrow> fleet_leases
      \<Rightarrow> fleet_lane_shed_reason option \<times> fleet_leases" where
  "fleet_acquire_lease ticket lane verdict now wall fl =
     (case verdict of
        Gate_Raised \<Rightarrow> (None, fl\<lparr>gate_errors := gate_errors fl + 1\<rparr>)
      | Gate_Shed reason \<Rightarrow> (Some reason, fl\<lparr>gate_sheds := gate_sheds fl + 1\<rparr>)
      | Gate_Lease lease \<Rightarrow>
          (None, fl\<lparr>by_ticket := dset ticket
             \<lparr>held_lane = lane, held_id = lease, acquired_at = now, acquired_wall = wall\<rparr> (by_ticket fl)\<rparr>))"

definition fleet_bind :: "string \<Rightarrow> string \<Rightarrow> fleet_leases \<Rightarrow> fleet_leases" where
  "fleet_bind ticket attempt_id fl =
     (if dget (by_ticket fl) ticket \<noteq> None
      then fl\<lparr>ticket_by_attempt := dset attempt_id ticket (ticket_by_attempt fl)\<rparr> else fl)"

definition release_held ::
    "held_lease \<Rightarrow> bool \<Rightarrow> bool \<Rightarrow> fleet_usage \<Rightarrow> seconds \<Rightarrow> bool \<Rightarrow> fleet_leases \<Rightarrow> fleet_leases" where
  "release_held held dispatched throttled usage now raises fl =
     fl\<lparr>gate_calls := gate_calls fl @
          [\<lparr>released_lane = held_lane held, released_lease = held_id held,
            duration_seconds = (if dispatched then Some (max 0 (now - acquired_at held)) else None),
            released_throttled = throttled, released_used_tokens = used_tokens usage,
            released_output_tokens = fu_output_tokens usage,
            first_token_seconds = (case first_token_at usage of None \<Rightarrow> None
              | Some first \<Rightarrow> if dispatched then Some (max 0 (first - acquired_wall held)) else None)\<rparr>],
        gate_errors := gate_errors fl + (if raises then 1 else 0)\<rparr>"

definition fleet_release_ticket :: "string \<Rightarrow> seconds \<Rightarrow> bool \<Rightarrow> fleet_leases \<Rightarrow> fleet_leases" where
  "fleet_release_ticket ticket now raises fl =
     (case dget (by_ticket fl) ticket of
        None \<Rightarrow> fl
      | Some held \<Rightarrow> release_held held False False no_fleet_usage now raises
          (fl\<lparr>by_ticket := dpop ticket (by_ticket fl)\<rparr>))"

definition fleet_release_attempt ::
    "string \<Rightarrow> bool \<Rightarrow> fleet_usage option \<Rightarrow> seconds \<Rightarrow> bool \<Rightarrow> fleet_leases \<Rightarrow> fleet_leases" where
  "fleet_release_attempt attempt_id throttled usage now raises fl =
     (case dget (ticket_by_attempt fl) attempt_id of
        None \<Rightarrow> fl
      | Some ticket \<Rightarrow>
          (let fl1 = fl\<lparr>ticket_by_attempt := dpop attempt_id (ticket_by_attempt fl)\<rparr>
           in case dget (by_ticket fl1) ticket of
                None \<Rightarrow> fl1
              | Some held \<Rightarrow>
                  release_held held True throttled (case usage of None \<Rightarrow> no_fleet_usage | Some u \<Rightarrow> u) now raises
                    (fl1\<lparr>by_ticket := dpop ticket (by_ticket fl1)\<rparr>)))"

definition held_count :: "fleet_leases \<Rightarrow> int" where "held_count fl = int (length (by_ticket fl))"

section \<open>Operations\<close>

datatype fleet_op =
    Acquire string fleet_lane gate_verdict seconds seconds
  | Bind_Lease string string
  | Release_Lease_Ticket string seconds bool
  | Release_Lease_Attempt string bool "fleet_usage option" seconds bool

fun fleet_step :: "fleet_op \<Rightarrow> fleet_leases \<Rightarrow> fleet_leases" where
  "fleet_step (Acquire t lane v now wall) fl = snd (fleet_acquire_lease t lane v now wall fl)"
| "fleet_step (Bind_Lease t a) fl = fleet_bind t a fl"
| "fleet_step (Release_Lease_Ticket t now r) fl = fleet_release_ticket t now r fl"
| "fleet_step (Release_Lease_Attempt a th u now r) fl = fleet_release_attempt a th u now r fl"

text \<open>The tickets a run acquires for, and the leases the gate granted it.\<close>

fun acquired_ticket :: "fleet_op \<Rightarrow> string list" where
  "acquired_ticket (Acquire t lane v now wall) = [t]"
| "acquired_ticket _ = []"

fun granted_lease :: "fleet_op \<Rightarrow> string list" where
  "granted_lease (Acquire t lane (Gate_Lease l) now wall) = [l]"
| "granted_lease _ = []"

section \<open>Lemmas\<close>

definition held_leases :: "fleet_leases \<Rightarrow> string multiset" where
  "held_leases fl = mset (map (held_id \<circ> snd) (by_ticket fl))"

definition released_leases :: "fleet_leases \<Rightarrow> string multiset" where
  "released_leases fl = mset (map released_lease (gate_calls fl))"

lemma mset_dpop:
  assumes "dkeys_distinct d" and "dget d k = Some v"
  shows "mset (map (f \<circ> snd) d) = add_mset (f v) (mset (map (f \<circ> snd) (dpop k d)))"
  using assms unfolding dpop_eq_filter dkeys_distinct_def dget_def
proof (induction d)
  case (Cons e d)
  show ?case
  proof (cases "fst e = k")
    case True
    with Cons.prems have "filter (\<lambda>e. fst e \<noteq> k) d = d" by (auto simp: rev_image_eqI filter_id_conv)
    with True Cons.prems show ?thesis by (cases e) auto
  next
    case False
    with Cons show ?thesis by (cases e) auto
  qed
qed simp

definition fleet_inv :: "string set \<Rightarrow> string multiset \<Rightarrow> fleet_leases \<Rightarrow> bool" where
  "fleet_inv tickets granted fl \<longleftrightarrow> dkeys_distinct (by_ticket fl) \<and> dom (dget (by_ticket fl)) \<subseteq> tickets
     \<and> held_leases fl + released_leases fl = granted"

lemma release_held_moves:
  assumes "fleet_inv T G fl" and "dget (by_ticket fl) t = Some held"
    and "by_ticket fl' = dpop t (by_ticket fl)" and "gate_calls fl' = gate_calls fl"
  shows "fleet_inv T G (release_held held d th u now raises fl')"
  using assms mset_dpop [of "by_ticket fl" t held held_id]
  by (auto simp: fleet_inv_def release_held_def held_leases_def released_leases_def split: if_splits)

lemma fleet_step_inv:
  assumes "fleet_inv T G fl" and "set (acquired_ticket op) \<inter> T = {}"
  shows "fleet_inv (T \<union> set (acquired_ticket op)) (G + mset (granted_lease op)) (fleet_step op fl)"
proof (cases op)
  case (Acquire t lane v now wall)
  have "dget (by_ticket fl) t = None" using assms Acquire by (auto simp: fleet_inv_def)
  then have "held_leases (fl\<lparr>by_ticket := dset t x (by_ticket fl)\<rparr>) = add_mset (held_id x) (held_leases fl)" for x
    by (simp add: held_leases_def dset_fresh)
  then show ?thesis using assms Acquire
    by (cases v) (auto simp: fleet_acquire_lease_def fleet_inv_def released_leases_def held_leases_def [of "_\<lparr>gate_errors := _\<rparr>"]
        held_leases_def [of "_\<lparr>gate_sheds := _\<rparr>"] held_leases_def [of fl] dom_def split: if_splits)
next
  case (Bind_Lease t a)
  then show ?thesis using assms(1)
    by (simp add: fleet_bind_def fleet_inv_def held_leases_def released_leases_def)
next
  case (Release_Lease_Ticket t now r)
  then show ?thesis using assms(1) release_held_moves [OF assms(1)]
    by (simp add: fleet_release_ticket_def split: option.splits)
next
  case (Release_Lease_Attempt a th u now r)
  moreover have "fleet_inv T G (fl\<lparr>ticket_by_attempt := x\<rparr>)" for x
    using assms(1) by (simp add: fleet_inv_def held_leases_def released_leases_def)
  ultimately show ?thesis using assms(1) release_held_moves [OF assms(1)]
    by (simp add: fleet_release_attempt_def Let_def split: option.splits)
qed

lemma fleet_run_inv:
  assumes "distinct (concat (map acquired_ticket ops))"
  shows "fleet_inv (set (concat (map acquired_ticket ops))) (mset (concat (map granted_lease ops)))
    (fold fleet_step ops new_fleet_leases)"
  using assms
proof (induction ops rule: rev_induct)
  case Nil
  then show ?case by (simp add: fleet_inv_def new_fleet_leases_def held_leases_def released_leases_def dom_def)
next
  case (snoc op ops)
  then have "set (acquired_ticket op) \<inter> set (concat (map acquired_ticket ops)) = {}" by auto
  from fleet_step_inv [OF snoc.IH this] snoc.prems show ?case by simp
qed

section \<open>Properties\<close>

text \<open>
  C36. Fleet leases are conserved. In any run in which each ticket acquires at most once, the leases the gate granted
  are exactly those still held plus those handed back to the gate, each counted as often as granted: no lease is
  released twice and none is lost.
\<close>

theorem fleet_leases_conserved:
  assumes "distinct (concat (map acquired_ticket ops))"
  shows "held_leases (fold fleet_step ops new_fleet_leases) + released_leases (fold fleet_step ops new_fleet_leases)
    = mset (concat (map granted_lease ops))"
  using fleet_run_inv [OF assms] by (simp add: fleet_inv_def)

definition sample_lane :: fleet_lane where
  "sample_lane = \<lparr>lane_deployment_id = ''d'', lane_connection = ''c'',
     lane_policy = \<lparr>fleet_requests_per_minute = Some 60, fleet_tokens_per_minute = None, burst_requests = None,
       fleet_max_inflight = None, inflight_auto = False, inflight_headroom = None, confidence = None,
       horizon_seconds = None, arrival_fast_seconds = None, arrival_slow_seconds = None,
       throttle_backoff_factor = None, fleet_saturation = Fleet_Spill, queue_milliseconds = None\<rparr>\<rparr>"

definition sample_fleet_run :: "fleet_op list" where
  "sample_fleet_run = [Acquire ''t1'' sample_lane (Gate_Lease ''l1'') 1 1, Acquire ''t2'' sample_lane (Gate_Lease ''l2'') 2 2,
     Bind_Lease ''t1'' ''a1'', Release_Lease_Attempt ''a1'' False None 9 False,
     Release_Lease_Attempt ''a1'' False None 10 False, Release_Lease_Ticket ''t1'' 11 False]"

theorem fleet_leases_conserved_witness:
  "held_leases (fold fleet_step sample_fleet_run new_fleet_leases)
     + released_leases (fold fleet_step sample_fleet_run new_fleet_leases) = {#''l1'', ''l2''#}
   \<and> released_leases (fold fleet_step sample_fleet_run new_fleet_leases) = {#''l1''#}"
proof -
  have d: "distinct (concat (map acquired_ticket sample_fleet_run))"
    and g: "concat (map granted_lease sample_fleet_run) = [''l1'', ''l2'']"
    and r: "map released_lease (gate_calls (fold fleet_step sample_fleet_run new_fleet_leases)) = [''l1'']"
    by code_simp+
  show ?thesis using fleet_leases_conserved [OF d] g r by (simp add: released_leases_def)
qed

end
