(* ===== verification/Rung_Admission.thy ===== *)
theory Rung_Admission
  imports Fleet_Lanes Lane_Ejection
begin

text \<open>
  Bounded, rate-limited, weighted fair-share admission per rung
  (\<^verbatim>\<open>src/exp/runtime/gateway/rung_admission.py\<close>). The registry's lock covers every decision, so a method is one
  step over the registry; the clock reading it takes is the argument \<open>now\<close> and the fresh \<open>uuid\<close> of an admitted
  reservation is the argument \<open>ticket\<close>. A load object lives in its dictionary, so an update of it is a store at its key;
  \<open>reserve\<close> and \<open>can_admit\<close> stamp the requesting organisation before they prune, which keeps that organisation and its rung
  in place while the activity window is positive (\<open>prune_keeps_requester\<close> below).
\<close>

section \<open>Constants\<close>

definition ACTIVITY_WINDOW_SECONDS :: seconds where "ACTIVITY_WINDOW_SECONDS = 10"
definition RATE_WINDOW_SECONDS :: seconds where "RATE_WINDOW_SECONDS = 60"
definition LEARNED_CLAMP_FACTOR :: real where "LEARNED_CLAMP_FACTOR = 9 / 10"
definition LEARNED_CREEP_FRACTION :: real where "LEARNED_CREEP_FRACTION = 5 / 100"
definition LEARNED_RECOVERY_INTERVAL_SECONDS :: seconds where "LEARNED_RECOVERY_INTERVAL_SECONDS = 60"
definition LEARNED_EXPIRY_SECONDS :: seconds where "LEARNED_EXPIRY_SECONDS = 6 * 3600"
definition LEARNED_MINIMUM_RPM :: real where "LEARNED_MINIMUM_RPM = 1 / 10"
definition EWMA_HALF_LIFE_SECONDS :: seconds where "EWMA_HALF_LIFE_SECONDS = 600"
definition EWMA_MINIMUM_STEP_SECONDS :: seconds where "EWMA_MINIMUM_STEP_SECONDS = 1"
definition EWMA_RETENTION_SECONDS :: seconds where "EWMA_RETENTION_SECONDS = 3600"
definition EWMA_PRUNE_INTERVAL_SECONDS :: seconds where "EWMA_PRUNE_INTERVAL_SECONDS = 60"

section \<open>State\<close>

type_synonym rung_load_key = lane_key

datatype rung_shed_reason = Fair_Share_Shed | Queue_Bound | Rate_Limit | Fresh_Session_Spill

record rung_shed =
  shed_reason_code :: rung_shed_reason
  shed_learned_rpm :: "real option"
  shed_overflow_ceiling :: bool
  shed_default_bound :: bool
  shed_fleet :: bool
  shed_fleet_refuse :: bool

definition plain_shed :: "rung_shed_reason \<Rightarrow> rung_shed" where
  "plain_shed reason = \<lparr>shed_reason_code = reason, shed_learned_rpm = None, shed_overflow_ceiling = False,
     shed_default_bound = False, shed_fleet = False, shed_fleet_refuse = False\<rparr>"

definition ceiling_shed :: rung_shed where
  "ceiling_shed = (plain_shed Queue_Bound)\<lparr>shed_overflow_ceiling := True\<rparr>"

record organization_load =
  ol_inflight :: int
  ol_last_seen :: seconds
  ol_weight :: int
  ol_fast :: int

definition new_organization_load :: organization_load where
  "new_organization_load = \<lparr>ol_inflight = 0, ol_last_seen = 0, ol_weight = 1, ol_fast = 0\<rparr>"

record cache_signal =
  cs_fraction :: real
  cs_sampled_at :: seconds

record rung_load =
  rl_total :: int
  rl_organizations :: "(string, organization_load) dict"
  rl_cache_fractions :: "(string, cache_signal) dict"
  rl_cache_pruned_at :: seconds
  rl_window :: "(seconds \<times> int) list"
  rl_window_requests :: int
  rl_window_tokens :: int
  rl_learned_rpm :: "real option"
  rl_learned_throttled_at :: seconds
  rl_learned_crept_at :: seconds
  rl_classes :: "(int, int) dict"
  rl_fast :: int
  rl_failover_forced :: int

definition new_rung_load :: rung_load where
  "new_rung_load = \<lparr>rl_total = 0, rl_organizations = [], rl_cache_fractions = [], rl_cache_pruned_at = 0,
     rl_window = [], rl_window_requests = 0, rl_window_tokens = 0, rl_learned_rpm = None, rl_learned_throttled_at = 0,
     rl_learned_crept_at = 0, rl_classes = [], rl_fast = 0, rl_failover_forced = 0\<rparr>"

text \<open>The registry; \<open>_fast_tickets\<close> and \<open>_failover_tickets\<close> are sets, kept as duplicate-free lists.\<close>

record rung_registry =
  rr_default_bound :: "int option"
  rr_activity_window :: seconds
  rr_rungs :: "(rung_load_key, rung_load) dict"
  rr_tickets :: "(string, rung_load_key \<times> string) dict"
  rr_ticket_classes :: "(string, int) dict"
  rr_fast_tickets :: "string list"
  rr_failover_tickets :: "string list"
  rr_attempts :: "(string, string) dict"
  rr_ticket_windows :: "(string, seconds \<times> int) dict"
  rr_fleet :: "fleet_leases option"

definition new_rung_registry :: "seconds \<Rightarrow> int option \<Rightarrow> py_error + rung_registry" where
  "new_rung_registry activity_window default_bound =
     (if activity_window \<le> 0 then Inl (ValueError ''activity window must be positive'')
      else if (case default_bound of None \<Rightarrow> False | Some b \<Rightarrow> b < 1)
        then Inl (ValueError ''default_bound must be at least one'')
      else Inr \<lparr>rr_default_bound = default_bound, rr_activity_window = activity_window, rr_rungs = [], rr_tickets = [],
             rr_ticket_classes = [], rr_fast_tickets = [], rr_failover_tickets = [], rr_attempts = [],
             rr_ticket_windows = [], rr_fleet = None\<rparr>)"

definition rung_of :: "rung_registry \<Rightarrow> rung_load_key \<Rightarrow> rung_load" where
  "rung_of rr key = dget_or new_rung_load (rr_rungs rr) key"

definition org_of :: "rung_load \<Rightarrow> string \<Rightarrow> organization_load" where
  "org_of r organization_id = dget_or new_organization_load (rl_organizations r) organization_id"

definition put_rung :: "rung_load_key \<Rightarrow> rung_load \<Rightarrow> rung_registry \<Rightarrow> rung_registry" where
  "put_rung key r rr = rr\<lparr>rr_rungs := dset key r (rr_rungs rr)\<rparr>"

definition attach_fleet_gate :: "rung_registry \<Rightarrow> rung_registry" where
  "attach_fleet_gate rr = rr\<lparr>rr_fleet := Some new_fleet_leases\<rparr>"

section \<open>Weights and rates\<close>

definition effective_weight :: "organization_load \<Rightarrow> real \<Rightarrow> real option \<Rightarrow> real \<Rightarrow> real" where
  "effective_weight load fraction alpha congestion =
     (case alpha of
        None \<Rightarrow> real_of_int (ol_weight load)
      | Some x \<Rightarrow> if x \<le> 0 then real_of_int (ol_weight load)
          else real_of_int (ol_weight load) * (1 + x * congestion * fraction))"

definition rung_cached_fraction :: "rung_load \<Rightarrow> string \<Rightarrow> real" where
  "rung_cached_fraction r organization_id =
     (case dget (rl_cache_fractions r) organization_id of None \<Rightarrow> 0 | Some s \<Rightarrow> cs_fraction s)"

text \<open>At most \<open>steps\<close> creeps of the learned ceiling, stopping at the authored rate.\<close>

fun creep :: "int option \<Rightarrow> nat \<Rightarrow> real \<Rightarrow> real" where
  "creep authored 0 learned = learned"
| "creep authored (Suc n) learned =
     (let learned = learned + max 1 (real_of_int \<lceil>LEARNED_CREEP_FRACTION * learned\<rceil>)
      in case authored of
           None \<Rightarrow> creep authored n learned
         | Some a \<Rightarrow> if learned \<ge> real_of_int a then real_of_int a else creep authored n learned)"

definition working_rpm :: "rung_load \<Rightarrow> int option \<Rightarrow> seconds \<Rightarrow> real option \<times> rung_load" where
  "working_rpm r authored now =
     (let r' = (case rl_learned_rpm r of
                  None \<Rightarrow> r
                | Some learned \<Rightarrow>
                    if now - rl_learned_throttled_at r \<ge> LEARNED_EXPIRY_SECONDS then r\<lparr>rl_learned_rpm := None\<rparr>
                    else (let steps = \<lfloor>(now - rl_learned_crept_at r) / LEARNED_RECOVERY_INTERVAL_SECONDS\<rfloor>
                          in r\<lparr>rl_learned_rpm := Some (creep authored (nat steps) learned),
                               rl_learned_crept_at := rl_learned_crept_at r
                                 + real_of_int steps * LEARNED_RECOVERY_INTERVAL_SECONDS\<rparr>))
      in (case (rl_learned_rpm r', authored) of
            (None, None) \<Rightarrow> None
          | (None, Some a) \<Rightarrow> Some (real_of_int a)
          | (Some l, None) \<Rightarrow> Some l
          | (Some l, Some a) \<Rightarrow> Some (min (real_of_int a) l), r'))"

section \<open>Pruning\<close>

fun drop_expired :: "seconds \<Rightarrow> (seconds \<times> int) list \<Rightarrow> int \<times> int \<times> (seconds \<times> int) list" where
  "drop_expired horizon [] = (0, 0, [])"
| "drop_expired horizon ((stamp, tokens) # window) =
     (if stamp \<le> horizon
      then (case drop_expired horizon window of (n, k, rest) \<Rightarrow> (n + 1, k + tokens, rest))
      else (0, 0, (stamp, tokens) # window))"

definition prune_window :: "rung_load \<Rightarrow> seconds \<Rightarrow> rung_load" where
  "prune_window r now =
     (case drop_expired (now - RATE_WINDOW_SECONDS) (rl_window r) of
        (n, k, rest) \<Rightarrow> r\<lparr>rl_window := rest, rl_window_requests := rl_window_requests r - n,
                          rl_window_tokens := rl_window_tokens r - k\<rparr>)"

definition prune_cache_fractions :: "rung_load \<Rightarrow> seconds \<Rightarrow> rung_load" where
  "prune_cache_fractions r now =
     (if now - rl_cache_pruned_at r < EWMA_PRUNE_INTERVAL_SECONDS then r
      else r\<lparr>rl_cache_pruned_at := now,
             rl_cache_fractions := filter (\<lambda>(o_id, s). \<not> cs_sampled_at s < now - EWMA_RETENTION_SECONDS)
               (rl_cache_fractions r)\<rparr>)"

definition prune_organizations :: "seconds \<Rightarrow> rung_load \<Rightarrow> seconds \<Rightarrow> rung_load" where
  "prune_organizations window r now =
     r\<lparr>rl_organizations := filter (\<lambda>(o_id, load). \<not> (ol_inflight load = 0 \<and> ol_last_seen load < now - window))
        (rl_organizations r)\<rparr>"

text \<open>Whether the pruned rung entry is itself dropped.\<close>

definition rung_idle :: "rung_load \<Rightarrow> bool" where
  "rung_idle r \<longleftrightarrow> rl_total r = 0 \<and> rl_organizations r = [] \<and> rl_cache_fractions r = [] \<and> rl_window r = []
     \<and> rl_learned_rpm r = None"

definition prune_rung :: "seconds \<Rightarrow> rung_load \<Rightarrow> seconds \<Rightarrow> rung_load" where
  "prune_rung window r now = prune_cache_fractions (prune_organizations window r now) now"

section \<open>Shedding\<close>

record shed_args =
  sa_bound :: "int option"
  sa_fair_share :: bool
  sa_requests_per_minute :: "int option"
  sa_tokens_per_minute :: "int option"
  sa_cache_priority_alpha :: "real option"
  sa_reserved_tokens :: int
  sa_warm_session :: bool
  sa_fresh_spill_fraction :: "real option"
  sa_skip_rate :: bool
  sa_occupied :: int
  sa_regular_only :: bool

definition weighted_active ::
    "seconds \<Rightarrow> rung_load \<Rightarrow> string \<Rightarrow> real option \<Rightarrow> real \<Rightarrow> (string \<times> organization_load \<times> real) list" where
  "weighted_active window r organization_id alpha congestion =
     map (\<lambda>(c_id, c). (c_id, c, effective_weight c (rung_cached_fraction r c_id) alpha congestion))
       (filter (\<lambda>(c_id, c). ol_inflight c > 0 \<or> ol_last_seen c \<ge> ol_last_seen (org_of r organization_id) - window)
          (rl_organizations r))"

definition holding :: "bool \<Rightarrow> organization_load \<Rightarrow> int" where
  "holding regular_only c = (if regular_only then ol_inflight c - ol_fast c else ol_inflight c)"

definition fair_share_shed ::
    "(string \<times> organization_load \<times> real) list \<Rightarrow> string \<Rightarrow> int \<Rightarrow> int \<Rightarrow> bool \<Rightarrow> bool" where
  "fair_share_shed weighted organization_id bound held regular_only =
     (let total_weight = (\<Sum>(c_id, c, w) \<leftarrow> weighted. w)
      in case find (\<lambda>(c_id, c, w). c_id = organization_id) weighted of
           None \<Rightarrow> False
         | Some (_, own, own_weight) \<Rightarrow>
             if real_of_int (holding regular_only own + 1) \<le> real_of_int bound * own_weight / total_weight then False
             else held + 1
               + \<lfloor>(\<Sum>(c_id, c, w) \<leftarrow> filter (\<lambda>(c_id, c, w). c_id \<noteq> organization_id) weighted.
                    max 0 (real_of_int bound * w / total_weight - real_of_int (holding regular_only c)))\<rfloor> > bound)"

definition bound_shed :: "shed_args \<Rightarrow> rung_shed option" where
  "bound_shed a =
     (case sa_bound a of
        None \<Rightarrow> None
      | Some bound \<Rightarrow>
          if sa_occupied a \<ge> bound then Some (plain_shed Queue_Bound)
          else (case sa_fresh_spill_fraction a of
                  None \<Rightarrow> None
                | Some fraction \<Rightarrow>
                    if \<not> sa_warm_session a \<and> real_of_int (sa_occupied a) \<ge> real_of_int bound * fraction
                    then Some (plain_shed Fresh_Session_Spill) else None))"

definition rate_shed :: "rung_load \<Rightarrow> real option \<Rightarrow> shed_args \<Rightarrow> rung_shed option" where
  "rate_shed r working a =
     (if \<not> sa_skip_rate a \<and> (case working of None \<Rightarrow> False | Some w \<Rightarrow> real_of_int (rl_window_requests r + 1) > w)
        then Some ((plain_shed Rate_Limit)\<lparr>shed_learned_rpm := rl_learned_rpm r\<rparr>)
      else if \<not> sa_skip_rate a \<and> (case sa_tokens_per_minute a of None \<Rightarrow> False
               | Some t \<Rightarrow> rl_window_tokens r > 0 \<and> rl_window_tokens r + sa_reserved_tokens a > t)
        then Some ((plain_shed Rate_Limit)\<lparr>shed_learned_rpm := rl_learned_rpm r\<rparr>)
      else None)"

definition fairness_shed :: "seconds \<Rightarrow> rung_load \<Rightarrow> string \<Rightarrow> shed_args \<Rightarrow> rung_shed option" where
  "fairness_shed window r organization_id a =
     (case sa_bound a of
        None \<Rightarrow> None
      | Some bound \<Rightarrow>
          if sa_fair_share a
             \<and> fair_share_shed
                 (weighted_active window r organization_id (sa_cache_priority_alpha a)
                   (real_of_int (sa_occupied a) / real_of_int bound))
                 organization_id bound (sa_occupied a) (sa_regular_only a)
          then Some (plain_shed Fair_Share_Shed) else None)"

definition shed_reason ::
    "seconds \<Rightarrow> rung_load \<Rightarrow> string \<Rightarrow> seconds \<Rightarrow> shed_args \<Rightarrow> rung_shed option \<times> rung_load" where
  "shed_reason window r organization_id now a =
     (case bound_shed a of
        Some shed \<Rightarrow> (Some shed, r)
      | None \<Rightarrow>
          (case working_rpm r (sa_requests_per_minute a) now of
             (working, r') \<Rightarrow>
               (case rate_shed r' working a of
                  Some shed \<Rightarrow> (Some shed, r')
                | None \<Rightarrow> (fairness_shed window r' organization_id a, r'))))"

section \<open>Reserving\<close>

record reserve_args =
  ra_key :: rung_load_key
  ra_organization_id :: string
  ra_weight :: int
  ra_bound :: "int option"
  ra_fair_share :: bool
  ra_requests_per_minute :: "int option"
  ra_tokens_per_minute :: "int option"
  ra_cache_priority_alpha :: "real option"
  ra_reserved_tokens :: int
  ra_warm_session :: bool
  ra_fresh_spill_fraction :: "real option"
  ra_force :: bool
  ra_hard_bound :: bool
  ra_overflow_ceiling :: "real option"
  ra_rate_retry :: bool
  ra_class_cap :: "(int \<times> int) option"
  ra_fast :: bool
  ra_fast_reserve :: "int option"
  ra_fast_reserve_hard :: bool
  ra_failover_cap :: "int option"

datatype reservation = Ticket string | Shed rung_shed

text \<open>The stamp every reservation leaves, shed or admitted, and the pruning that follows it.\<close>

definition stamp_organization :: "string \<Rightarrow> int \<Rightarrow> seconds \<Rightarrow> rung_load \<Rightarrow> rung_load" where
  "stamp_organization organization_id weight now r =
     r\<lparr>rl_organizations := dset organization_id
         ((org_of r organization_id)\<lparr>ol_last_seen := now, ol_weight := weight\<rparr>) (rl_organizations r)\<rparr>"

definition stamped_rung :: "seconds \<Rightarrow> string \<Rightarrow> int \<Rightarrow> seconds \<Rightarrow> rung_load \<Rightarrow> rung_load" where
  "stamped_rung window organization_id weight now r =
     prune_rung window (stamp_organization organization_id weight now r) now"

text \<open>The \<open>:fast\<close> split and the always-on reserve.\<close>

definition split_shed :: "rung_load \<Rightarrow> reserve_args \<Rightarrow> rung_shed option" where
  "split_shed r a =
     (case (ra_bound a, ra_fast_reserve a) of
        (None, _) \<Rightarrow> None
      | (Some bound, Some slots) \<Rightarrow>
          (let full = rl_total r \<ge> bound; regular_full = rl_total r - rl_fast r \<ge> bound - slots
           in if ra_fast_reserve_hard a
              then (if full \<or> (\<not> ra_fast a \<and> regular_full) then Some ceiling_shed else None)
              else if \<not> ra_force a \<and> full then Some (plain_shed Queue_Bound) else None)
      | (Some bound, None) \<Rightarrow>
          if ra_fast a \<or> rl_fast r \<noteq> 0 then
            (if ra_fast a \<and> rl_fast r \<ge> max 1 (bound - bound div 2) then Some ceiling_shed
             else if \<not> ra_fast a \<and> rl_total r - rl_fast r \<ge> max 1 (bound div 2) then Some ceiling_shed
             else None)
          else None)"

definition fast_adjusted :: "reserve_args \<Rightarrow> reserve_args" where
  "fast_adjusted a =
     (if ra_fast a then a\<lparr>ra_bound := None, ra_fair_share := False, ra_overflow_ceiling := None\<rparr> else a)"

definition judged_in_share :: "reserve_args \<Rightarrow> bool" where
  "judged_in_share a \<longleftrightarrow> ra_bound a \<noteq> None \<and> ra_fast_reserve a \<noteq> None \<and> (ra_fast_reserve_hard a \<or> \<not> ra_force a)"

definition judged_bound :: "reserve_args \<Rightarrow> int option" where
  "judged_bound a =
     (if judged_in_share a then Some (the (ra_bound a) - the (ra_fast_reserve a)) else ra_bound a)"

definition judged_occupied :: "rung_load \<Rightarrow> reserve_args \<Rightarrow> int" where
  "judged_occupied r a = (if judged_in_share a then rl_total r - rl_fast r else rl_total r)"

definition hard_shed :: "rung_load \<Rightarrow> reserve_args \<Rightarrow> rung_shed option" where
  "hard_shed r a =
     (if ra_hard_bound a \<and> (case judged_bound a of None \<Rightarrow> False | Some b \<Rightarrow> judged_occupied r a \<ge> b)
        then Some (plain_shed Queue_Bound)
      else if (case ra_class_cap a of None \<Rightarrow> False | Some (c, cap) \<Rightarrow> dget_or 0 (rl_classes r) c \<ge> cap)
        then Some ceiling_shed
      else if ra_force a \<and> (case ra_failover_cap a of None \<Rightarrow> False | Some cap \<Rightarrow> rl_failover_forced r \<ge> cap)
        then Some ceiling_shed
      else if ra_force a \<and> (case ra_overflow_ceiling a of None \<Rightarrow> False
                           | Some c \<Rightarrow> real_of_int (rl_total r + 1) > c)
        then Some ceiling_shed
      else None)"

definition reserve_shed_args :: "rung_load \<Rightarrow> reserve_args \<Rightarrow> shed_args" where
  "reserve_shed_args r a =
     \<lparr>sa_bound = (if ra_force a \<and> ra_overflow_ceiling a \<noteq> None then None else judged_bound a),
      sa_fair_share = ra_fair_share a, sa_requests_per_minute = ra_requests_per_minute a,
      sa_tokens_per_minute = ra_tokens_per_minute a, sa_cache_priority_alpha = ra_cache_priority_alpha a,
      sa_reserved_tokens = ra_reserved_tokens a, sa_warm_session = ra_warm_session a,
      sa_fresh_spill_fraction = ra_fresh_spill_fraction a, sa_skip_rate = ra_rate_retry a,
      sa_occupied = judged_occupied r a,
      sa_regular_only = (ra_fast_reserve a \<noteq> None \<and> (ra_fast_reserve_hard a \<or> \<not> ra_force a))\<rparr>"

text \<open>The whole decision on a stamped and pruned rung: the shed, if any, and the rung it leaves.\<close>

definition decide :: "seconds \<Rightarrow> seconds \<Rightarrow> reserve_args \<Rightarrow> rung_load \<Rightarrow> rung_shed option \<times> rung_load" where
  "decide window now a0 r =
     (case split_shed r a0 of
        Some shed \<Rightarrow> (Some shed, r)
      | None \<Rightarrow>
          (let a = fast_adjusted a0
           in case hard_shed r a of
                Some shed \<Rightarrow> (Some shed, r)
              | None \<Rightarrow>
                  if \<not> ra_force a \<or> ra_rate_retry a
                  then shed_reason window r (ra_organization_id a) now (reserve_shed_args r a)
                  else (None, r)))"

definition admit_rung :: "seconds \<Rightarrow> reserve_args \<Rightarrow> rung_load \<Rightarrow> rung_load" where
  "admit_rung now a r =
     (let own = org_of r (ra_organization_id a);
          own' = own\<lparr>ol_inflight := ol_inflight own + 1, ol_fast := ol_fast own + (if ra_fast a then 1 else 0)\<rparr>
      in r\<lparr>rl_organizations := dset (ra_organization_id a) own' (rl_organizations r),
           rl_total := rl_total r + 1,
           rl_window := rl_window r @ [(now, ra_reserved_tokens a)],
           rl_window_requests := rl_window_requests r + 1,
           rl_window_tokens := rl_window_tokens r + ra_reserved_tokens a,
           rl_classes := (case ra_class_cap a of None \<Rightarrow> rl_classes r
             | Some (c, cap) \<Rightarrow> dset c (dget_or 0 (rl_classes r) c + 1) (rl_classes r)),
           rl_fast := rl_fast r + (if ra_fast a then 1 else 0),
           rl_failover_forced := rl_failover_forced r
             + (if ra_force a \<and> ra_failover_cap a \<noteq> None then 1 else 0)\<rparr>)"

definition record_ticket :: "string \<Rightarrow> seconds \<Rightarrow> reserve_args \<Rightarrow> rung_registry \<Rightarrow> rung_registry" where
  "record_ticket ticket now a rr =
     rr\<lparr>rr_ticket_windows := dset ticket (now, ra_reserved_tokens a) (rr_ticket_windows rr),
        rr_tickets := dset ticket (ra_key a, ra_organization_id a) (rr_tickets rr),
        rr_ticket_classes := (case ra_class_cap a of None \<Rightarrow> rr_ticket_classes rr
          | Some (c, cap) \<Rightarrow> dset ticket c (rr_ticket_classes rr)),
        rr_fast_tickets := (if ra_fast a then List.insert ticket (rr_fast_tickets rr) else rr_fast_tickets rr),
        rr_failover_tickets := (if ra_force a \<and> ra_failover_cap a \<noteq> None
          then List.insert ticket (rr_failover_tickets rr) else rr_failover_tickets rr)\<rparr>"

text \<open>A rung that \<open>_prune\<close> dropped is no longer in the registry, so a store to it is lost.\<close>

definition store_rung :: "bool \<Rightarrow> rung_load_key \<Rightarrow> rung_load \<Rightarrow> rung_registry \<Rightarrow> rung_registry" where
  "store_rung dropped key r rr =
     (if dropped then rr\<lparr>rr_rungs := dpop key (rr_rungs rr)\<rparr> else put_rung key r rr)"

definition reserve :: "string \<Rightarrow> seconds \<Rightarrow> reserve_args \<Rightarrow> rung_registry \<Rightarrow> reservation \<times> rung_registry" where
  "reserve ticket now a rr =
     (let r0 = stamped_rung (rr_activity_window rr) (ra_organization_id a) (ra_weight a) now (rung_of rr (ra_key a));
          dropped = rung_idle r0;
          r1 = prune_window r0 now
      in case decide (rr_activity_window rr) now a r1 of
           (Some shed, r2) \<Rightarrow> (Shed shed, store_rung dropped (ra_key a) r2 rr)
         | (None, r2) \<Rightarrow>
             (Ticket ticket,
              record_ticket ticket now a (store_rung dropped (ra_key a) (admit_rung now a r2) rr)))"

definition can_admit :: "seconds \<Rightarrow> reserve_args \<Rightarrow> rung_registry \<Rightarrow> bool \<times> rung_registry" where
  "can_admit now a rr =
     (case dget (rr_rungs rr) (ra_key a) of
        None \<Rightarrow> (True, rr)
      | Some r \<Rightarrow>
          (let r0 = stamped_rung (rr_activity_window rr) (ra_organization_id a) (ra_weight a) now r;
               dropped = rung_idle r0;
               r1 = prune_window r0 now;
               reserved = (ra_bound a \<noteq> None \<and> ra_fast_reserve a \<noteq> None)
           in if reserved \<and> rl_total r1 \<ge> the (ra_bound a)
              then (False, store_rung dropped (ra_key a) r1 rr)
              else (case shed_reason (rr_activity_window rr) r1 (ra_organization_id a) now
                      \<lparr>sa_bound = (if reserved then Some (the (ra_bound a) - the (ra_fast_reserve a)) else ra_bound a),
                       sa_fair_share = ra_fair_share a, sa_requests_per_minute = ra_requests_per_minute a,
                       sa_tokens_per_minute = ra_tokens_per_minute a,
                       sa_cache_priority_alpha = ra_cache_priority_alpha a,
                       sa_reserved_tokens = ra_reserved_tokens a, sa_warm_session = True,
                       sa_fresh_spill_fraction = None, sa_skip_rate = False,
                       sa_occupied = (if reserved then rl_total r1 - rl_fast r1 else rl_total r1),
                       sa_regular_only = (ra_fast_reserve a \<noteq> None)\<rparr> of
                    (shed, r2) \<Rightarrow> (shed = None, store_rung dropped (ra_key a) r2 rr))))"

section \<open>Releasing\<close>

definition release_rung :: "string \<Rightarrow> int option \<Rightarrow> bool \<Rightarrow> bool \<Rightarrow> rung_load \<Rightarrow> rung_load" where
  "release_rung organization_id request_class was_fast was_failover r =
     (let r1 = (if was_failover \<and> rl_failover_forced r > 0
                then r\<lparr>rl_failover_forced := rl_failover_forced r - 1\<rparr> else r);
          r2 = (case request_class of None \<Rightarrow> r1
                | Some c \<Rightarrow> if dget_or 0 (rl_classes r1) c > 0
                    then r1\<lparr>rl_classes := dset c (dget_or 0 (rl_classes r1) c - 1) (rl_classes r1)\<rparr> else r1);
          r3 = (if was_fast \<and> rl_fast r2 > 0 then r2\<lparr>rl_fast := rl_fast r2 - 1\<rparr> else r2);
          r4 = (case dget (rl_organizations r3) organization_id of None \<Rightarrow> r3
                | Some own \<Rightarrow>
                    if ol_inflight own > 0 then
                      r3\<lparr>rl_organizations := dset organization_id
                           (own\<lparr>ol_inflight := ol_inflight own - 1,
                                ol_fast := (if was_fast \<and> ol_fast own > 0 then ol_fast own - 1 else ol_fast own)\<rparr>)
                           (rl_organizations r3)\<rparr>
                    else r3)
      in if rl_total r4 > 0 then r4\<lparr>rl_total := rl_total r4 - 1\<rparr> else r4)"

definition release_locked :: "string \<Rightarrow> rung_registry \<Rightarrow> rung_registry" where
  "release_locked ticket rr =
     (let rr1 = rr\<lparr>rr_tickets := dpop ticket (rr_tickets rr),
                   rr_ticket_windows := dpop ticket (rr_ticket_windows rr)\<rparr>
      in case dget (rr_tickets rr) ticket of
           None \<Rightarrow> rr1
         | Some (key, organization_id) \<Rightarrow>
             (let rr2 = rr1\<lparr>rr_ticket_classes := dpop ticket (rr_ticket_classes rr1),
                            rr_fast_tickets := removeAll ticket (rr_fast_tickets rr1),
                            rr_failover_tickets := removeAll ticket (rr_failover_tickets rr1)\<rparr>
              in case dget (rr_rungs rr2) key of
                   None \<Rightarrow> rr2
                 | Some r \<Rightarrow> put_rung key
                     (release_rung organization_id (dget (rr_ticket_classes rr) ticket)
                        (ticket \<in> set (rr_fast_tickets rr)) (ticket \<in> set (rr_failover_tickets rr)) r) rr2))"

definition with_fleet :: "(fleet_leases \<Rightarrow> fleet_leases) \<Rightarrow> rung_registry \<Rightarrow> rung_registry" where
  "with_fleet f rr = rr\<lparr>rr_fleet := map_option f (rr_fleet rr)\<rparr>"

definition bind :: "string \<Rightarrow> string \<Rightarrow> rung_registry \<Rightarrow> rung_registry" where
  "bind ticket attempt_id rr =
     with_fleet (fleet_bind ticket attempt_id)
       (if dget (rr_tickets rr) ticket \<noteq> None
        then rr\<lparr>rr_attempts := dset attempt_id ticket (rr_attempts rr)\<rparr> else rr)"

definition release_ticket :: "string \<Rightarrow> seconds \<Rightarrow> bool \<Rightarrow> rung_registry \<Rightarrow> rung_registry" where
  "release_ticket ticket now raises rr =
     with_fleet (fleet_release_ticket ticket now raises) (release_locked ticket rr)"

definition release_attempt ::
    "string \<Rightarrow> bool \<Rightarrow> fleet_usage option \<Rightarrow> seconds \<Rightarrow> bool \<Rightarrow> rung_registry \<Rightarrow> rung_registry" where
  "release_attempt attempt_id throttled usage now raises rr =
     with_fleet (fleet_release_attempt attempt_id throttled usage now raises)
       (case dget (rr_attempts rr) attempt_id of
          None \<Rightarrow> rr
        | Some ticket \<Rightarrow> release_locked ticket (rr\<lparr>rr_attempts := dpop attempt_id (rr_attempts rr)\<rparr>))"

section \<open>The fleet gate\<close>

text \<open>\<open>now\<close> and \<open>wall\<close> stamp the lease, \<open>sent\<close> is the reading taken once the gate has answered.\<close>

text \<open>The rung a ticket holds, when both are still tracked.\<close>

definition ticket_rung :: "rung_registry \<Rightarrow> string \<Rightarrow> (rung_load_key \<times> rung_load) option" where
  "ticket_rung rr ticket =
     (case dget (rr_tickets rr) ticket of None \<Rightarrow> None
      | Some (key, organization_id) \<Rightarrow> map_option (Pair key) (dget (rr_rungs rr) key))"

definition restamp_window :: "string \<Rightarrow> seconds \<Rightarrow> rung_registry \<Rightarrow> rung_registry" where
  "restamp_window ticket now rr =
     (case (dget (rr_ticket_windows rr) ticket, ticket_rung rr ticket) of
        (Some entry, Some (key, r)) \<Rightarrow>
          if now \<le> fst entry \<or> entry \<notin> set (rl_window r) then rr
          else (put_rung key (r\<lparr>rl_window := remove1 entry (rl_window r) @ [(now, snd entry)]\<rparr>) rr)
                 \<lparr>rr_ticket_windows := dset ticket (now, snd entry) (rr_ticket_windows rr)\<rparr>
      | _ \<Rightarrow> rr)"

definition retract_window :: "string \<Rightarrow> rung_registry \<Rightarrow> rung_registry" where
  "retract_window ticket rr =
     (let rr1 = rr\<lparr>rr_ticket_windows := dpop ticket (rr_ticket_windows rr)\<rparr>
      in case (dget (rr_ticket_windows rr) ticket, ticket_rung rr ticket) of
           (Some entry, Some (key, r)) \<Rightarrow>
             if entry \<notin> set (rl_window r) then rr1
             else put_rung key (r\<lparr>rl_window := remove1 entry (rl_window r),
                     rl_window_requests := rl_window_requests r - 1,
                     rl_window_tokens := rl_window_tokens r - snd entry\<rparr>) rr1
         | _ \<Rightarrow> rr1)"

definition fleet_acquire ::
    "string \<Rightarrow> fleet_lane \<Rightarrow> gate_verdict \<Rightarrow> seconds \<Rightarrow> seconds \<Rightarrow> seconds \<Rightarrow> rung_registry
      \<Rightarrow> fleet_lane_shed_reason option \<times> rung_registry" where
  "fleet_acquire ticket lane verdict now wall sent rr =
     (case rr_fleet rr of
        None \<Rightarrow> (None, rr)
      | Some fl \<Rightarrow>
          (case fleet_acquire_lease ticket lane verdict now wall fl of
             (None, fl') \<Rightarrow> (None, restamp_window ticket sent (rr\<lparr>rr_fleet := Some fl'\<rparr>))
           | (Some shed, fl') \<Rightarrow>
               (Some shed, release_locked ticket (retract_window ticket (rr\<lparr>rr_fleet := Some fl'\<rparr>)))))"

section \<open>Calibration and cache evidence\<close>

definition record_throttle :: "rung_load_key \<Rightarrow> seconds \<Rightarrow> rung_registry \<Rightarrow> rung_registry" where
  "record_throttle key now rr =
     (let r = prune_window (rung_of rr key) now
      in put_rung key
           (r\<lparr>rl_learned_rpm := Some (max LEARNED_MINIMUM_RPM (real_of_int (rl_window_requests r) * LEARNED_CLAMP_FACTOR)),
              rl_learned_throttled_at := now, rl_learned_crept_at := now\<rparr>) rr)"

definition ewma :: "cache_signal \<Rightarrow> real \<Rightarrow> seconds \<Rightarrow> cache_signal" where
  "ewma s sample now =
     (let elapsed = max EWMA_MINIMUM_STEP_SECONDS (now - cs_sampled_at s);
          retained = (1 / 2) powr (elapsed / EWMA_HALF_LIFE_SECONDS)
      in \<lparr>cs_fraction = cs_fraction s * retained + sample * (1 - retained), cs_sampled_at = now\<rparr>)"

definition record_settle :: "rung_load_key \<Rightarrow> string \<Rightarrow> int \<Rightarrow> int \<Rightarrow> seconds \<Rightarrow> rung_registry \<Rightarrow> rung_registry" where
  "record_settle key organization_id cached_tokens settled_input now rr =
     (if settled_input \<le> 0 then rr
      else
        (let sample = real_of_int (min (max cached_tokens 0) settled_input) / real_of_int settled_input;
             r = prune_cache_fractions (rung_of rr key) now
         in put_rung key (r\<lparr>rl_cache_fractions := dset organization_id
              (case dget (rl_cache_fractions r) organization_id of
                 None \<Rightarrow> \<lparr>cs_fraction = sample, cs_sampled_at = now\<rparr>
               | Some s \<Rightarrow> ewma s sample now) (rl_cache_fractions r)\<rparr>) rr))"

definition cached_fraction :: "rung_registry \<Rightarrow> rung_load_key \<Rightarrow> string \<Rightarrow> seconds \<Rightarrow> real" where
  "cached_fraction rr key organization_id now =
     (case dget (rr_rungs rr) key of None \<Rightarrow> 0
      | Some r \<Rightarrow>
          (case dget (rl_cache_fractions r) organization_id of None \<Rightarrow> 0
           | Some s \<Rightarrow> if cs_sampled_at s < now - EWMA_RETENTION_SECONDS then 0 else cs_fraction s))"

definition learned_ceilings :: "rung_registry \<Rightarrow> (string, real) dict" where
  "learned_ceilings rr =
     fold (\<lambda>((dep, conn), r) d. case rl_learned_rpm r of None \<Rightarrow> d
        | Some l \<Rightarrow> dset (dep @ '':'' @ take 8 conn) l d) (rr_rungs rr) []"

definition inflight :: "rung_registry \<Rightarrow> rung_load_key \<Rightarrow> string option \<Rightarrow> int" where
  "inflight rr key organization_id =
     (case dget (rr_rungs rr) key of None \<Rightarrow> 0
      | Some r \<Rightarrow>
          (case organization_id of None \<Rightarrow> rl_total r
           | Some o_id \<Rightarrow> (case dget (rl_organizations r) o_id of None \<Rightarrow> 0 | Some l \<Rightarrow> ol_inflight l)))"

definition fast_inflight :: "rung_registry \<Rightarrow> rung_load_key \<Rightarrow> int" where
  "fast_inflight rr key = (case dget (rr_rungs rr) key of None \<Rightarrow> 0 | Some r \<Rightarrow> rl_fast r)"

definition failover_inflight :: "rung_registry \<Rightarrow> rung_load_key \<Rightarrow> int" where
  "failover_inflight rr key = (case dget (rr_rungs rr) key of None \<Rightarrow> 0 | Some r \<Rightarrow> rl_failover_forced r)"

end
