(* ===== verification/Rung_Accounting.thy ===== *)
theory Rung_Accounting
  imports Rung_Admission
begin

text \<open>
  What \<^verbatim>\<open>rung_admission.py\<close> promises: the counters of every rung are exactly the reservations outstanding on it,
  whatever is reserved, shed, bound, released or pruned in between.
\<close>

section \<open>Counting tickets\<close>

text \<open>The outstanding tickets on a rung that satisfy a test of the ticket and its organisation.\<close>

definition ticket_count ::
    "rung_load_key \<Rightarrow> (string \<Rightarrow> string \<Rightarrow> bool) \<Rightarrow> (string, rung_load_key \<times> string) dict \<Rightarrow> int" where
  "ticket_count k P ts = dcount (\<lambda>(t, k', o_id). k' = k \<and> P t o_id) ts"

lemma ticket_count_nonneg [simp]: "0 \<le> ticket_count k P ts"
  by (simp add: ticket_count_def)

lemma ticket_count_mono: "(\<And>t o_id. P t o_id \<Longrightarrow> Q t o_id) \<Longrightarrow> ticket_count k P ts \<le> ticket_count k Q ts"
  unfolding ticket_count_def by (rule dcount_le) auto

lemma ticket_count_add:
  assumes "dget ts t = None" and "\<And>u o_id. u \<noteq> t \<Longrightarrow> P' u o_id = P u o_id"
  shows "ticket_count k P' (dset t (k0, o0) ts) = ticket_count k P ts + (if k0 = k \<and> P' t o0 then 1 else 0)"
proof -
  have "fst e \<noteq> t" if "e \<in> set ts" for e
    using assms(1) that by (auto simp: dget_def map_of_eq_None_iff)
  then have "dcount (\<lambda>(u, k', o_id). k' = k \<and> P' u o_id) ts = dcount (\<lambda>(u, k', o_id). k' = k \<and> P u o_id) ts"
    using assms(2) by (intro dcount_cong) auto
  then show ?thesis by (simp add: ticket_count_def dcount_dset_fresh [OF assms(1)])
qed

lemma ticket_count_del:
  assumes "dkeys_distinct ts" and "dget ts t = Some (k0, o0)" and "\<And>u o_id. u \<noteq> t \<Longrightarrow> P' u o_id = P u o_id"
  shows "ticket_count k P' (dpop t ts) = ticket_count k P ts - (if k0 = k \<and> P t o0 then 1 else 0)"
proof -
  have "fst e \<noteq> t" if "e \<in> set (dpop t ts)" for e using that by (auto simp: dpop_eq_filter)
  then have "dcount (\<lambda>(u, k', o_id). k' = k \<and> P' u o_id) (dpop t ts)
      = dcount (\<lambda>(u, k', o_id). k' = k \<and> P u o_id) (dpop t ts)"
    using assms(3) by (intro dcount_cong) auto
  then show ?thesis by (simp add: ticket_count_def dcount_dpop [OF assms(1,2)])
qed

section \<open>Loads\<close>

definition load_ok :: "rung_load \<Rightarrow> bool" where
  "load_ok r \<longleftrightarrow> rl_window_requests r = int (length (rl_window r))
     \<and> rl_window_tokens r = sum_list (map snd (rl_window r))
     \<and> dkeys_distinct (rl_organizations r)
     \<and> (\<forall>o_id. 0 \<le> ol_fast (org_of r o_id) \<and> ol_fast (org_of r o_id) \<le> ol_inflight (org_of r o_id))"

text \<open>Two loads with the same reservation counters.\<close>

definition same_counts :: "rung_load \<Rightarrow> rung_load \<Rightarrow> bool" where
  "same_counts r r' \<longleftrightarrow> rl_total r' = rl_total r \<and> rl_fast r' = rl_fast r
     \<and> rl_failover_forced r' = rl_failover_forced r \<and> rl_classes r' = rl_classes r
     \<and> (\<forall>o_id. ol_inflight (org_of r' o_id) = ol_inflight (org_of r o_id)
             \<and> ol_fast (org_of r' o_id) = ol_fast (org_of r o_id))"

definition tracks :: "rung_load \<Rightarrow> rung_load \<Rightarrow> bool" where
  "tracks r r' \<longleftrightarrow> same_counts r r' \<and> load_ok r'"

lemma tracks_refl: "load_ok r \<Longrightarrow> tracks r r"
  by (simp add: tracks_def same_counts_def)

lemma tracks_trans: "tracks r s \<Longrightarrow> tracks s t \<Longrightarrow> tracks r t"
  by (simp add: tracks_def same_counts_def)

lemma new_rung_load_ok [simp]: "load_ok new_rung_load"
  by (simp add: load_ok_def new_rung_load_def org_of_def dget_or_def new_organization_load_def)

lemma org_of_dset:
  "org_of (r\<lparr>rl_organizations := dset i x (rl_organizations r)\<rparr>) o_id = (if o_id = i then x else org_of r o_id)"
  by (simp add: org_of_def dget_or_def)

lemma tracks_stamp: "load_ok r \<Longrightarrow> tracks r (stamp_organization i w now r)"
  by (auto simp: tracks_def same_counts_def load_ok_def stamp_organization_def org_of_dset)

lemma tracks_prune_organizations:
  assumes "load_ok r"
  shows "tracks r (prune_organizations window r now)"
proof -
  have d: "dkeys_distinct (rl_organizations r)" using assms by (simp add: load_ok_def)
  let ?r = "prune_organizations window r now"
  have o: "ol_inflight (org_of ?r i) = ol_inflight (org_of r i) \<and> ol_fast (org_of ?r i) = ol_fast (org_of r i)" for i
  proof -
    have "0 \<le> ol_fast (org_of r i) \<and> ol_fast (org_of r i) \<le> ol_inflight (org_of r i)"
      using assms by (simp add: load_ok_def)
    then show ?thesis
      by (auto simp: prune_organizations_def org_of_def dget_or_def dget_filter_key [OF d] new_organization_load_def
          split: option.splits)
  qed
  then show ?thesis using assms
    by (auto simp: tracks_def same_counts_def load_ok_def) (auto simp: prune_organizations_def)
qed

lemma tracks_cache:
  "load_ok r \<Longrightarrow> tracks r (r\<lparr>rl_cache_fractions := x\<rparr>)" "load_ok r \<Longrightarrow> tracks r (prune_cache_fractions r now)"
  by (auto simp: tracks_def same_counts_def load_ok_def org_of_def prune_cache_fractions_def)

lemma drop_expired_split:
  "drop_expired h w = (n, k, rest) \<Longrightarrow> int (length w) = n + int (length rest)
     \<and> sum_list (map snd w) = k + sum_list (map snd rest)"
  by (induction w arbitrary: n k) (auto split: if_splits prod.splits)

lemma tracks_prune_window: "load_ok r \<Longrightarrow> tracks r (prune_window r now)"
  using drop_expired_split [of "now - RATE_WINDOW_SECONDS" "rl_window r"]
  by (auto simp: tracks_def same_counts_def load_ok_def prune_window_def org_of_def split: prod.splits)

lemma tracks_learned:
  "load_ok r \<Longrightarrow> tracks r (r\<lparr>rl_learned_rpm := x, rl_learned_throttled_at := y, rl_learned_crept_at := z\<rparr>)"
  by (auto simp: tracks_def same_counts_def load_ok_def org_of_def)

lemma tracks_working_rpm: "load_ok r \<Longrightarrow> tracks r (snd (working_rpm r authored now))"
  by (auto simp: working_rpm_def tracks_def same_counts_def load_ok_def org_of_def Let_def split: option.splits)

lemma tracks_shed_reason: "load_ok r \<Longrightarrow> tracks r (snd (shed_reason window r i now a))"
  using tracks_working_rpm [of r "sa_requests_per_minute a" now] tracks_refl [of r]
  by (auto simp: shed_reason_def split: option.splits prod.splits)

lemma tracks_decide: "load_ok r \<Longrightarrow> tracks r (snd (decide window now a r))"
  using tracks_shed_reason tracks_refl by (auto simp: decide_def Let_def split: option.splits)

lemma tracks_stamped:
  assumes "load_ok r"
  shows "tracks r (stamped_rung window i w now r)"
proof -
  have s: "tracks r (stamp_organization i w now r)" by (rule tracks_stamp [OF assms])
  then have p: "tracks r (prune_organizations window (stamp_organization i w now r) now)"
    using tracks_prune_organizations tracks_trans by (meson tracks_def)
  then show ?thesis unfolding stamped_rung_def prune_rung_def using tracks_cache(2) tracks_trans by (meson tracks_def)
qed

text \<open>The requesting organisation and its rung survive the prune that follows the stamp.\<close>

lemma prune_keeps_requester:
  assumes "load_ok r" and "0 < window"
  shows "dget (rl_organizations (stamped_rung window i w now r)) i \<noteq> None"
    and "\<not> rung_idle (stamped_rung window i w now r)"
proof -
  have d: "dkeys_distinct (rl_organizations (stamp_organization i w now r))"
    using assms(1) by (simp add: load_ok_def stamp_organization_def)
  show k: "dget (rl_organizations (stamped_rung window i w now r)) i \<noteq> None"
    using assms(2) by (auto simp: stamped_rung_def prune_rung_def prune_cache_fractions_def prune_organizations_def
        dget_filter_key [OF d]) (auto simp: stamp_organization_def)
  then show "\<not> rung_idle (stamped_rung window i w now r)" by (auto simp: rung_idle_def)
qed

section \<open>The registry invariant\<close>

text \<open>The counters of one rung against the outstanding tickets.\<close>

definition rung_counts :: "rung_registry \<Rightarrow> rung_load_key \<Rightarrow> rung_load \<Rightarrow> bool" where
  "rung_counts rr k r \<longleftrightarrow>
     rl_total r = ticket_count k (\<lambda>t o_id. True) (rr_tickets rr)
     \<and> rl_fast r = ticket_count k (\<lambda>t o_id. t \<in> set (rr_fast_tickets rr)) (rr_tickets rr)
     \<and> rl_failover_forced r = ticket_count k (\<lambda>t o_id. t \<in> set (rr_failover_tickets rr)) (rr_tickets rr)
     \<and> (\<forall>c. dget_or 0 (rl_classes r) c
            = ticket_count k (\<lambda>t o_id. dget (rr_ticket_classes rr) t = Some c) (rr_tickets rr))
     \<and> (\<forall>i. ol_inflight (org_of r i) = ticket_count k (\<lambda>t o_id. o_id = i) (rr_tickets rr)
          \<and> ol_fast (org_of r i) = ticket_count k (\<lambda>t o_id. o_id = i \<and> t \<in> set (rr_fast_tickets rr)) (rr_tickets rr))"

definition registry_inv :: "rung_registry \<Rightarrow> bool" where
  "registry_inv rr \<longleftrightarrow> 0 < rr_activity_window rr \<and> dkeys_distinct (rr_tickets rr)
     \<and> set (rr_fast_tickets rr) \<subseteq> dom (dget (rr_tickets rr))
     \<and> set (rr_failover_tickets rr) \<subseteq> dom (dget (rr_tickets rr))
     \<and> dom (dget (rr_ticket_classes rr)) \<subseteq> dom (dget (rr_tickets rr))
     \<and> (\<forall>k. rung_counts rr k (rung_of rr k) \<and> load_ok (rung_of rr k))"

lemma rung_of_put [simp]: "rung_of (put_rung k r rr) k' = (if k' = k then r else rung_of rr k')"
  by (simp add: rung_of_def put_rung_def dget_or_def)

lemma put_rung_fields [simp]:
  "rr_tickets (put_rung k r rr) = rr_tickets rr" "rr_fast_tickets (put_rung k r rr) = rr_fast_tickets rr"
  "rr_failover_tickets (put_rung k r rr) = rr_failover_tickets rr"
  "rr_ticket_classes (put_rung k r rr) = rr_ticket_classes rr"
  "rr_activity_window (put_rung k r rr) = rr_activity_window rr"
  "rr_attempts (put_rung k r rr) = rr_attempts rr" "rr_fleet (put_rung k r rr) = rr_fleet rr"
  "rr_ticket_windows (put_rung k r rr) = rr_ticket_windows rr"
  by (simp_all add: put_rung_def)

text \<open>What the invariant reads of a registry.\<close>

definition same_books :: "rung_registry \<Rightarrow> rung_registry \<Rightarrow> bool" where
  "same_books rr rr' \<longleftrightarrow> rr_tickets rr' = rr_tickets rr \<and> rr_fast_tickets rr' = rr_fast_tickets rr
     \<and> rr_failover_tickets rr' = rr_failover_tickets rr \<and> rr_ticket_classes rr' = rr_ticket_classes rr
     \<and> rr_activity_window rr' = rr_activity_window rr"

lemma rung_counts_same: "same_books rr rr' \<Longrightarrow> same_counts r r' \<Longrightarrow> rung_counts rr k r \<Longrightarrow> rung_counts rr' k r'"
  by (simp add: rung_counts_def same_books_def same_counts_def)

lemma registry_inv_same:
  assumes "registry_inv rr" and "same_books rr rr'" and "\<And>k. tracks (rung_of rr k) (rung_of rr' k)"
  shows "registry_inv rr'"
proof -
  have "rung_counts rr' k (rung_of rr' k) \<and> load_ok (rung_of rr' k)" for k
    using assms rung_counts_same [OF assms(2), of "rung_of rr k" "rung_of rr' k" k]
    unfolding registry_inv_def tracks_def by blast
  then show ?thesis using assms(1,2) unfolding registry_inv_def same_books_def by auto
qed

lemma inv_load_ok: "registry_inv rr \<Longrightarrow> load_ok (rung_of rr k)"
  unfolding registry_inv_def by blast

lemma registry_inv_put:
  assumes "registry_inv rr" and "tracks (rung_of rr k) r"
  shows "registry_inv (put_rung k r rr)"
proof (rule registry_inv_same [OF assms(1)])
  show "tracks (rung_of rr j) (rung_of (put_rung k r rr) j)" for j
    using assms(2) tracks_refl [OF inv_load_ok [OF assms(1), of j]] by auto
qed (simp add: same_books_def)

lemma registry_inv_irrelevant [simp]:
  "registry_inv (rr\<lparr>rr_attempts := a\<rparr>) = registry_inv rr"
  "registry_inv (rr\<lparr>rr_ticket_windows := b\<rparr>) = registry_inv rr"
  "registry_inv (rr\<lparr>rr_fleet := c\<rparr>) = registry_inv rr"
  by (simp_all add: registry_inv_def rung_counts_def rung_of_def)

lemma inv_distinct: "registry_inv rr \<Longrightarrow> dkeys_distinct (rr_tickets rr)"
  unfolding registry_inv_def by blast

lemma inv_counts: "registry_inv rr \<Longrightarrow> rung_counts rr k (rung_of rr k)"
  unfolding registry_inv_def by blast

subsection \<open>Reserving\<close>

lemma org_of_admit:
  "org_of (admit_rung now a r) i =
     (if i = ra_organization_id a
      then (org_of r i)\<lparr>ol_inflight := ol_inflight (org_of r i) + 1,
                        ol_fast := ol_fast (org_of r i) + (if ra_fast a then 1 else 0)\<rparr>
      else org_of r i)"
  by (simp add: admit_rung_def org_of_def dget_or_def Let_def)

lemma load_ok_admit:
  assumes "load_ok r"
  shows "load_ok (admit_rung now a r)"
proof -
  have "0 \<le> ol_fast (org_of (admit_rung now a r) i)
      \<and> ol_fast (org_of (admit_rung now a r) i) \<le> ol_inflight (org_of (admit_rung now a r) i)" for i
  proof -
    have "0 \<le> ol_fast (org_of r i)" "ol_fast (org_of r i) \<le> ol_inflight (org_of r i)"
      using assms by (simp_all add: load_ok_def)
    then show ?thesis by (auto simp: org_of_admit)
  qed
  moreover have "dkeys_distinct (rl_organizations (admit_rung now a r))"
    using assms by (simp add: load_ok_def admit_rung_def Let_def)
  ultimately show ?thesis using assms by (simp add: load_ok_def) (simp add: admit_rung_def Let_def)
qed

text \<open>How a recorded ticket moves each count.\<close>

definition fresh_ticket :: "string \<Rightarrow> rung_registry \<Rightarrow> bool" where
  "fresh_ticket t rr \<longleftrightarrow> dget (rr_tickets rr) t = None \<and> t \<notin> set (rr_fast_tickets rr)
     \<and> t \<notin> set (rr_failover_tickets rr) \<and> dget (rr_ticket_classes rr) t = None"

lemma inv_fresh: "registry_inv rr \<Longrightarrow> dget (rr_tickets rr) t = None \<Longrightarrow> fresh_ticket t rr"
  unfolding registry_inv_def fresh_ticket_def by (auto simp: subset_iff dom_def)

lemma record_ticket_counts:
  assumes "fresh_ticket t rr" and "rr' = record_ticket t now a rr"
  shows "ticket_count k (\<lambda>u o_id. True) (rr_tickets rr')
      = ticket_count k (\<lambda>u o_id. True) (rr_tickets rr) + (if ra_key a = k then 1 else 0)"
    and "ticket_count k (\<lambda>u o_id. u \<in> set (rr_fast_tickets rr')) (rr_tickets rr')
      = ticket_count k (\<lambda>u o_id. u \<in> set (rr_fast_tickets rr)) (rr_tickets rr)
        + (if ra_key a = k \<and> ra_fast a then 1 else 0)"
    and "ticket_count k (\<lambda>u o_id. u \<in> set (rr_failover_tickets rr')) (rr_tickets rr')
      = ticket_count k (\<lambda>u o_id. u \<in> set (rr_failover_tickets rr)) (rr_tickets rr)
        + (if ra_key a = k \<and> ra_force a \<and> ra_failover_cap a \<noteq> None then 1 else 0)"
    and "ticket_count k (\<lambda>u o_id. dget (rr_ticket_classes rr') u = Some c) (rr_tickets rr')
      = ticket_count k (\<lambda>u o_id. dget (rr_ticket_classes rr) u = Some c) (rr_tickets rr)
        + (if ra_key a = k \<and> map_option fst (ra_class_cap a) = Some c then 1 else 0)"
    and "ticket_count k (\<lambda>u o_id. o_id = i) (rr_tickets rr')
      = ticket_count k (\<lambda>u o_id. o_id = i) (rr_tickets rr)
        + (if ra_key a = k \<and> ra_organization_id a = i then 1 else 0)"
    and "ticket_count k (\<lambda>u o_id. o_id = i \<and> u \<in> set (rr_fast_tickets rr')) (rr_tickets rr')
      = ticket_count k (\<lambda>u o_id. o_id = i \<and> u \<in> set (rr_fast_tickets rr)) (rr_tickets rr)
        + (if ra_key a = k \<and> ra_organization_id a = i \<and> ra_fast a then 1 else 0)"
proof -
  have f: "dget (rr_tickets rr) t = None" "t \<notin> set (rr_fast_tickets rr)" "t \<notin> set (rr_failover_tickets rr)"
    "dget (rr_ticket_classes rr) t = None" using assms(1) by (auto simp: fresh_ticket_def)
  have ts: "rr_tickets rr' = dset t (ra_key a, ra_organization_id a) (rr_tickets rr)"
    and fs: "set (rr_fast_tickets rr') = (if ra_fast a then insert t (set (rr_fast_tickets rr)) else set (rr_fast_tickets rr))"
    and vs: "set (rr_failover_tickets rr') = (if ra_force a \<and> ra_failover_cap a \<noteq> None
      then insert t (set (rr_failover_tickets rr)) else set (rr_failover_tickets rr))"
    and cs: "dget (rr_ticket_classes rr') u = (if u = t \<and> ra_class_cap a \<noteq> None then map_option fst (ra_class_cap a)
      else dget (rr_ticket_classes rr) u)" for u
    by (auto simp: assms(2) record_ticket_def split: option.splits)
  note add = ticket_count_add [OF f(1), where k = k and ?k0.0 = "ra_key a" and ?o0.0 = "ra_organization_id a", folded ts]
  show "ticket_count k (\<lambda>u o_id. True) (rr_tickets rr')
      = ticket_count k (\<lambda>u o_id. True) (rr_tickets rr) + (if ra_key a = k then 1 else 0)"
    by (subst add [where P = "\<lambda>u o_id. True"]) auto
  show "ticket_count k (\<lambda>u o_id. u \<in> set (rr_fast_tickets rr')) (rr_tickets rr')
      = ticket_count k (\<lambda>u o_id. u \<in> set (rr_fast_tickets rr)) (rr_tickets rr)
        + (if ra_key a = k \<and> ra_fast a then 1 else 0)"
    by (subst add [where P = "\<lambda>u o_id. u \<in> set (rr_fast_tickets rr)"]) (auto simp: fs f)
  show "ticket_count k (\<lambda>u o_id. u \<in> set (rr_failover_tickets rr')) (rr_tickets rr')
      = ticket_count k (\<lambda>u o_id. u \<in> set (rr_failover_tickets rr)) (rr_tickets rr)
        + (if ra_key a = k \<and> ra_force a \<and> ra_failover_cap a \<noteq> None then 1 else 0)"
    by (subst add [where P = "\<lambda>u o_id. u \<in> set (rr_failover_tickets rr)"]) (auto simp: vs f)
  show "ticket_count k (\<lambda>u o_id. dget (rr_ticket_classes rr') u = Some c) (rr_tickets rr')
      = ticket_count k (\<lambda>u o_id. dget (rr_ticket_classes rr) u = Some c) (rr_tickets rr)
        + (if ra_key a = k \<and> map_option fst (ra_class_cap a) = Some c then 1 else 0)"
    by (subst add [where P = "\<lambda>u o_id. dget (rr_ticket_classes rr) u = Some c"]) (auto simp: cs f)
  show "ticket_count k (\<lambda>u o_id. o_id = i) (rr_tickets rr')
      = ticket_count k (\<lambda>u o_id. o_id = i) (rr_tickets rr)
        + (if ra_key a = k \<and> ra_organization_id a = i then 1 else 0)"
    by (subst add [where P = "\<lambda>u o_id. o_id = i"]) auto
  show "ticket_count k (\<lambda>u o_id. o_id = i \<and> u \<in> set (rr_fast_tickets rr')) (rr_tickets rr')
      = ticket_count k (\<lambda>u o_id. o_id = i \<and> u \<in> set (rr_fast_tickets rr)) (rr_tickets rr)
        + (if ra_key a = k \<and> ra_organization_id a = i \<and> ra_fast a then 1 else 0)"
    by (subst add [where P = "\<lambda>u o_id. o_id = i \<and> u \<in> set (rr_fast_tickets rr)"]) (auto simp: fs f)
qed

lemma rung_counts_admit:
  assumes "fresh_ticket t rr" and "rung_counts rr (ra_key a) r"
  shows "rung_counts (record_ticket t now a rr) (ra_key a) (admit_rung now a r)"
proof -
  have cls: "dget_or 0 (rl_classes (admit_rung now a r)) c
      = dget_or 0 (rl_classes r) c + (if map_option fst (ra_class_cap a) = Some c then 1 else 0)" for c
    by (auto simp: admit_rung_def Let_def dget_or_def split: option.splits)
  have totals: "rl_total (admit_rung now a r) = rl_total r + 1"
    "rl_fast (admit_rung now a r) = rl_fast r + (if ra_fast a then 1 else 0)"
    "rl_failover_forced (admit_rung now a r)
      = rl_failover_forced r + (if ra_force a \<and> ra_failover_cap a \<noteq> None then 1 else 0)"
    by (simp_all add: admit_rung_def Let_def)
  show ?thesis
    using assms(2) unfolding rung_counts_def cls totals org_of_admit record_ticket_counts [OF assms(1) refl] by auto
qed

lemma rung_counts_other:
  assumes "fresh_ticket t rr" and "rung_counts rr k r" and "k \<noteq> ra_key a"
  shows "rung_counts (record_ticket t now a rr) k r"
  using assms(2,3) unfolding rung_counts_def record_ticket_counts [OF assms(1) refl] by auto

lemma registry_inv_admit:
  assumes inv: "registry_inv rr" and t: "dget (rr_tickets rr) t = None" and r: "tracks (rung_of rr (ra_key a)) r"
  shows "registry_inv (record_ticket t now a (put_rung (ra_key a) (admit_rung now a r) rr))"
proof -
  let ?rr = "put_rung (ra_key a) r rr" and ?rr' = "record_ticket t now a (put_rung (ra_key a) (admit_rung now a r) rr)"
  have inv1: "registry_inv ?rr" by (rule registry_inv_put [OF inv r])
  have f: "fresh_ticket t ?rr" using inv_fresh [OF inv1] t by simp
  have books: "same_books (record_ticket t now a ?rr) ?rr'" by (auto simp: same_books_def record_ticket_def split: option.splits)
  have rung: "rung_of ?rr' k = (if k = ra_key a then admit_rung now a r else rung_of rr k)" for k
    by (simp add: record_ticket_def rung_of_def put_rung_def dget_or_def)
  have "rung_counts ?rr' k (rung_of ?rr' k) \<and> load_ok (rung_of ?rr' k)" for k
  proof (cases "k = ra_key a")
    case True
    have "rung_counts ?rr (ra_key a) r" using inv_counts [OF inv1, of "ra_key a"] by simp
    from rung_counts_admit [OF f this, of now] have "rung_counts ?rr' (ra_key a) (admit_rung now a r)"
      using rung_counts_same [OF books, of "admit_rung now a r" "admit_rung now a r" "ra_key a"]
      by (simp add: same_counts_def)
    moreover have "load_ok (admit_rung now a r)" using r load_ok_admit by (simp add: tracks_def)
    ultimately show ?thesis using True by (simp add: rung)
  next
    case False
    have "rung_counts ?rr k (rung_of rr k)" "load_ok (rung_of rr k)"
      using inv_counts [OF inv1, of k] inv_load_ok [OF inv] False by simp_all
    from rung_counts_other [OF f this(1) False, of now] this(2) show ?thesis
      using False rung_counts_same [OF books, of "rung_of rr k" "rung_of rr k" k] by (simp add: rung same_counts_def)
  qed
  moreover have "0 < rr_activity_window ?rr'" "dkeys_distinct (rr_tickets ?rr')"
      "set (rr_fast_tickets ?rr') \<subseteq> dom (dget (rr_tickets ?rr'))"
      "set (rr_failover_tickets ?rr') \<subseteq> dom (dget (rr_tickets ?rr'))"
      "dom (dget (rr_ticket_classes ?rr')) \<subseteq> dom (dget (rr_tickets ?rr'))"
    using inv by (auto simp: registry_inv_def record_ticket_def dom_def split: option.splits)
  ultimately show ?thesis unfolding registry_inv_def by blast
qed

lemma registry_inv_reserve:
  assumes inv: "registry_inv rr" and t: "dget (rr_tickets rr) t = None"
  shows "registry_inv (snd (reserve t now a rr))"
proof -
  let ?r0 = "stamped_rung (rr_activity_window rr) (ra_organization_id a) (ra_weight a) now (rung_of rr (ra_key a))"
  let ?r1 = "prune_window ?r0 now"
  have pos: "0 < rr_activity_window rr" using inv by (simp add: registry_inv_def)
  note ok = inv_load_ok [OF inv, of "ra_key a"]
  have idle: "\<not> rung_idle ?r0" using prune_keeps_requester(2) [OF ok pos] .
  have t0: "tracks (rung_of rr (ra_key a)) ?r0" by (rule tracks_stamped [OF ok])
  then have t1: "tracks (rung_of rr (ra_key a)) ?r1" using tracks_prune_window tracks_trans by (meson tracks_def)
  then have t2: "tracks (rung_of rr (ra_key a)) (snd (decide (rr_activity_window rr) now a ?r1))"
    using tracks_decide tracks_trans by (meson tracks_def)
  obtain shed r2 where d: "decide (rr_activity_window rr) now a ?r1 = (shed, r2)" by fastforce
  then show ?thesis using t2 idle registry_inv_put [OF inv, of "ra_key a" r2] registry_inv_admit [OF inv t, of a r2 now]
    by (cases shed) (simp_all add: reserve_def store_rung_def Let_def)
qed

subsection \<open>Releasing\<close>

lemma release_counts:
  assumes d: "dkeys_distinct (rr_tickets rr)" and t: "dget (rr_tickets rr) t = Some (k0, o0)"
    and books: "rr_tickets rr' = dpop t (rr_tickets rr)" "rr_ticket_classes rr' = dpop t (rr_ticket_classes rr)"
      "rr_fast_tickets rr' = removeAll t (rr_fast_tickets rr)"
      "rr_failover_tickets rr' = removeAll t (rr_failover_tickets rr)"
  shows "ticket_count k (\<lambda>u o_id. True) (rr_tickets rr')
      = ticket_count k (\<lambda>u o_id. True) (rr_tickets rr) - (if k0 = k then 1 else 0)"
    and "ticket_count k (\<lambda>u o_id. u \<in> set (rr_fast_tickets rr')) (rr_tickets rr')
      = ticket_count k (\<lambda>u o_id. u \<in> set (rr_fast_tickets rr)) (rr_tickets rr)
        - (if k0 = k \<and> t \<in> set (rr_fast_tickets rr) then 1 else 0)"
    and "ticket_count k (\<lambda>u o_id. u \<in> set (rr_failover_tickets rr')) (rr_tickets rr')
      = ticket_count k (\<lambda>u o_id. u \<in> set (rr_failover_tickets rr)) (rr_tickets rr)
        - (if k0 = k \<and> t \<in> set (rr_failover_tickets rr) then 1 else 0)"
    and "ticket_count k (\<lambda>u o_id. dget (rr_ticket_classes rr') u = Some c) (rr_tickets rr')
      = ticket_count k (\<lambda>u o_id. dget (rr_ticket_classes rr) u = Some c) (rr_tickets rr)
        - (if k0 = k \<and> dget (rr_ticket_classes rr) t = Some c then 1 else 0)"
    and "ticket_count k (\<lambda>u o_id. o_id = i) (rr_tickets rr')
      = ticket_count k (\<lambda>u o_id. o_id = i) (rr_tickets rr) - (if k0 = k \<and> o0 = i then 1 else 0)"
    and "ticket_count k (\<lambda>u o_id. o_id = i \<and> u \<in> set (rr_fast_tickets rr')) (rr_tickets rr')
      = ticket_count k (\<lambda>u o_id. o_id = i \<and> u \<in> set (rr_fast_tickets rr)) (rr_tickets rr)
        - (if k0 = k \<and> o0 = i \<and> t \<in> set (rr_fast_tickets rr) then 1 else 0)"
proof -
  note del = ticket_count_del [OF d t, where k = k, folded books(1)]
  show "ticket_count k (\<lambda>u o_id. True) (rr_tickets rr')
      = ticket_count k (\<lambda>u o_id. True) (rr_tickets rr) - (if k0 = k then 1 else 0)"
    by (subst del [where P = "\<lambda>u o_id. True"]) (auto simp: books)
  show "ticket_count k (\<lambda>u o_id. u \<in> set (rr_fast_tickets rr')) (rr_tickets rr')
      = ticket_count k (\<lambda>u o_id. u \<in> set (rr_fast_tickets rr)) (rr_tickets rr)
        - (if k0 = k \<and> t \<in> set (rr_fast_tickets rr) then 1 else 0)"
    by (subst del [where P = "\<lambda>u o_id. u \<in> set (rr_fast_tickets rr)"]) (auto simp: books)
  show "ticket_count k (\<lambda>u o_id. u \<in> set (rr_failover_tickets rr')) (rr_tickets rr')
      = ticket_count k (\<lambda>u o_id. u \<in> set (rr_failover_tickets rr)) (rr_tickets rr)
        - (if k0 = k \<and> t \<in> set (rr_failover_tickets rr) then 1 else 0)"
    by (subst del [where P = "\<lambda>u o_id. u \<in> set (rr_failover_tickets rr)"]) (auto simp: books)
  show "ticket_count k (\<lambda>u o_id. dget (rr_ticket_classes rr') u = Some c) (rr_tickets rr')
      = ticket_count k (\<lambda>u o_id. dget (rr_ticket_classes rr) u = Some c) (rr_tickets rr)
        - (if k0 = k \<and> dget (rr_ticket_classes rr) t = Some c then 1 else 0)"
    by (subst del [where P = "\<lambda>u o_id. dget (rr_ticket_classes rr) u = Some c"]) (auto simp: books)
  show "ticket_count k (\<lambda>u o_id. o_id = i) (rr_tickets rr')
      = ticket_count k (\<lambda>u o_id. o_id = i) (rr_tickets rr) - (if k0 = k \<and> o0 = i then 1 else 0)"
    by (subst del [where P = "\<lambda>u o_id. o_id = i"]) (auto simp: books)
  show "ticket_count k (\<lambda>u o_id. o_id = i \<and> u \<in> set (rr_fast_tickets rr')) (rr_tickets rr')
      = ticket_count k (\<lambda>u o_id. o_id = i \<and> u \<in> set (rr_fast_tickets rr)) (rr_tickets rr)
        - (if k0 = k \<and> o0 = i \<and> t \<in> set (rr_fast_tickets rr) then 1 else 0)"
    by (subst del [where P = "\<lambda>u o_id. o_id = i \<and> u \<in> set (rr_fast_tickets rr)"]) (auto simp: books)
qed

text \<open>The guards of the release never bite: every counter it lowers is positive.\<close>

lemma held_ticket_counts:
  assumes "rung_counts rr k r" and "dget (rr_tickets rr) t = Some (k, o0)"
  shows "0 < rl_total r" "0 < ol_inflight (org_of r o0)"
    "t \<in> set (rr_fast_tickets rr) \<Longrightarrow> 0 < rl_fast r \<and> 0 < ol_fast (org_of r o0)"
    "t \<in> set (rr_failover_tickets rr) \<Longrightarrow> 0 < rl_failover_forced r"
    "dget (rr_ticket_classes rr) t = Some c \<Longrightarrow> 0 < dget_or 0 (rl_classes r) c"
  using assms(1) dcount_pos [OF assms(2)]
  by (auto simp: rung_counts_def ticket_count_def)

lemma org_of_release:
  assumes "0 < ol_inflight (org_of r o0)"
  shows "org_of (release_rung o0 c was_fast was_failover r) i =
     (if i = o0 then (org_of r i)\<lparr>ol_inflight := ol_inflight (org_of r i) - 1,
          ol_fast := (if was_fast \<and> ol_fast (org_of r i) > 0 then ol_fast (org_of r i) - 1 else ol_fast (org_of r i))\<rparr>
      else org_of r i)"
  using assms
  by (auto simp: release_rung_def Let_def org_of_def dget_or_def new_organization_load_def split: option.splits)

lemma release_rung_fields:
  "rl_total (release_rung o0 c was_fast was_failover r) = (if rl_total r > 0 then rl_total r - 1 else rl_total r)"
  "rl_fast (release_rung o0 c was_fast was_failover r) = (if was_fast \<and> rl_fast r > 0 then rl_fast r - 1 else rl_fast r)"
  "rl_failover_forced (release_rung o0 c was_fast was_failover r)
    = (if was_failover \<and> rl_failover_forced r > 0 then rl_failover_forced r - 1 else rl_failover_forced r)"
  "rl_classes (release_rung o0 c was_fast was_failover r)
    = (case c of None \<Rightarrow> rl_classes r | Some x \<Rightarrow> if dget_or 0 (rl_classes r) x > 0
        then dset x (dget_or 0 (rl_classes r) x - 1) (rl_classes r) else rl_classes r)"
  "rl_window (release_rung o0 c was_fast was_failover r) = rl_window r"
  "rl_window_requests (release_rung o0 c was_fast was_failover r) = rl_window_requests r"
  "rl_window_tokens (release_rung o0 c was_fast was_failover r) = rl_window_tokens r"
  "dkeys_distinct (rl_organizations r) \<Longrightarrow> dkeys_distinct (rl_organizations (release_rung o0 c was_fast was_failover r))"
  by (simp_all add: release_rung_def Let_def split: option.splits)

lemma registry_inv_release:
  assumes inv: "registry_inv rr"
  shows "registry_inv (release_locked t rr)"
proof (cases "dget (rr_tickets rr) t")
  case None
  then show ?thesis using inv by (simp add: release_locked_def dpop_absent)
next
  case (Some e)
  obtain k0 o0 where t: "dget (rr_tickets rr) t = Some (k0, o0)" using Some by (cases e) simp
  let ?r = "rung_of rr k0" and ?cls = "dget (rr_ticket_classes rr) t" and ?f = "t \<in> set (rr_fast_tickets rr)"
    and ?v = "t \<in> set (rr_failover_tickets rr)"
  let ?r' = "release_rung o0 ?cls ?f ?v ?r" and ?rr' = "release_locked t rr"
  note c = inv_counts [OF inv, of k0]
  note pos = held_ticket_counts [OF c t]
  have "dget (rr_rungs rr) k0 \<noteq> None"
    using pos(1) by (cases "dget (rr_rungs rr) k0") (simp_all add: rung_of_def dget_or_def new_rung_load_def)
  then have r: "dget (rr_rungs rr) k0 = Some ?r" by (auto simp: rung_of_def dget_or_def)
  have books: "rr_tickets ?rr' = dpop t (rr_tickets rr)" "rr_ticket_classes ?rr' = dpop t (rr_ticket_classes rr)"
      "rr_fast_tickets ?rr' = removeAll t (rr_fast_tickets rr)"
      "rr_failover_tickets ?rr' = removeAll t (rr_failover_tickets rr)" "rr_activity_window ?rr' = rr_activity_window rr"
    using t r by (simp_all add: release_locked_def Let_def)
  have rung: "rung_of ?rr' k = (if k = k0 then ?r' else rung_of rr k)" for k
    using t r by (simp add: release_locked_def Let_def) (simp add: rung_of_def)
  note cnt = release_counts [OF inv_distinct [OF inv] t books(1-4)]
  have cls: "dget_or 0 (rl_classes ?r') x = dget_or 0 (rl_classes ?r) x - (if ?cls = Some x then 1 else 0)" for x
    using pos(5) by (cases ?cls) (auto simp: release_rung_fields dget_or_def)
  have own: "rung_counts ?rr' k0 ?r'"
    using c pos(1-4) unfolding cnt rung_counts_def cls release_rung_fields(1-3) org_of_release [OF pos(2)] by auto
  have other: "rung_counts ?rr' k (rung_of rr k)" if "k \<noteq> k0" for k
    using inv_counts [OF inv, of k] that unfolding cnt rung_counts_def by auto
  have "0 \<le> ol_fast (org_of ?r' i) \<and> ol_fast (org_of ?r' i) \<le> ol_inflight (org_of ?r' i)" for i
    using own unfolding rung_counts_def by (auto intro: ticket_count_mono)
  then have ok: "load_ok ?r'"
    using inv_load_ok [OF inv, of k0] release_rung_fields(8) unfolding load_ok_def release_rung_fields(5-7) by blast
  have "rung_counts ?rr' k (rung_of ?rr' k) \<and> load_ok (rung_of ?rr' k)" for k
    using own ok other [of k] inv_load_ok [OF inv, of k] by (cases "k = k0") (simp_all add: rung)
  moreover have "set (rr_fast_tickets ?rr') \<subseteq> dom (dget (rr_tickets ?rr'))"
      "set (rr_failover_tickets ?rr') \<subseteq> dom (dget (rr_tickets ?rr'))"
      "dom (dget (rr_ticket_classes ?rr')) \<subseteq> dom (dget (rr_tickets ?rr'))"
    using inv unfolding registry_inv_def books by (auto simp: subset_iff dom_def)
  ultimately show ?thesis using inv books(1,5) unfolding registry_inv_def by (simp add: dkeys_distinct_dpop)
qed

subsection \<open>The other operations\<close>

lemma registry_inv_fleet [simp]: "registry_inv (with_fleet f rr) = registry_inv rr"
  by (simp add: with_fleet_def)

lemma registry_inv_can_admit:
  assumes inv: "registry_inv rr"
  shows "registry_inv (snd (can_admit now a rr))"
proof (cases "dget (rr_rungs rr) (ra_key a)")
  case None
  then show ?thesis using inv by (simp add: can_admit_def)
next
  case (Some r)
  let ?r0 = "stamped_rung (rr_activity_window rr) (ra_organization_id a) (ra_weight a) now r"
  have r: "rung_of rr (ra_key a) = r" using Some by (simp add: rung_of_def dget_or_def)
  have ok: "load_ok r" using inv_load_ok [OF inv, of "ra_key a"] r by simp
  have pos: "0 < rr_activity_window rr" using inv by (simp add: registry_inv_def)
  have t1: "tracks r (prune_window ?r0 now)"
    using tracks_stamped [OF ok] tracks_prune_window tracks_trans by (meson tracks_def)
  have t2: "tracks r (snd (shed_reason w (prune_window ?r0 now) i n x))" for w i n x
    using t1 tracks_shed_reason tracks_trans by (meson tracks_def)
  have idle: "\<not> rung_idle ?r0" using prune_keeps_requester(2) [OF ok pos] .
  have "registry_inv (put_rung (ra_key a) (snd (shed_reason w (prune_window ?r0 now) i n x)) rr)"
    "registry_inv (put_rung (ra_key a) (prune_window ?r0 now) rr)" for w i n x
    using registry_inv_put [OF inv, of "ra_key a"] t1 t2 unfolding r by blast+
  then show ?thesis using Some idle
    by (simp add: can_admit_def store_rung_def Let_def case_prod_beta)
qed

lemma ticket_rung_of: "ticket_rung rr t = Some (k, r) \<Longrightarrow> r = rung_of rr k"
  by (auto simp: ticket_rung_def rung_of_def dget_or_def split: option.splits)

lemma sum_remove1: "e \<in> set xs \<Longrightarrow> sum_list (map f (remove1 e xs)) = sum_list (map f xs) - (f e :: int)"
  by (induction xs) auto

lemma tracks_window:
  assumes "load_ok r" and "e \<in> set (rl_window r)"
  shows "tracks r (r\<lparr>rl_window := remove1 e (rl_window r) @ [(now, snd e)]\<rparr>)"
    and "tracks r (r\<lparr>rl_window := remove1 e (rl_window r), rl_window_requests := rl_window_requests r - 1,
           rl_window_tokens := rl_window_tokens r - snd e\<rparr>)"
proof -
  have "Suc 0 \<le> length (rl_window r)" using assms(2) by (cases "rl_window r") auto
  then have "int (length (remove1 e (rl_window r))) = int (length (rl_window r)) - 1"
    using assms(2) by (simp add: length_remove1 of_nat_diff)
  then show "tracks r (r\<lparr>rl_window := remove1 e (rl_window r) @ [(now, snd e)]\<rparr>)"
    "tracks r (r\<lparr>rl_window := remove1 e (rl_window r), rl_window_requests := rl_window_requests r - 1,
           rl_window_tokens := rl_window_tokens r - snd e\<rparr>)"
    using assms
    by (simp_all add: tracks_def same_counts_def load_ok_def org_of_def sum_remove1)
qed

lemma registry_inv_window:
  assumes inv: "registry_inv rr"
  shows "registry_inv (restamp_window t now rr)" and "registry_inv (retract_window t rr)"
proof -
  have u: "registry_inv (put_rung k (r\<lparr>rl_window := remove1 e (rl_window r) @ [(now, snd e)]\<rparr>) rr)"
      "registry_inv (put_rung k (r\<lparr>rl_window := remove1 e (rl_window r), rl_window_requests := rl_window_requests r - 1,
           rl_window_tokens := rl_window_tokens r - snd e\<rparr>) rr)"
    if "ticket_rung rr t = Some (k, r)" "e \<in> set (rl_window r)" for k r e
    using registry_inv_put [OF inv, of k] tracks_window(1) [OF inv_load_ok [OF inv, of k], of e now] tracks_window(2) [OF inv_load_ok [OF inv, of k], of e]
      ticket_rung_of [OF that(1)] that(2) by simp_all
  show "registry_inv (restamp_window t now rr)"
    using inv u(1) by (auto simp: restamp_window_def split: option.splits)
  have "put_rung k x (rr\<lparr>rr_ticket_windows := y\<rparr>) = (put_rung k x rr)\<lparr>rr_ticket_windows := y\<rparr>" for k x y
    by (simp add: put_rung_def)
  then show "registry_inv (retract_window t rr)"
    using inv u(2) by (auto simp: retract_window_def Let_def split: option.splits)
qed

datatype rung_op =
    Reserve string seconds reserve_args
  | Can_Admit seconds reserve_args
  | Fleet_Acquire string fleet_lane gate_verdict seconds seconds seconds
  | Bind string string
  | Release_Ticket string seconds bool
  | Release_Attempt string bool "fleet_usage option" seconds bool
  | Record_Throttle rung_load_key seconds
  | Record_Settle rung_load_key string int int seconds

text \<open>\<open>uuid4\<close> hands out a ticket that is not outstanding; a repeated one is no step.\<close>

fun rung_step :: "rung_op \<Rightarrow> rung_registry \<Rightarrow> rung_registry" where
  "rung_step (Reserve t now a) rr = (if dget (rr_tickets rr) t = None then snd (reserve t now a rr) else rr)"
| "rung_step (Can_Admit now a) rr = snd (can_admit now a rr)"
| "rung_step (Fleet_Acquire t lane v now wall sent) rr = snd (fleet_acquire t lane v now wall sent rr)"
| "rung_step (Bind t a) rr = bind t a rr"
| "rung_step (Release_Ticket t now raises) rr = release_ticket t now raises rr"
| "rung_step (Release_Attempt a th u now raises) rr = release_attempt a th u now raises rr"
| "rung_step (Record_Throttle k now) rr = record_throttle k now rr"
| "rung_step (Record_Settle k i cached tokens now) rr = record_settle k i cached tokens now rr"

lemma registry_inv_step:
  assumes inv: "registry_inv rr"
  shows "registry_inv (rung_step op rr)"
proof (cases op)
  case (Reserve t now a)
  then show ?thesis using inv registry_inv_reserve by simp
next
  case (Can_Admit now a)
  then show ?thesis using inv registry_inv_can_admit by simp
next
  case (Fleet_Acquire t lane v now wall sent)
  then show ?thesis using inv registry_inv_window registry_inv_release
    by (simp add: fleet_acquire_def split: option.splits prod.splits)
next
  case (Bind t a)
  then show ?thesis using inv by (simp add: bind_def)
next
  case (Release_Ticket t now raises)
  then show ?thesis using inv registry_inv_release by (simp add: release_ticket_def)
next
  case (Release_Attempt a th u now raises)
  then show ?thesis using inv registry_inv_release by (simp add: release_attempt_def split: option.splits)
next
  case (Record_Throttle k now)
  have "tracks (rung_of rr k) (prune_window (rung_of rr k) now)"
    using tracks_prune_window [OF inv_load_ok [OF inv]] .
  moreover have "load_ok (prune_window (rung_of rr k) now)" using calculation by (simp add: tracks_def)
  ultimately show ?thesis using Record_Throttle registry_inv_put [OF inv] tracks_learned tracks_trans
    by (simp add: record_throttle_def Let_def)
next
  case (Record_Settle k i cached tokens now)
  have "tracks (rung_of rr k) (prune_cache_fractions (rung_of rr k) now)"
    using tracks_cache(2) [OF inv_load_ok [OF inv]] .
  moreover have "load_ok (prune_cache_fractions (rung_of rr k) now)" using calculation by (simp add: tracks_def)
  ultimately show ?thesis using Record_Settle inv registry_inv_put [OF inv] tracks_cache(1) tracks_trans
    by (simp add: record_settle_def Let_def)
qed

lemma new_registry_inv: "new_rung_registry w b = Inr rr \<Longrightarrow> registry_inv rr"
  by (auto simp: new_rung_registry_def registry_inv_def rung_counts_def rung_of_def dget_or_def ticket_count_def
      new_rung_load_def org_of_def new_organization_load_def load_ok_def split: if_splits)

lemma attach_gate_inv: "registry_inv rr \<Longrightarrow> registry_inv (attach_fleet_gate rr)"
  by (simp add: attach_fleet_gate_def)

lemma rung_component:
  assumes "new_rung_registry w b = Inr start"
  shows "component rung_step (\<lambda>_. True) start registry_inv"
    and "component rung_step (\<lambda>_. True) (attach_fleet_gate start) registry_inv"
  using new_registry_inv [OF assms] registry_inv_step attach_gate_inv by (unfold_locales; blast)+

definition default_rung_registry :: rung_registry where
  "default_rung_registry = \<lparr>rr_default_bound = None, rr_activity_window = ACTIVITY_WINDOW_SECONDS, rr_rungs = [],
     rr_tickets = [], rr_ticket_classes = [], rr_fast_tickets = [], rr_failover_tickets = [], rr_attempts = [],
     rr_ticket_windows = [], rr_fleet = None\<rparr>"

lemma default_rung_registry: "new_rung_registry ACTIVITY_WINDOW_SECONDS None = Inr default_rung_registry"
  by (simp add: new_rung_registry_def default_rung_registry_def ACTIVITY_WINDOW_SECONDS_def)

interpretation rung_loads: component rung_step "\<lambda>_. True" "attach_fleet_gate default_rung_registry" registry_inv
  by (rule rung_component(2) [OF default_rung_registry])

section \<open>Properties\<close>

lemma inflight_rung: "inflight rr k None = rl_total (rung_of rr k)"
  "inflight rr k (Some i) = ol_inflight (org_of (rung_of rr k) i)"
  "fast_inflight rr k = rl_fast (rung_of rr k)" "failover_inflight rr k = rl_failover_forced (rung_of rr k)"
  by (auto simp: inflight_def fast_inflight_def failover_inflight_def rung_of_def dget_or_def new_rung_load_def org_of_def
      new_organization_load_def split: option.splits)

definition outstanding :: "rung_registry \<Rightarrow> rung_load_key \<Rightarrow> string list" where
  "outstanding rr k = map fst (filter (\<lambda>(t, k', o_id). k' = k) (rr_tickets rr))"

lemma length_outstanding: "int (length (outstanding rr k)) = ticket_count k (\<lambda>t o_id. True) (rr_tickets rr)"
  by (simp add: outstanding_def ticket_count_def dcount_def)

lemma ticket_count_outstanding:
  "ticket_count k (\<lambda>t o_id. P t) (rr_tickets rr) = int (length (filter P (outstanding rr k)))"
proof -
  have "length (filter (\<lambda>(t, k', o_id). k' = k \<and> P t) ts)
      = length (filter P (map fst (filter (\<lambda>(t, k', o_id). k' = k) ts)))" for ts :: "(string, rung_load_key \<times> string) dict"
    by (induction ts) auto
  then show ?thesis by (simp add: outstanding_def ticket_count_def dcount_def)
qed

text \<open>
  C37. The load a worker sees is the load there is. From an empty registry, with or without a fleet gate, after any
  sequence of reservations, sheds, headroom probes, fleet answers, bindings, releases, throttles and settlements: the
  in-flight, \<open>:fast\<close> and forced-failover counts of every rung are the numbers of its outstanding tickets of that sort, so a
  rung whose tickets have all been released reads idle.
\<close>

theorem rung_counters_exact:
  assumes "new_rung_registry w b = Inr start"
    and "reachable rung_step (\<lambda>_. True) (attach_fleet_gate start) rr \<or> reachable rung_step (\<lambda>_. True) start rr"
  shows "inflight rr k None = int (length (outstanding rr k))
    \<and> fast_inflight rr k = int (length (filter (\<lambda>t. t \<in> set (rr_fast_tickets rr)) (outstanding rr k)))
    \<and> failover_inflight rr k = int (length (filter (\<lambda>t. t \<in> set (rr_failover_tickets rr)) (outstanding rr k)))"
proof -
  have "registry_inv rr"
    using assms(2) component.reachable_inv [OF rung_component(1) [OF assms(1)]]
      component.reachable_inv [OF rung_component(2) [OF assms(1)]] by blast
  note c = inv_counts [OF this, of k, unfolded rung_counts_def]
  show ?thesis using c
    by (simp add: inflight_rung length_outstanding flip: ticket_count_outstanding)
qed

definition sample_reserve :: reserve_args where
  "sample_reserve = \<lparr>ra_key = (''d'', ''c''), ra_organization_id = ''acme'', ra_weight = 1, ra_bound = Some 2,
     ra_fair_share = True, ra_requests_per_minute = Some 30, ra_tokens_per_minute = Some 1000,
     ra_cache_priority_alpha = None, ra_reserved_tokens = 400, ra_warm_session = True, ra_fresh_spill_fraction = None,
     ra_force = False, ra_hard_bound = False, ra_overflow_ceiling = None, ra_rate_retry = False, ra_class_cap = None,
     ra_fast = False, ra_fast_reserve = None, ra_fast_reserve_hard = True, ra_failover_cap = None\<rparr>"

definition sample_rung_run :: "rung_op list" where
  "sample_rung_run = [Reserve ''t1'' 1 sample_reserve, Reserve ''t2'' 2 sample_reserve, Reserve ''t3'' 3 sample_reserve,
     Bind ''t1'' ''a1'', Release_Attempt ''a1'' False None 9 False, Release_Ticket ''t1'' 10 False]"

theorem rung_counters_exact_witness:
  "inflight (fold rung_step sample_rung_run default_rung_registry) (''d'', ''c'') None = 1
   \<and> outstanding (fold rung_step sample_rung_run default_rung_registry) (''d'', ''c'') = [''t2'']"
proof -
  let ?rr = "fold rung_step sample_rung_run default_rung_registry"
  have "reachable rung_step (\<lambda>_. True) default_rung_registry ?rr"
    by (rule reachable_fold) (simp add: list_all_iff)
  moreover have "outstanding ?rr (''d'', ''c'') = [''t2'']" by code_simp
  ultimately show ?thesis
    using rung_counters_exact [OF default_rung_registry, of ?rr "(''d'', ''c'')"] by simp
qed

lemma release_locked_gone: "dget (rr_tickets (release_locked t rr)) t = None"
  by (simp add: release_locked_def Let_def split: option.splits prod.splits)

lemma release_locked_again: "release_locked t (release_locked t rr) = release_locked t rr"
proof -
  have "dget (rr_ticket_windows (release_locked t rr)) t = None"
    by (simp add: release_locked_def Let_def split: option.splits prod.splits)
  then show ?thesis using release_locked_gone [of t rr]
    by (simp add: release_locked_def [of t "release_locked t rr"] dpop_absent)
qed

end
