(* ===== verification/Rung_Limits.thy ===== *)
theory Rung_Limits
  imports Rung_Accounting
begin

text \<open>
  What one decision of \<^verbatim>\<open>rung_admission.py\<close> says: the limits an admitted reservation respects, what a shed leaves
  behind, the fairness of shares, the working request ceiling and the cache evidence.
\<close>

section \<open>What an admission guarantees\<close>

definition stamped :: "seconds \<Rightarrow> reserve_args \<Rightarrow> rung_registry \<Rightarrow> rung_load" where
  "stamped now a rr =
     prune_window (stamped_rung (rr_activity_window rr) (ra_organization_id a) (ra_weight a) now
       (rung_of rr (ra_key a))) now"

lemma tracks_stamped_rung: "registry_inv rr \<Longrightarrow> tracks (rung_of rr (ra_key a)) (stamped now a rr)"
  unfolding stamped_def using tracks_stamped [OF inv_load_ok] tracks_prune_window tracks_trans by (meson tracks_def)

lemma reserve_cases:
  assumes inv: "registry_inv rr"
  shows "reserve t now a rr =
    (case decide (rr_activity_window rr) now a (stamped now a rr) of
       (Some shed, r) \<Rightarrow> (Shed shed, put_rung (ra_key a) r rr)
     | (None, r) \<Rightarrow> (Ticket t, record_ticket t now a (put_rung (ra_key a) (admit_rung now a r) rr)))"
proof -
  have "0 < rr_activity_window rr" using inv by (simp add: registry_inv_def)
  note idle = prune_keeps_requester(2) [OF inv_load_ok [OF inv] this]
  show ?thesis unfolding reserve_def stamped_def [symmetric] Let_def store_rung_def
    by (simp add: idle cong: option.case_cong split: prod.split option.split)
qed

lemma reserve_Ticket:
  assumes inv: "registry_inv rr" and "reserve t now a rr = (Ticket u, rr')"
  obtains r where "decide (rr_activity_window rr) now a (stamped now a rr) = (None, r)"
    "tracks (rung_of rr (ra_key a)) r" "u = t" "rung_of rr' (ra_key a) = admit_rung now a r"
    "rr_tickets rr' = dset t (ra_key a, ra_organization_id a) (rr_tickets rr)"
proof -
  obtain shed r where d: "decide (rr_activity_window rr) now a (stamped now a rr) = (shed, r)" by fastforce
  have "shed = None" "u = t" "rr' = record_ticket t now a (put_rung (ra_key a) (admit_rung now a r) rr)"
    using assms d by (auto simp: reserve_cases [OF inv] split: option.splits)
  moreover have "load_ok (stamped now a rr)" using tracks_stamped_rung [OF inv] by (simp add: tracks_def)
  then have "tracks (rung_of rr (ra_key a)) r"
    using tracks_decide [of "stamped now a rr"] tracks_trans [OF tracks_stamped_rung [OF inv]] d by (metis snd_conv)
  ultimately show ?thesis using that d
    by (simp add: record_ticket_def rung_of_def put_rung_def dget_or_def)
qed

lemma decide_same_window:
  "decide w now a r = (shed, r') \<Longrightarrow> rl_window r' = rl_window r \<and> rl_window_requests r' = rl_window_requests r
     \<and> rl_window_tokens r' = rl_window_tokens r"
  by (auto simp: decide_def shed_reason_def working_rpm_def Let_def split: option.splits if_splits prod.splits)

lemma working_rpm_authored:
  "\<exists>w. fst (working_rpm r (Some q) now) = Some w \<and> w \<le> real_of_int q"
  by (auto simp: working_rpm_def Let_def split: option.splits)

lemma working_rpm_window:
  "rl_window_requests (snd (working_rpm r q now)) = rl_window_requests r"
  "rl_window_tokens (snd (working_rpm r q now)) = rl_window_tokens r"
  by (auto simp: working_rpm_def Let_def split: option.splits)

text \<open>What an undecided shed says about the limits, from the decision alone.\<close>

lemma decide_None_limits:
  assumes "decide w now a r = (None, r')"
  shows "\<not> ra_force a \<Longrightarrow> \<not> ra_fast a \<Longrightarrow> ra_fast_reserve a = None \<Longrightarrow> ra_bound a = Some b \<Longrightarrow> rl_total r < b"
    and "ra_bound a = Some b \<Longrightarrow> ra_fast_reserve a = Some s \<Longrightarrow> ra_fast_reserve_hard a \<Longrightarrow>
      rl_total r < b \<and> (\<not> ra_fast a \<longrightarrow> rl_total r - rl_fast r < b - s)"
    and "ra_class_cap a = Some (c, cap) \<Longrightarrow> dget_or 0 (rl_classes r) c < cap"
    and "ra_force a \<Longrightarrow> ra_failover_cap a = Some cap \<Longrightarrow> rl_failover_forced r < cap"
    and "ra_force a \<Longrightarrow> \<not> ra_fast a \<Longrightarrow> ra_overflow_ceiling a = Some x \<Longrightarrow> real_of_int (rl_total r + 1) \<le> x"
    and "\<not> ra_rate_retry a \<Longrightarrow> \<not> ra_force a \<Longrightarrow> ra_requests_per_minute a = Some q \<Longrightarrow> rl_window_requests r < q"
proof -
  have split: "split_shed r a = None" and hard: "hard_shed r (fast_adjusted a) = None"
    using assms by (auto simp: decide_def Let_def split: option.splits)
  have soft: "bound_shed (reserve_shed_args r (fast_adjusted a)) = None"
      "rate_shed (snd (working_rpm r (ra_requests_per_minute a) now)) (fst (working_rpm r (ra_requests_per_minute a) now))
        (reserve_shed_args r (fast_adjusted a)) = None" if "\<not> ra_force a"
    using assms that
    by (auto simp: decide_def Let_def shed_reason_def fast_adjusted_def reserve_shed_args_def
        split: option.splits prod.splits if_splits)
  show "\<not> ra_force a \<Longrightarrow> \<not> ra_fast a \<Longrightarrow> ra_fast_reserve a = None \<Longrightarrow> ra_bound a = Some b \<Longrightarrow> rl_total r < b"
    using soft(1) by (auto simp: bound_shed_def reserve_shed_args_def fast_adjusted_def judged_bound_def
        judged_in_share_def judged_occupied_def split: if_splits)
  show "ra_bound a = Some b \<Longrightarrow> ra_fast_reserve a = Some s \<Longrightarrow> ra_fast_reserve_hard a \<Longrightarrow>
      rl_total r < b \<and> (\<not> ra_fast a \<longrightarrow> rl_total r - rl_fast r < b - s)"
    using split by (auto simp: split_shed_def Let_def split: if_splits)
  show "ra_class_cap a = Some (c, cap) \<Longrightarrow> dget_or 0 (rl_classes r) c < cap"
    "ra_force a \<Longrightarrow> ra_failover_cap a = Some cap \<Longrightarrow> rl_failover_forced r < cap"
    "ra_force a \<Longrightarrow> \<not> ra_fast a \<Longrightarrow> ra_overflow_ceiling a = Some x \<Longrightarrow> real_of_int (rl_total r + 1) \<le> x"
    using hard by (auto simp: hard_shed_def fast_adjusted_def split: if_splits)
  show "\<not> ra_rate_retry a \<Longrightarrow> \<not> ra_force a \<Longrightarrow> ra_requests_per_minute a = Some q \<Longrightarrow> rl_window_requests r < q"
    using soft(2) working_rpm_authored [of r q now]
    by (auto simp: rate_shed_def reserve_shed_args_def fast_adjusted_def working_rpm_window split: if_splits)
qed


section \<open>Properties\<close>



text \<open>
  A shed takes nothing: it leaves every ticket, every attempt binding and every in-flight count as it was (it only
  stamps the organisation's demand and slides the windows).
\<close>

lemma shed_takes_no_slot:
  assumes inv: "registry_inv rr" and shed: "reserve t now a rr = (Shed s, rr')"
  shows "rr_tickets rr' = rr_tickets rr \<and> rr_attempts rr' = rr_attempts rr
    \<and> inflight rr' k None = inflight rr k None \<and> inflight rr' k (Some i) = inflight rr k (Some i)
    \<and> fast_inflight rr' k = fast_inflight rr k \<and> failover_inflight rr' k = failover_inflight rr k"
proof -
  obtain shed' r where d: "decide (rr_activity_window rr) now a (stamped now a rr) = (shed', r)" by fastforce
  then have rr': "rr' = put_rung (ra_key a) r rr"
    using shed by (auto simp: reserve_cases [OF inv] split: option.splits)
  have "load_ok (stamped now a rr)" using tracks_stamped_rung [OF inv] by (simp add: tracks_def)
  then have "tracks (rung_of rr (ra_key a)) r"
    using tracks_decide [of "stamped now a rr"] tracks_trans [OF tracks_stamped_rung [OF inv]] d by (metis snd_conv)
  then show ?thesis unfolding rr' inflight_rung by (auto simp: tracks_def same_counts_def)
qed

lemma admit_release_counts:
  assumes inv: "registry_inv rr" and fresh: "dget (rr_tickets rr) t = None"
    and adm: "reserve t now a rr = (Ticket t, rr')" and rel: "rr'' = release_locked t (rr'\<lparr>rr_attempts := x\<rparr>)"
  shows "inflight rr'' k None = inflight rr k None" and "inflight rr'' k (Some i) = inflight rr k (Some i)"
proof -
  obtain r where ts: "rr_tickets rr' = dset t (ra_key a, ra_organization_id a) (rr_tickets rr)"
    using reserve_Ticket [OF inv adm] by metis
  have inv': "registry_inv rr'" using registry_inv_reserve [OF inv fresh, of now a] adm by simp
  have inv'': "registry_inv rr''" unfolding rel using registry_inv_release [of "rr'\<lparr>rr_attempts := x\<rparr>"] inv' by simp
  have ts'': "rr_tickets rr'' = dpop t (rr_tickets rr')"
    unfolding rel release_locked_def by (simp add: Let_def split: option.splits prod.splits)
  have same: "rr_tickets rr'' = rr_tickets rr"
    unfolding ts'' ts dset_fresh [OF fresh] using fresh
    by (auto simp: dpop_eq_filter dget_def map_of_eq_None_iff filter_id_conv)
  show "inflight rr'' k None = inflight rr k None" "inflight rr'' k (Some i) = inflight rr k (Some i)"
    using inv_counts [OF inv, of k] inv_counts [OF inv'', of k] unfolding rung_counts_def inflight_rung same by simp_all
qed

lemma release_locked_fleet: "release_locked t (with_fleet f rr) = with_fleet f (release_locked t rr)"
  by (simp add: release_locked_def with_fleet_def put_rung_def Let_def split: option.splits prod.splits)

lemma with_fleet_fields [simp]:
  "inflight (with_fleet f rr) k i = inflight rr k i" "rr_tickets (with_fleet f rr) = rr_tickets rr"
  "rr_rungs (with_fleet f rr) = rr_rungs rr" "rr_attempts (with_fleet f rr) = rr_attempts rr"
  by (simp_all add: with_fleet_def inflight_def)

text \<open>
  Releasing gives a slot back once. A reservation admitted on a fresh ticket and released again, directly or through
  the attempt it was bound to, leaves every in-flight count as before the reservation, and releasing the ticket any
  further changes no ticket, rung or binding.
\<close>

lemma released_slot_returns_once:
  assumes "registry_inv rr" and "dget (rr_tickets rr) t = None" and "reserve t now a rr = (Ticket t, rr')"
  shows "inflight (release_ticket t now2 raises rr') k None = inflight rr k None
    \<and> inflight (release_attempt att throttled usage now2 raises (bind t att rr')) k None = inflight rr k None
    \<and> rr_tickets (release_ticket t now3 raises (release_ticket t now2 raises rr'))
        = rr_tickets (release_ticket t now2 raises rr')
    \<and> rr_rungs (release_ticket t now3 raises (release_ticket t now2 raises rr'))
        = rr_rungs (release_ticket t now2 raises rr')"
proof -
  have held: "dget (rr_tickets rr') t \<noteq> None" using reserve_Ticket [OF assms(1,3)] by (metis dget_dset option.distinct(1))
  note counts = admit_release_counts [OF assms(1,2,3) refl, of _ k]
  have "(with_fleet f r)\<lparr>rr_attempts := y\<rparr> = with_fleet f (r\<lparr>rr_attempts := y\<rparr>)" for f r y
    by (simp add: with_fleet_def)
  then have "release_attempt att throttled usage now2 raises (bind t att rr')
      = with_fleet (fleet_release_attempt att throttled usage now2 raises) (with_fleet (fleet_bind t att)
          (release_locked t (rr'\<lparr>rr_attempts := dpop att (dset att t (rr_attempts rr'))\<rparr>)))"
    using held by (simp add: release_attempt_def bind_def release_locked_fleet)
  then have "inflight (release_attempt att throttled usage now2 raises (bind t att rr')) k None = inflight rr k None"
    using counts(1) by simp
  moreover have "inflight (release_ticket t now2 raises rr') k None = inflight rr k None"
    using counts(1) [of "rr_attempts rr'"] by (simp add: release_ticket_def)
  moreover have "release_locked t (release_ticket t now2 raises rr') = release_ticket t now2 raises rr'"
    by (simp add: release_ticket_def release_locked_fleet release_locked_again)
  ultimately show ?thesis by (simp add: release_ticket_def [of t now3])
qed

section \<open>Fairness\<close>

lemma plain_shed_code [simp]: "shed_reason_code (plain_shed x) = x" "shed_reason_code ceiling_shed = Queue_Bound"
  by (simp_all add: plain_shed_def ceiling_shed_def)

lemma other_shed_codes:
  "split_shed r a = Some s \<Longrightarrow> shed_reason_code s = Queue_Bound"
  "hard_shed r a = Some s \<Longrightarrow> shed_reason_code s = Queue_Bound"
  "bound_shed x = Some s \<Longrightarrow> shed_reason_code s \<in> {Queue_Bound, Fresh_Session_Spill}"
  "rate_shed r q x = Some s \<Longrightarrow> shed_reason_code s = Rate_Limit"
  by (auto simp: split_shed_def hard_shed_def bound_shed_def rate_shed_def Let_def
      split: option.splits prod.splits if_splits)

lemma decide_fair_share:
  assumes "decide w now a r = (Some s, r')" and "shed_reason_code s = Fair_Share_Shed"
  defines "x \<equiv> reserve_shed_args r (fast_adjusted a)"
  shows "bound_shed x = None" and "fairness_shed w (snd (working_rpm r (ra_requests_per_minute a) now))
      (ra_organization_id a) x = Some s"
proof -
  have split: "split_shed r a = None" using assms(1,2) other_shed_codes(1) [of r a]
    by (auto simp: decide_def split: option.splits)
  have hard: "hard_shed r (fast_adjusted a) = None" using assms(1,2) split other_shed_codes(2) [of r "fast_adjusted a"]
    by (auto simp: decide_def Let_def split: option.splits)
  have adj: "ra_organization_id (fast_adjusted a) = ra_organization_id a"
    "sa_requests_per_minute x = ra_requests_per_minute a"
    by (simp_all add: fast_adjusted_def x_def reserve_shed_args_def)
  have sr: "shed_reason w r (ra_organization_id a) now x = (Some s, r')"
    using assms(1) split hard adj(1) by (auto simp: decide_def Let_def x_def split: if_splits)
  show b: "bound_shed x = None" using sr assms(2) other_shed_codes(3) [of x]
    by (auto simp: shed_reason_def split: option.splits)
  show "fairness_shed w (snd (working_rpm r (ra_requests_per_minute a) now)) (ra_organization_id a) x = Some s"
    using sr b assms(2) other_shed_codes(4) adj(2) by (force simp: shed_reason_def split: option.splits prod.splits)
qed

text \<open>A fairness shed below the bound needs another organisation under its share.\<close>

lemma fair_share_shed_deficit:
  assumes "fair_share_shed ws i bound held ro" and "held < bound"
  shows "\<exists>j c w. (j, c, w) \<in> set ws \<and> j \<noteq> i
    \<and> real_of_int (holding ro c) < real_of_int bound * w / (\<Sum>(c_id, c, w) \<leftarrow> ws. w)"
proof (rule ccontr)
  let ?W = "\<Sum>(c_id, c, w) \<leftarrow> ws. w"
  let ?g = "\<lambda>(c_id, c, w). max 0 (real_of_int bound * w / ?W - real_of_int (holding ro c))"
  let ?others = "filter (\<lambda>(c_id, c, w). c_id \<noteq> i) ws"
  assume "\<not> ?thesis"
  then have "real_of_int bound * w / ?W \<le> real_of_int (holding ro c)" if "(j, c, w) \<in> set ws" "j \<noteq> i" for j c w
    using that by (meson linorder_not_less)
  then have "\<forall>e \<in> set ?others. ?g e = 0" by (auto simp: max_absorb1)
  then have "map ?g ?others = map (\<lambda>e. 0) ?others" by (intro map_cong) auto
  then have "sum_list (map ?g ?others) = 0" by (simp only: sum_list_0)
  with assms show False by (auto simp: fair_share_shed_def Let_def split: option.splits if_splits)
qed

lemma working_rpm_orgs:
  "rl_organizations (snd (working_rpm r q now)) = rl_organizations r"
  "rl_cache_fractions (snd (working_rpm r q now)) = rl_cache_fractions r"
  by (auto simp: working_rpm_def Let_def split: option.splits)

lemma stamped_organizations:
  assumes "registry_inv rr"
  shows "dget (rl_organizations (stamped now a rr)) i =
    (case dget (rl_organizations (stamp_organization (ra_organization_id a) (ra_weight a) now (rung_of rr (ra_key a)))) i of
       None \<Rightarrow> None
     | Some load \<Rightarrow> if ol_inflight load = 0 \<and> ol_last_seen load < now - rr_activity_window rr then None else Some load)"
proof -
  let ?st = "stamp_organization (ra_organization_id a) (ra_weight a) now (rung_of rr (ra_key a))"
  have d: "dkeys_distinct (rl_organizations ?st)"
    using inv_load_ok [OF assms(1), of "ra_key a"] by (simp add: load_ok_def stamp_organization_def)
  have "rl_organizations (stamped now a rr) = filter (\<lambda>(o_id, load). \<not> (ol_inflight load = 0
      \<and> ol_last_seen load < now - rr_activity_window rr)) (rl_organizations ?st)"
    by (simp add: stamped_def stamped_rung_def prune_rung_def prune_cache_fractions_def prune_organizations_def
        prune_window_def split: prod.split)
  then show ?thesis by (simp only: dget_filter_key [OF d]) (auto split: option.split)
qed

lemma stamped_other:
  assumes "registry_inv rr" and "i \<noteq> ra_organization_id a"
    and "dget (rl_organizations (stamped now a rr)) i = Some load"
  shows "dget (rl_organizations (rung_of rr (ra_key a))) i = Some load"
  using assms by (auto simp: stamped_organizations stamp_organization_def split: option.splits if_splits)

lemma stamped_own:
  assumes "registry_inv rr"
  shows "ol_last_seen (org_of (stamped now a rr) (ra_organization_id a)) = now"
  using assms registry_inv_def [of rr]
  by (auto simp: stamped_organizations stamp_organization_def org_of_def dget_or_def)

lemma weighted_active_working:
  "weighted_active w (snd (working_rpm r q now)) i alpha x = weighted_active w r i alpha x"
  by (simp add: weighted_active_def org_of_def rung_cached_fraction_def working_rpm_orgs)

text \<open>
  C39. Fair share is work conserving. A reservation is shed for fairness only when the slot it asks for is owed to
  another: the judged bound still has room, and some other organisation that is active on the rung (a reservation in
  flight, or seen within the activity window) holds less than its exact weighted share of that bound. So a lone
  organisation is never shed for fairness and may use the whole rung.
\<close>

theorem fair_share_sheds_only_for_others:
  assumes inv: "registry_inv rr" and shed: "reserve t now a rr = (Shed s, rr')"
    and code: "shed_reason_code s = Fair_Share_Shed"
  defines "r \<equiv> stamped now a rr"
  shows "\<exists>bound i load w. judged_bound a = Some bound \<and> judged_occupied r a < bound
    \<and> i \<noteq> ra_organization_id a
    \<and> dget (rl_organizations (rung_of rr (ra_key a))) i = Some load
    \<and> (0 < ol_inflight load \<or> now - rr_activity_window rr \<le> ol_last_seen load)
    \<and> w = effective_weight load (rung_cached_fraction r i) (ra_cache_priority_alpha a)
            (real_of_int (judged_occupied r a) / real_of_int bound)
    \<and> real_of_int (holding (judged_in_share a) load)
        < real_of_int bound * w
          / (\<Sum>(_, _, v) \<leftarrow> weighted_active (rr_activity_window rr) r (ra_organization_id a) (ra_cache_priority_alpha a)
               (real_of_int (judged_occupied r a) / real_of_int bound). v)"
proof -
  let ?x = "reserve_shed_args r (fast_adjusted a)" and ?o = "ra_organization_id a" and ?W = "rr_activity_window rr"
  obtain r' where d: "decide ?W now a r = (Some s, r')"
    using shed unfolding reserve_cases [OF inv] r_def by (auto split: prod.splits option.splits)
  note f = decide_fair_share [OF d code]
  have slow: "\<not> ra_fast a" "fast_adjusted a = a"
    using f(2) by (auto simp: fairness_shed_def reserve_shed_args_def fast_adjusted_def judged_bound_def
        judged_in_share_def split: option.splits if_splits)
  obtain bound where b: "sa_bound ?x = Some bound" using f(2) by (auto simp: fairness_shed_def split: option.splits)
  then have jb: "judged_bound a = Some bound" using slow(2) by (auto simp: reserve_shed_args_def split: if_splits)
  have x: "sa_occupied ?x = judged_occupied r a" "sa_regular_only ?x = judged_in_share a"
      "sa_cache_priority_alpha ?x = ra_cache_priority_alpha a"
    using jb slow(2) by (auto simp: reserve_shed_args_def judged_in_share_def judged_bound_def split: if_splits)
  let ?c = "real_of_int (judged_occupied r a) / real_of_int bound"
  let ?ws = "weighted_active ?W r ?o (ra_cache_priority_alpha a) ?c"
  have occ: "judged_occupied r a < bound" using f(1) b x(1) by (auto simp: bound_shed_def split: if_splits)
  have "fair_share_shed ?ws ?o bound (judged_occupied r a) (judged_in_share a)"
    using f(2) b x by (simp add: fairness_shed_def weighted_active_working split: if_splits)
  from fair_share_shed_deficit [OF this occ] obtain i load w where
    i: "(i, load, w) \<in> set ?ws" "i \<noteq> ?o"
      "real_of_int (holding (judged_in_share a) load) < real_of_int bound * w / (\<Sum>(_, _, v) \<leftarrow> ?ws. v)" by blast
  have mem: "(i, load) \<in> set (rl_organizations r)"
      "0 < ol_inflight load \<or> now - ?W \<le> ol_last_seen load"
      "w = effective_weight load (rung_cached_fraction r i) (ra_cache_priority_alpha a) ?c"
    using i(1) stamped_own [OF inv, of now a] by (auto simp: weighted_active_def r_def)
  have "load_ok r" using tracks_stamped_rung [OF inv] by (simp add: tracks_def r_def)
  then have "dget (rl_organizations r) i = Some load" using mem(1) by (simp add: in_set_dget load_ok_def)
  then have "dget (rl_organizations (rung_of rr (ra_key a))) i = Some load"
    using stamped_other [OF inv i(2)] by (simp add: r_def)
  with jb occ i mem show ?thesis by blast
qed

definition contested_reserve :: reserve_args where
  "contested_reserve = sample_reserve\<lparr>ra_tokens_per_minute := None\<rparr>"

definition contested_run :: "rung_op list" where
  "contested_run = [Reserve ''b1'' 1 (contested_reserve\<lparr>ra_organization_id := ''beta''\<rparr>), Release_Ticket ''b1'' 2 False,
     Reserve ''t1'' 3 contested_reserve]"

theorem fair_share_sheds_only_for_others_witness:
  "\<exists>i load. i \<noteq> ''acme'' \<and> dget (rl_organizations (rung_of
      (fold rung_step contested_run default_rung_registry) (''d'', ''c''))) i = Some load
    \<and> (0 < ol_inflight load \<or> 4 - ACTIVITY_WINDOW_SECONDS \<le> ol_last_seen load)"
proof -
  let ?rr = "fold rung_step contested_run default_rung_registry"
  have inv: "registry_inv ?rr"
    using component.reachable_inv [OF rung_component(1) [OF default_rung_registry] reachable_fold]
    by (simp add: list_all_iff)
  obtain s rr' where s: "reserve ''t2'' 4 contested_reserve ?rr = (Shed s, rr')" "shed_reason_code s = Fair_Share_Shed"
  proof -
    have "(case reserve ''t2'' 4 contested_reserve ?rr of (Shed s, rr') \<Rightarrow> shed_reason_code s = Fair_Share_Shed | _ \<Rightarrow> False)"
      by code_simp
    then show thesis using that by (auto split: prod.splits reservation.splits)
  qed
  have w: "rr_activity_window ?rr = ACTIVITY_WINDOW_SECONDS" by code_simp
  have o_id: "ra_organization_id contested_reserve = ''acme''" "ra_key contested_reserve = (''d'', ''c'')" by code_simp+
  from fair_share_sheds_only_for_others [OF inv s] w o_id show ?thesis by auto
qed

section \<open>The learned request ceiling\<close>

lemma creep_step:
  assumes "0 < (learned::real)"
  shows "learned + 1 \<le> learned + max 1 (real_of_int \<lceil>LEARNED_CREEP_FRACTION * learned\<rceil>)"
    and "0 < learned + max 1 (real_of_int \<lceil>LEARNED_CREEP_FRACTION * learned\<rceil>)"
proof -
  show "learned + 1 \<le> learned + max 1 (real_of_int \<lceil>LEARNED_CREEP_FRACTION * learned\<rceil>)" by simp
  then show "0 < learned + max 1 (real_of_int \<lceil>LEARNED_CREEP_FRACTION * learned\<rceil>)" using assms by linarith
qed

lemma creep_free: "0 < learned \<Longrightarrow> learned + real n \<le> creep None n learned"
proof (induction n arbitrary: learned)
  case (Suc n)
  from Suc.IH [OF creep_step(2) [OF Suc.prems]] creep_step(1) [OF Suc.prems] show ?case by (simp add: Let_def)
qed simp

lemma creep_authored:
  "0 < learned \<Longrightarrow> min (real_of_int a) (learned + real n) \<le> creep (Some a) n learned"
proof (induction n arbitrary: learned)
  case (Suc n)
  from Suc.IH [OF creep_step(2) [OF Suc.prems]] creep_step(1) [OF Suc.prems] show ?case
    by (auto simp: Let_def min_def split: if_splits)
qed simp

lemma learned_after_throttle:
  fixes rr :: rung_registry and k :: rung_load_key and t0 :: seconds
  defines "observed \<equiv> real_of_int (rl_window_requests (prune_window (rung_of rr k) t0))"
  defines "r \<equiv> rung_of (record_throttle k t0 rr) k"
  shows "rl_learned_rpm r = Some (max LEARNED_MINIMUM_RPM (observed * LEARNED_CLAMP_FACTOR))"
    and "rl_learned_throttled_at r = t0" and "rl_learned_crept_at r = t0"
  by (simp_all add: r_def observed_def record_throttle_def Let_def rung_of_def put_rung_def dget_or_def)

text \<open>Recovery does not depend on how often it is looked at: crept in two goes or in one, the ceiling is the same.\<close>

lemma creep_at_authored: "creep (Some a) n (real_of_int a) = real_of_int a"
  by (cases n) (auto simp: Let_def)

lemma creep_add: "creep authored (n + m) learned = creep authored m (creep authored n learned)"
proof (induction n arbitrary: learned)
  case (Suc n)
  then show ?case by (cases authored) (simp_all add: Let_def creep_at_authored)
qed simp

text \<open>The calibration of a rung whose learned ceiling has crept for \<open>n\<close> intervals since the throttle at \<open>t0\<close>.\<close>

definition crept :: "int option \<Rightarrow> seconds \<Rightarrow> real \<Rightarrow> nat \<Rightarrow> rung_load \<Rightarrow> bool" where
  "crept authored t0 clamp n r \<longleftrightarrow> rl_learned_throttled_at r = t0
     \<and> rl_learned_crept_at r = t0 + real n * LEARNED_RECOVERY_INTERVAL_SECONDS \<and> rl_learned_rpm r = Some (creep authored n clamp)"

definition intervals :: "seconds \<Rightarrow> seconds \<Rightarrow> nat" where
  "intervals t0 t = nat \<lfloor>(t - t0) / LEARNED_RECOVERY_INTERVAL_SECONDS\<rfloor>"

lemma working_rpm_crept:
  assumes r: "crept authored t0 clamp (intervals t0 s) r" and t: "t0 \<le> s" "s \<le> t" "t - t0 < LEARNED_EXPIRY_SECONDS"
  shows "crept authored t0 clamp (intervals t0 t) (snd (working_rpm r authored t))"
    and "fst (working_rpm r authored t) = Some (case authored of None \<Rightarrow> creep authored (intervals t0 t) clamp
      | Some a \<Rightarrow> min (real_of_int a) (creep authored (intervals t0 t) clamp))"
proof -
  define I where "I = LEARNED_RECOVERY_INTERVAL_SECONDS"
  have I: "0 < I" by (simp add: I_def LEARNED_RECOVERY_INTERVAL_SECONDS_def)
  define n where "n = intervals t0 s"
  define m where "m = nat \<lfloor>(t - rl_learned_crept_at r) / I\<rfloor>"
  have s0: "0 \<le> \<lfloor>(s - t0) / I\<rfloor>" using t(1) I by simp
  then have n: "real n = real_of_int \<lfloor>(s - t0) / I\<rfloor>" by (simp add: n_def intervals_def I_def)
  have split: "\<lfloor>(t - rl_learned_crept_at r) / I\<rfloor> = \<lfloor>(t - t0) / I\<rfloor> - \<lfloor>(s - t0) / I\<rfloor>"
  proof -
    have "(t - rl_learned_crept_at r) / I = (t - t0) / I - real_of_int \<lfloor>(s - t0) / I\<rfloor>"
      using r I unfolding n [symmetric] by (simp add: crept_def n_def I_def field_simps)
    then show ?thesis by simp
  qed
  moreover have "\<lfloor>(s - t0) / I\<rfloor> \<le> \<lfloor>(t - t0) / I\<rfloor>" using t(2) I by (intro floor_mono divide_right_mono) simp_all
  ultimately have m: "\<lfloor>(t - rl_learned_crept_at r) / I\<rfloor> = int m" "intervals t0 t = n + m"
    using s0 by (simp_all add: m_def n_def intervals_def I_def nat_add_distrib [symmetric])
  have state: "snd (working_rpm r authored t) = r\<lparr>rl_learned_rpm := Some (creep authored m (creep authored n clamp)),
      rl_learned_crept_at := rl_learned_crept_at r + real m * I\<rparr>"
    using r t(3) m(1) by (simp add: working_rpm_def crept_def Let_def n_def I_def)
  then show "crept authored t0 clamp (intervals t0 t) (snd (working_rpm r authored t))"
    using r unfolding m(2) creep_add crept_def by (simp add: n_def I_def distrib_right)
  show "fst (working_rpm r authored t) = Some (case authored of None \<Rightarrow> creep authored (intervals t0 t) clamp
      | Some a \<Rightarrow> min (real_of_int a) (creep authored (intervals t0 t) clamp))"
    using r t(3) m by (simp add: working_rpm_def crept_def Let_def n_def I_def creep_add split: option.split)
qed

lemma working_rpm_expired:
  assumes "LEARNED_EXPIRY_SECONDS \<le> t - t0" and "rl_learned_rpm r = None \<or> rl_learned_throttled_at r = t0"
  shows "fst (working_rpm r authored t) = map_option real_of_int authored" and "rl_learned_rpm (snd (working_rpm r authored t)) = None"
  using assms by (auto simp: working_rpm_def Let_def split: option.split)

text \<open>What any number of looks leave: crept up to the last one, or forgotten when that was past the expiry.\<close>

lemma looks_crept:
  assumes "crept authored t0 clamp 0 r" and "sorted (t0 # ts)"
  shows "if last (t0 # ts) - t0 < LEARNED_EXPIRY_SECONDS
    then crept authored t0 clamp (intervals t0 (last (t0 # ts))) (fold (\<lambda>t r. snd (working_rpm r authored t)) ts r)
    else rl_learned_rpm (fold (\<lambda>t r. snd (working_rpm r authored t)) ts r) = None"
  using assms(2)
proof (induction ts rule: rev_induct)
  case Nil
  then show ?case using assms(1) by (simp add: intervals_def LEARNED_EXPIRY_SECONDS_def)
next
  case (snoc t ts)
  let ?s = "last (t0 # ts)" and ?r = "fold (\<lambda>t r. snd (working_rpm r authored t)) ts r"
  have s: "t0 \<le> ?s" "?s \<le> t" "sorted (t0 # ts)"
    using snoc.prems by (auto simp: sorted_append split: if_splits)
  note ih = snoc.IH [OF s(3)]
  have "rl_learned_rpm ?r = None \<or> rl_learned_throttled_at ?r = t0" using ih by (auto simp: crept_def split: if_splits)
  note gone = working_rpm_expired(2) [OF _ this]
  have "crept authored t0 clamp (intervals t0 t) (snd (working_rpm ?r authored t))" if "t - t0 < LEARNED_EXPIRY_SECONDS"
    using working_rpm_crept(1) [OF _ s(1,2) that] ih s(2) that by (simp split: if_splits)
  then show ?case using gone [of t authored] by auto
qed

text \<open>
  C40. A throttled rung backs off and re-discovers its headroom, under any traffic. Let a provider throttle the rung at
  \<open>t0\<close>, and let reservations read the working request ceiling at any times \<open>ts\<close> after that, each advancing the calibration,
  with no other throttle in between. At \<open>now\<close> the ceiling is the clamped rate the window observed, never above the authored rate
  and never below the positive minimum, until the first recovery interval ends; after \<open>n\<close> intervals since the throttle it
  has regained at least \<open>n\<close> requests (or the authored rate), however often it was read; and when the expiry horizon has
  passed the authored rate alone is left.
\<close>

theorem throttle_backoff_recovers:
  fixes rr :: rung_registry and k :: rung_load_key and t0 :: seconds and authored :: "int option"
  assumes "sorted (t0 # ts @ [now])"
  defines "r \<equiv> fold (\<lambda>t r. snd (working_rpm r authored t)) ts (rung_of (record_throttle k t0 rr) k)"
  defines "clamp \<equiv> max LEARNED_MINIMUM_RPM
    (real_of_int (rl_window_requests (prune_window (rung_of rr k) t0)) * LEARNED_CLAMP_FACTOR)"
  defines "quiet \<equiv> \<lfloor>(now - t0) / LEARNED_RECOVERY_INTERVAL_SECONDS\<rfloor>"
  shows "0 < clamp
    \<and> (now - t0 < LEARNED_EXPIRY_SECONDS \<longrightarrow> (\<exists>w. fst (working_rpm r authored now) = Some w
        \<and> (case authored of
             None \<Rightarrow> clamp + real_of_int quiet \<le> w \<and> (quiet = 0 \<longrightarrow> w = clamp)
           | Some a \<Rightarrow> min (real_of_int a) (clamp + real_of_int quiet) \<le> w \<and> w \<le> real_of_int a
               \<and> (quiet = 0 \<longrightarrow> w = min (real_of_int a) clamp))))
    \<and> (LEARNED_EXPIRY_SECONDS \<le> now - t0 \<longrightarrow> fst (working_rpm r authored now) = map_option real_of_int authored)"
proof -
  have c: "0 < clamp" by (simp add: clamp_def LEARNED_MINIMUM_RPM_def max_def)
  have ts: "sorted (t0 # ts)" "t0 \<le> last (t0 # ts)" "last (t0 # ts) \<le> now"
    using assms(1) by (auto simp: sorted_append)
  have q: "0 \<le> quiet" "intervals t0 now = nat quiet"
    using ts(2,3) by (simp_all add: quiet_def intervals_def LEARNED_RECOVERY_INTERVAL_SECONDS_def)
  have "crept authored t0 clamp 0 (rung_of (record_throttle k t0 rr) k)"
    using learned_after_throttle [of k t0 rr] by (simp add: crept_def clamp_def)
  note looks = looks_crept [OF this ts(1), folded r_def]
  have live: "fst (working_rpm r authored now) = Some (case authored of None \<Rightarrow> creep authored (nat quiet) clamp
      | Some a \<Rightarrow> min (real_of_int a) (creep authored (nat quiet) clamp))" if "now - t0 < LEARNED_EXPIRY_SECONDS"
    unfolding q(2) [symmetric]
    by (rule working_rpm_crept(2) [OF _ ts(2,3) that]) (use looks ts(3) that in \<open>simp split: if_splits\<close>)
  have "rl_learned_rpm r = None \<or> rl_learned_throttled_at r = t0" using looks by (auto simp: crept_def split: if_splits)
  note expired = working_rpm_expired(1) [OF _ this]
  have grown: "clamp + real_of_int quiet \<le> creep None (nat quiet) clamp"
    "min (real_of_int a) (clamp + real_of_int quiet) \<le> creep (Some a) (nat quiet) clamp" for a
    using creep_free [OF c, of "nat quiet"] creep_authored [OF c, of a "nat quiet"] q(1) by simp_all
  show ?thesis using c live expired [of now authored] grown by (auto split: option.splits)
qed

definition sample_throttled :: rung_load where
  "sample_throttled = rung_of (record_throttle (''d'', ''c'') 10 (fold rung_step sample_rung_run default_rung_registry)) (''d'', ''c'')"

text \<open>Read three times on the way, the ceiling has still regained two requests after two intervals.\<close>

theorem throttle_backoff_recovers_witness:
  "\<exists>w. fst (working_rpm (fold (\<lambda>t r. snd (working_rpm r (Some 30) t)) [25, 50, 71] sample_throttled) (Some 30) 130) = Some w
     \<and> 19 / 5 \<le> w"
proof -
  have "rl_window_requests (prune_window (rung_of (fold rung_step sample_rung_run default_rung_registry)
     (''d'', ''c'')) 10) = 2" by code_simp
  then show ?thesis
    using throttle_backoff_recovers [of 10 "[25, 50, 71]" 130 "fold rung_step sample_rung_run default_rung_registry"
        "(''d'', ''c'')" "Some 30", folded sample_throttled_def]
    by (auto simp: LEARNED_MINIMUM_RPM_def LEARNED_CLAMP_FACTOR_def LEARNED_EXPIRY_SECONDS_def
        LEARNED_RECOVERY_INTERVAL_SECONDS_def)
qed

section \<open>Cache evidence\<close>

definition signals_ok :: "rung_load \<Rightarrow> bool" where
  "signals_ok r \<longleftrightarrow> (\<forall>s \<in> snd ` set (rl_cache_fractions r). 0 \<le> cs_fraction s \<and> cs_fraction s \<le> 1)"

definition evidence_ok :: "rung_registry \<Rightarrow> bool" where
  "evidence_ok rr \<longleftrightarrow> (\<forall>k. signals_ok (rung_of rr k))"

lemma signals_ok_mono: "signals_ok r \<Longrightarrow> set (rl_cache_fractions r') \<subseteq> set (rl_cache_fractions r) \<Longrightarrow> signals_ok r'"
  by (auto simp: signals_ok_def)

text \<open>Only a settlement adds evidence; every other operation at most forgets some.\<close>

lemma no_new_evidence:
  "set (rl_cache_fractions (stamped_rung w i wt now r)) \<subseteq> set (rl_cache_fractions r)"
  "rl_cache_fractions (prune_window r now) = rl_cache_fractions r"
  "rl_cache_fractions (snd (decide w now a r)) = rl_cache_fractions r"
  "rl_cache_fractions (snd (shed_reason w r i now x)) = rl_cache_fractions r"
  "rl_cache_fractions (admit_rung now a r) = rl_cache_fractions r"
  "rl_cache_fractions (release_rung i c b f r) = rl_cache_fractions r"
  "set (rl_cache_fractions (prune_cache_fractions r now)) \<subseteq> set (rl_cache_fractions r)"
proof -
  show sr: "rl_cache_fractions (snd (shed_reason w r i now x)) = rl_cache_fractions r" for w r i x
    by (auto simp: shed_reason_def working_rpm_orgs split: option.splits prod.splits)
       (metis snd_conv working_rpm_orgs(2))+
  show "rl_cache_fractions (snd (decide w now a r)) = rl_cache_fractions r"
    by (auto simp: decide_def Let_def sr split: option.splits)
qed (auto simp: stamped_rung_def prune_rung_def prune_cache_fractions_def prune_organizations_def
    stamp_organization_def prune_window_def admit_rung_def release_rung_def Let_def split: prod.splits option.splits)

lemma signals_stamped [simp]: "signals_ok r \<Longrightarrow> signals_ok (stamped_rung w i wt now r)"
  using signals_ok_mono no_new_evidence(1) by metis

lemma signals_after [simp]:
  "signals_ok (snd (decide w now a r)) = signals_ok r"
  "signals_ok (snd (shed_reason w r i now x)) = signals_ok r"
  "signals_ok (admit_rung now a r) = signals_ok r"
  "signals_ok (release_rung i c b f r) = signals_ok r"
  "signals_ok (prune_window r now) = signals_ok r"
  by (simp_all add: signals_ok_def no_new_evidence)

lemma signals_new [simp]: "signals_ok new_rung_load"
  by (simp add: signals_ok_def new_rung_load_def)

lemma signals_window [simp]:
  "signals_ok (r\<lparr>rl_window := w\<rparr>) = signals_ok r"
  "signals_ok (r\<lparr>rl_window := w, rl_window_requests := n, rl_window_tokens := m\<rparr>) = signals_ok r"
  "signals_ok (r\<lparr>rl_learned_rpm := l, rl_learned_throttled_at := t0, rl_learned_crept_at := t1\<rparr>) = signals_ok r"
  by (simp_all add: signals_ok_def)

lemma set_dset_subset: "set (dset k v d) \<subseteq> insert (k, v) (set d)"
  unfolding dset_def by (induction d) auto

lemma evidence_put [simp]: "evidence_ok rr \<Longrightarrow> signals_ok r \<Longrightarrow> evidence_ok (put_rung k r rr)"
  unfolding evidence_ok_def rung_of_put by metis

lemma evidence_of [simp]: "evidence_ok rr \<Longrightarrow> signals_ok (rung_of rr k)"
  unfolding evidence_ok_def by blast

lemma evidence_dget: "evidence_ok rr \<Longrightarrow> dget (rr_rungs rr) k = Some r \<Longrightarrow> signals_ok r"
  using evidence_of [of rr k] by (simp add: rung_of_def dget_or_def)

lemma evidence_irrelevant [simp]:
  "evidence_ok (rr\<lparr>rr_tickets := x1\<rparr>) = evidence_ok rr"
  "evidence_ok (rr\<lparr>rr_ticket_windows := x2\<rparr>) = evidence_ok rr"
  "evidence_ok (rr\<lparr>rr_ticket_classes := x3\<rparr>) = evidence_ok rr"
  "evidence_ok (rr\<lparr>rr_fast_tickets := x4\<rparr>) = evidence_ok rr"
  "evidence_ok (rr\<lparr>rr_failover_tickets := x4\<rparr>) = evidence_ok rr"
  "evidence_ok (rr\<lparr>rr_attempts := x5\<rparr>) = evidence_ok rr"
  "evidence_ok (rr\<lparr>rr_fleet := x6\<rparr>) = evidence_ok rr"
  "evidence_ok (with_fleet g rr) = evidence_ok rr"
  by (simp_all add: evidence_ok_def rung_of_def with_fleet_def)

lemma evidence_drop: "evidence_ok rr \<Longrightarrow> evidence_ok (rr\<lparr>rr_rungs := dpop k (rr_rungs rr)\<rparr>)"
  by (auto simp: evidence_ok_def rung_of_def dget_or_def)

lemma evidence_store: "evidence_ok rr \<Longrightarrow> signals_ok r \<Longrightarrow> evidence_ok (store_rung b k r rr)"
  by (simp add: store_rung_def evidence_drop)

lemma evidence_release: "evidence_ok rr \<Longrightarrow> evidence_ok (release_locked t rr)"
  by (auto simp: release_locked_def Let_def evidence_dget intro!: evidence_put split: option.splits prod.splits)

lemma evidence_window: "evidence_ok rr \<Longrightarrow> evidence_ok (restamp_window t now rr)"
  "evidence_ok rr \<Longrightarrow> evidence_ok (retract_window t rr)"
  unfolding restamp_window_def retract_window_def Let_def
  by (auto split: option.splits dest!: ticket_rung_of intro!: evidence_put)

lemma ewma_bounds:
  assumes "0 \<le> cs_fraction s \<and> cs_fraction s \<le> 1" and "0 \<le> x \<and> x \<le> 1"
  shows "0 \<le> cs_fraction (ewma s x now) \<and> cs_fraction (ewma s x now) \<le> 1"
proof -
  let ?e = "max EWMA_MINIMUM_STEP_SECONDS (now - cs_sampled_at s) / EWMA_HALF_LIFE_SECONDS"
  let ?p = "(1 / 2 :: real) powr ?e"
  have "0 \<le> ?e" by (simp add: EWMA_MINIMUM_STEP_SECONDS_def EWMA_HALF_LIFE_SECONDS_def max_def)
  then have p: "0 \<le> ?p" "?p \<le> 1" using powr_mono2 [of ?e "1/2" 1] by auto
  then have "cs_fraction s * ?p + x * (1 - ?p) \<le> 1 * ?p + 1 * (1 - ?p)"
    using assms by (intro add_mono mult_right_mono) auto
  then show ?thesis using p assms by (auto simp: ewma_def Let_def)
qed

lemma evidence_settle: "evidence_ok rr \<Longrightarrow> evidence_ok (record_settle k i c n now rr)"
proof (cases "n \<le> 0")
  case False
  assume ok: "evidence_ok rr"
  let ?r = "prune_cache_fractions (rung_of rr k) now"
  let ?x = "real_of_int (min (max c 0) n) / real_of_int n"
  have x: "0 \<le> ?x \<and> ?x \<le> 1" using False by (simp add: divide_le_eq_1)
  have r: "signals_ok ?r" by (rule signals_ok_mono [OF evidence_of [OF ok]]) (rule no_new_evidence(7))
  have "0 \<le> cs_fraction (ewma s ?x now) \<and> cs_fraction (ewma s ?x now) \<le> 1"
    if "dget (rl_cache_fractions ?r) i = Some s" for s
    using r dget_in_set [OF that] by (intro ewma_bounds x) (force simp: signals_ok_def)
  then have "signals_ok (?r\<lparr>rl_cache_fractions := dset i (case dget (rl_cache_fractions ?r) i of
      None \<Rightarrow> \<lparr>cs_fraction = ?x, cs_sampled_at = now\<rparr> | Some s \<Rightarrow> ewma s ?x now) (rl_cache_fractions ?r)\<rparr>)"
    using r x subsetD [OF set_dset_subset] by (fastforce simp: signals_ok_def split: option.splits)
  then show ?thesis using ok False by (simp add: record_settle_def Let_def)
qed (simp add: record_settle_def)

lemma evidence_reserve: "evidence_ok rr \<Longrightarrow> evidence_ok (snd (reserve t now a rr))"
proof -
  assume ok: "evidence_ok rr"
  let ?r = "prune_window (stamped_rung (rr_activity_window rr) (ra_organization_id a) (ra_weight a) now
    (rung_of rr (ra_key a))) now"
  obtain shed r2 where d: "decide (rr_activity_window rr) now a ?r = (shed, r2)" by fastforce
  have "signals_ok r2"
    using signals_after(1) [of "rr_activity_window rr" now a ?r] d evidence_of [OF ok] by simp
  then show ?thesis using d ok
    by (auto simp: reserve_def record_ticket_def Let_def evidence_store split: option.split)
qed

lemma evidence_can_admit: "evidence_ok rr \<Longrightarrow> evidence_ok (snd (can_admit now a rr))"
proof (cases "dget (rr_rungs rr) (ra_key a)")
  case (Some r)
  assume ok: "evidence_ok rr"
  let ?r = "prune_window (stamped_rung (rr_activity_window rr) (ra_organization_id a) (ra_weight a) now r) now"
  have r: "signals_ok ?r" using evidence_dget [OF ok Some] by simp
  have "signals_ok r2" if "shed_reason w ?r i now x = (s, r2)" for w i x s r2
    using signals_after(2) [of w ?r i now x] that r by simp
  with r show ?thesis using Some ok
    by (auto simp: can_admit_def Let_def evidence_store split: prod.split)
qed (simp add: can_admit_def)

lemma evidence_step: "evidence_ok rr \<Longrightarrow> evidence_ok (rung_step op rr)"
proof (cases op)
  case (Fleet_Acquire t lane v now wall sent)
  assume "evidence_ok rr"
  with Fleet_Acquire show ?thesis
    by (auto simp: fleet_acquire_def evidence_window evidence_release split: option.splits prod.splits)
qed (auto simp: evidence_reserve evidence_can_admit bind_def release_ticket_def release_attempt_def evidence_release
    record_throttle_def Let_def evidence_settle split: option.split)

lemma cached_fraction_range:
  assumes "evidence_ok rr"
  shows "0 \<le> cached_fraction rr k i now \<and> cached_fraction rr k i now \<le> 1"
    and "0 \<le> rung_cached_fraction (rung_of rr k) i \<and> rung_cached_fraction (rung_of rr k) i \<le> 1"
proof -
  have s: "0 \<le> cs_fraction s \<and> cs_fraction s \<le> 1" if "dget (rl_cache_fractions (rung_of rr k)) i = Some s" for s
    using evidence_of [OF assms, of k] dget_in_set [OF that] by (force simp: signals_ok_def)
  then show "0 \<le> cached_fraction rr k i now \<and> cached_fraction rr k i now \<le> 1"
    by (auto simp: cached_fraction_def rung_of_def dget_or_def split: option.split)
  show "0 \<le> rung_cached_fraction (rung_of rr k) i \<and> rung_cached_fraction (rung_of rr k) i \<le> 1"
    using s by (auto simp: rung_cached_fraction_def split: option.split)
qed

lemma evidence_component:
  assumes "new_rung_registry w b = Inr start"
  shows "component rung_step (\<lambda>_. True) start evidence_ok"
    and "component rung_step (\<lambda>_. True) (attach_fleet_gate start) evidence_ok"
proof -
  have ok: "evidence_ok start"
    using assms by (auto simp: new_rung_registry_def evidence_ok_def rung_of_def dget_or_def split: if_splits)
  then show "component rung_step (\<lambda>_. True) start evidence_ok"
    using evidence_step by unfold_locales
  from ok show "component rung_step (\<lambda>_. True) (attach_fleet_gate start) evidence_ok"
    using evidence_step by unfold_locales (simp_all add: attach_fleet_gate_def)
qed

interpretation rung_evidence: component rung_step "\<lambda>_. True" "attach_fleet_gate default_rung_registry" evidence_ok
  by (rule evidence_component(2) [OF default_rung_registry])

text \<open>
  Cache evidence is a fraction. On every registry reachable from an empty one, the cached fraction of an organisation
  on a rung lies between zero and one whatever token counts the settlements reported, so with a congestion of at most one
  the cache-priority weight of an organisation is between its base weight and \<open>1 + alpha\<close> times it.
\<close>

lemma cached_fraction_bounds:
  assumes "new_rung_registry w b = Inr start"
    and "reachable rung_step (\<lambda>_. True) (attach_fleet_gate start) rr \<or> reachable rung_step (\<lambda>_. True) start rr"
  shows "0 \<le> cached_fraction rr k i now \<and> cached_fraction rr k i now \<le> 1
    \<and> (0 \<le> ol_weight load \<and> 0 \<le> alpha \<and> 0 \<le> c \<and> c \<le> 1 \<longrightarrow>
        real_of_int (ol_weight load) \<le> effective_weight load (rung_cached_fraction (rung_of rr k) i) (Some alpha) c
        \<and> effective_weight load (rung_cached_fraction (rung_of rr k) i) (Some alpha) c
            \<le> real_of_int (ol_weight load) * (1 + alpha))"
proof -
  have ok: "evidence_ok rr"
    using assms(2) component.reachable_inv [OF evidence_component(1) [OF assms(1)]]
      component.reachable_inv [OF evidence_component(2) [OF assms(1)]] by blast
  note f = cached_fraction_range(2) [OF ok, of k i]
  have "real_of_int (ol_weight load) \<le> effective_weight load (rung_cached_fraction (rung_of rr k) i) (Some alpha) c
      \<and> effective_weight load (rung_cached_fraction (rung_of rr k) i) (Some alpha) c
        \<le> real_of_int (ol_weight load) * (1 + alpha)"
    if "0 \<le> ol_weight load \<and> 0 \<le> alpha \<and> 0 \<le> c \<and> c \<le> 1"
  proof -
    have "c * rung_cached_fraction (rung_of rr k) i \<le> 1" "0 \<le> c * rung_cached_fraction (rung_of rr k) i"
      using that f by (auto intro: mult_le_one)
    then have "alpha * c * rung_cached_fraction (rung_of rr k) i \<le> alpha"
      "0 \<le> alpha * c * rung_cached_fraction (rung_of rr k) i"
      using that by (simp_all add: mult.assoc mult_left_le)
    then show ?thesis using that
      by (auto simp: effective_weight_def mult_left_mono intro!: mult_left_mono mult_le_cancel_left1 [THEN iffD2])
  qed
  with cached_fraction_range(1) [OF ok, of k i now] show ?thesis by blast
qed

end
