(* ===== verification/Lane_Saturation.thy ===== *)
theory Lane_Saturation
  imports Sticky_Affinity Rung_Limits
begin

text \<open>
  Worker protection against one slow lane (\<^verbatim>\<open>src/exp/runtime/gateway/lane_saturation.py\<close>) and the request-class levers
  of a self-hosted rung (\<^verbatim>\<open>src/exp/runtime/gateway/class_throttles.py\<close>). The contract keeps
  \<open>auth_priority_admission\<close> within 0..2, so the table lookups by level never miss.
\<close>

section \<open>Overflow ceilings\<close>

definition DEFAULT_LANE_SHARE :: real where "DEFAULT_LANE_SHARE = 1 / 2"
definition LANE_SATURATED_RETRY_AFTER_SECONDS :: int where "LANE_SATURATED_RETRY_AFTER_SECONDS = 5"
definition PRIORITY_OVERFLOW_FACTORS :: "real list" where "PRIORITY_OVERFLOW_FACTORS = [1, 5 / 4, 3 / 2]"
definition DEFAULT_BOUND_OVERFLOW_FACTORS :: "real list" where "DEFAULT_BOUND_OVERFLOW_FACTORS = [1, 5 / 4, 3 / 2]"
definition FAILOVER_OVERFLOW_FRACTION :: real where "FAILOVER_OVERFLOW_FRACTION = 1 / 2"

definition priority_overflow_ceiling ::
    "int option \<Rightarrow> int \<Rightarrow> bool \<Rightarrow> real option \<times> real option \<Rightarrow> real option" where
  "priority_overflow_ceiling bound priority_admission default_bound authored =
     (case bound of
        None \<Rightarrow> None
      | Some b \<Rightarrow>
          if priority_admission = 0 then None
          else if default_bound
            then Some (real_of_int b * DEFAULT_BOUND_OVERFLOW_FACTORS ! nat priority_admission)
          else
            (let paying = (case fst authored of None \<Rightarrow> PRIORITY_OVERFLOW_FACTORS ! 1 | Some v \<Rightarrow> v);
                 pro = (case snd authored of None \<Rightarrow> PRIORITY_OVERFLOW_FACTORS ! 2 | Some v \<Rightarrow> v)
             in Some (real_of_int b * (if priority_admission = 2 then pro else min paying pro))))"

definition failover_overflow_cap :: "int option \<Rightarrow> int option" where
  "failover_overflow_cap bound =
     map_option (\<lambda>b. max 1 \<lceil>real_of_int b * FAILOVER_OVERFLOW_FRACTION\<rceil>) bound"

definition default_lane_bound :: "int \<Rightarrow> real \<Rightarrow> py_error + int" where
  "default_lane_bound max_active_requests share =
     (if max_active_requests < 1 then Inl (ValueError ''max_active_requests must be at least one'')
      else if \<not> (0 < share \<and> share \<le> 1) then Inl (ValueError ''share must be in (0, 1]'')
      else Inr (max 1 \<lceil>real_of_int max_active_requests * share\<rceil>))"

section \<open>The refusal\<close>

definition LANE_SATURATED_MESSAGE :: string where
  "LANE_SATURATED_MESSAGE = ''This model is at capacity right now. Please retry in a few seconds.''"

definition LANE_SATURATED_UPSELL :: "string list" where
  "LANE_SATURATED_UPSELL =
     ['' Pro subscribers get priority access when models are busy.'',
      '' Pro orgs get even higher priority when models are busy.'', '''']"

definition lane_saturated_failure :: "authorization_snapshot \<Rightarrow> gateway_failure" where
  "lane_saturated_failure authorization =
     \<lparr>failure_class = THROTTLED,
      safe_message = LANE_SATURATED_MESSAGE @ LANE_SATURATED_UPSELL ! nat (auth_priority_admission authorization),
      retryable_same_deployment = False, failover_eligible = False, safe_details = [], rejected_parameter = None,
      provider_detail = None, failure_retry_after_seconds = Some LANE_SATURATED_RETRY_AFTER_SECONDS,
      customer_owned = False, refusal_reason = None, header_timeout = None\<rparr>"

section \<open>Where an exhausted ladder overflows\<close>

definition authors_refuse :: "gateway_rung_dispatch_policy option \<Rightarrow> bool" where
  "authors_refuse policy \<longleftrightarrow> (case policy of None \<Rightarrow> False | Some p \<Rightarrow> saturation p = Refuse)"

definition historical_target :: "gateway_route \<Rightarrow> nat \<Rightarrow> rung_shed option \<Rightarrow> nat option" where
  "historical_target route depth shed =
     (if (case shed of None \<Rightarrow> False | Some s \<Rightarrow> shed_default_bound s \<or> shed_overflow_ceiling s) then None
      else if authors_refuse (dispatch (deployments route ! depth)) then None
      else Some depth)"

fun priority_target ::
    "gateway_route \<Rightarrow> (nat, rung_shed) dict \<Rightarrow> (nat \<times> string) list \<Rightarrow> nat option" where
  "priority_target route records [] = None"
| "priority_target route records ((depth, reason) # sheds) =
     (case dget records depth of
        None \<Rightarrow> Some depth
      | Some shed \<Rightarrow>
          if shed_overflow_ceiling shed then priority_target route records sheds
          else if shed_reason_code shed = Rate_Limit
            then (if resolved_route_id route \<noteq> None then None else historical_target route depth (Some shed))
          else Some depth)"

fun free_target :: "gateway_route \<Rightarrow> (nat, rung_shed) dict \<Rightarrow> (nat \<times> string) list \<Rightarrow> nat option" where
  "free_target route records [] = None"
| "free_target route records ((depth, reason) # sheds) =
     (case dget records depth of
        None \<Rightarrow> historical_target route depth None
      | Some shed \<Rightarrow>
          if shed_fleet shed then free_target route records sheds else historical_target route depth (Some shed))"

definition overflow_target :: "gateway_route \<Rightarrow> (nat \<times> string) list \<Rightarrow> (nat, rung_shed) dict \<Rightarrow> nat option" where
  "overflow_target route policy_sheds records =
     (if policy_sheds = [] then None
      else if auth_priority_admission (snapshot_authorization (snapshot route)) \<noteq> 0
        then priority_target route records policy_sheds
      else free_target route records policy_sheds)"

section \<open>Self-hosted rungs\<close>

definition TOP_PRIORITY_CLASS :: int where "TOP_PRIORITY_CLASS = 8"
definition FAST_PRIORITY_CLASS :: int where "FAST_PRIORITY_CLASS = TOP_PRIORITY_CLASS + 1"
definition FAST_UPSTREAM_PRIORITY :: int where "FAST_UPSTREAM_PRIORITY = - 1"

definition is_self_hosted_rung :: "exact_model_deployment \<Rightarrow> bool" where
  "is_self_hosted_rung d \<longleftrightarrow>
     dep_billing_source d = HOST_MANAGED
     \<and> (case dispatch d of None \<Rightarrow> False | Some p \<Rightarrow> gateway_rung_dispatch_policy.upstream_priority p)"

definition fast_on_rung :: "authorization_snapshot \<Rightarrow> exact_model_deployment \<Rightarrow> bool" where
  "fast_on_rung a d \<longleftrightarrow> auth_fast a \<and> is_self_hosted_rung d \<and> priority (prices d) \<noteq> None"

definition priority_tier_attested_rung :: "exact_model_deployment \<Rightarrow> bool" where
  "priority_tier_attested_rung d \<longleftrightarrow>
     dep_billing_source d = HOST_MANAGED
     \<and> (case dispatch d of None \<Rightarrow> False | Some p \<Rightarrow> priority_tier_attested p)
     \<and> priority (prices d) \<noteq> None"

definition fast_reserve_slots :: "exact_model_deployment \<Rightarrow> int option" where
  "fast_reserve_slots d =
     (case dispatch d of
        None \<Rightarrow> None
      | Some p \<Rightarrow>
          (case (fast_reserve_fraction p, concurrency_bound p) of
             (Some fraction, Some bound) \<Rightarrow>
               if \<not> is_self_hosted_rung d \<or> priority (prices d) = None then None
               else (let regular = max 1 \<lfloor>(1 - fraction) * real_of_int bound + 1 / 2\<rfloor>
                     in if regular < bound then Some (bound - regular) else None)
           | _ \<Rightarrow> None))"

definition effective_bound :: "rung_registry \<Rightarrow> exact_model_deployment \<Rightarrow> int option" where
  "effective_bound loads d =
     (case dispatch d of
        None \<Rightarrow> rr_default_bound loads
      | Some p \<Rightarrow> (case concurrency_bound p of None \<Rightarrow> rr_default_bound loads | Some b \<Rightarrow> Some b))"

definition rung_saturation :: "rung_registry \<Rightarrow> exact_model_deployment \<Rightarrow> real option" where
  "rung_saturation loads d =
     (case effective_bound loads d of
        None \<Rightarrow> None
      | Some bound \<Rightarrow>
          (let key = rung_load_key d
           in case fast_reserve_slots d of
                Some slots \<Rightarrow>
                  Some (real_of_int (inflight loads key None - fast_inflight loads key) / real_of_int (bound - slots))
              | None \<Rightarrow> Some (real_of_int (inflight loads key None) / real_of_int bound)))"

definition output_pace ::
    "authorization_snapshot \<Rightarrow> exact_model_deployment \<Rightarrow> rung_registry \<Rightarrow> real option" where
  "output_pace a d loads =
     (case auth_output_tokens_per_second a of
        None \<Rightarrow> None
      | Some pace \<Rightarrow>
          if fast_on_rung a d then None
          else if \<not> is_self_hosted_rung d then None
          else (case auth_output_pace_saturation a of
                  None \<Rightarrow> Some pace
                | Some threshold \<Rightarrow>
                    (case rung_saturation loads d of
                       None \<Rightarrow> None
                     | Some s \<Rightarrow> if s \<ge> threshold then Some pace else None)))"

definition class_concurrency_cap :: "authorization_snapshot \<Rightarrow> exact_model_deployment \<Rightarrow> (int \<times> int) option" where
  "class_concurrency_cap a d =
     (case (auth_self_hosted_class_concurrency a, auth_priority_class a) of
        (Some cap, Some request_class) \<Rightarrow>
          if fast_on_rung a d \<or> \<not> is_self_hosted_rung d then None else Some (request_class, cap)
      | _ \<Rightarrow> None)"

definition admission_priority_class :: "authorization_snapshot \<Rightarrow> int option" where
  "admission_priority_class a = (if auth_fast a then Some FAST_PRIORITY_CLASS else auth_priority_class a)"

text \<open>\<open>by_level\<close> is the level map of \<^verbatim>\<open>native_rungs.py\<close>; a missing level raises \<open>KeyError\<close>.\<close>

definition upstream_priority_of ::
    "authorization_snapshot \<Rightarrow> exact_model_deployment \<Rightarrow> (int, int) dict \<Rightarrow> py_error + int" where
  "upstream_priority_of a d by_level =
     (if fast_on_rung a d then Inr FAST_UPSTREAM_PRIORITY
      else case auth_priority_class a of
             Some c \<Rightarrow> Inr (TOP_PRIORITY_CLASS - c)
           | None \<Rightarrow> (case dget by_level (auth_priority_admission a) of
               None \<Rightarrow> Inl (KeyLookupError ''priority_admission'') | Some v \<Rightarrow> Inr v))"

definition tier_authorization :: "authorization_snapshot \<Rightarrow> string option \<Rightarrow> authorization_snapshot" where
  "tier_authorization a tier =
     (if auth_fast a \<or> tier \<noteq> Some ''priority'' then a else a\<lparr>auth_fast := True\<rparr>)"

definition fast_request_tier :: "string option \<Rightarrow> authorization_snapshot \<Rightarrow> string option" where
  "fast_request_tier tier a = (if auth_fast a then Some ''priority'' else tier)"

definition require_fast_path :: "string option \<Rightarrow> authorization_snapshot \<Rightarrow> py_error + unit" where
  "require_fast_path tier a =
     (if auth_fast a \<and> tier \<noteq> Some ''priority''
      then Inl (ProviderError ''This model has no fast path: none of its lanes offers a faster processing tier. Remove the :fast suffix, or choose a model that lists a :fast variant.'')
      else Inr ())"

section \<open>Lemmas\<close>

lemma ceiling_half: "\<lceil>real_of_int n * (1 / 2)\<rceil> = (n + 1) div 2"
proof (rule ceiling_unique)
  show "real_of_int ((n + 1) div 2) - 1 < real_of_int n * (1 / 2)"
    using div_mult_mod_eq [of "n + 1" 2] pos_mod_bound [of 2 "n + 1"] by (simp add: field_simps)
  show "real_of_int n * (1 / 2) \<le> real_of_int ((n + 1) div 2)"
    using div_mult_mod_eq [of "n + 1" 2] pos_mod_bound [of 2 "n + 1"] by (simp add: field_simps)
qed

lemma default_lane_bound_half:
  "default_lane_bound n DEFAULT_LANE_SHARE = Inr b \<Longrightarrow> 1 \<le> n \<and> b = (n + 1) div 2 \<and> 1 \<le> b"
  by (auto simp: default_lane_bound_def DEFAULT_LANE_SHARE_def ceiling_half [simplified] split: if_splits)

lemma failover_overflow_cap_half: "1 \<le> b \<Longrightarrow> failover_overflow_cap (Some b) = Some ((b + 1) div 2)"
  by (auto simp: failover_overflow_cap_def FAILOVER_OVERFLOW_FRACTION_def ceiling_half [simplified])

lemma default_ceiling_le:
  assumes "0 \<le> level \<and> level \<le> 2" and "priority_overflow_ceiling (Some b) level True authored = Some c" and "0 \<le> b"
  shows "c \<le> real_of_int b * (3 / 2)"
proof -
  have "level \<noteq> 0" using assms(2) by (cases "level = 0") (simp_all add: priority_overflow_ceiling_def)
  then have "level = 1 \<or> level = 2" using assms(1) by linarith
  with assms(2,3) show ?thesis by (auto simp: priority_overflow_ceiling_def DEFAULT_BOUND_OVERFLOW_FACTORS_def)
qed

lemma fast_reserve_slots_bounds:
  assumes "fast_reserve_slots d = Some s"
  shows "is_self_hosted_rung d \<and> (\<exists>p b. dispatch d = Some p \<and> concurrency_bound p = Some b \<and> 1 \<le> s \<and> s < b)"
  using assms by (auto simp: fast_reserve_slots_def Let_def split: option.splits if_splits)

lemma third_party_levers_inert:
  assumes "\<not> is_self_hosted_rung d"
  shows "fast_reserve_slots d = None" and "class_concurrency_cap a d = None" and "output_pace a d loads = None"
    and "\<not> fast_on_rung a d"
  using assms by (auto simp: fast_reserve_slots_def class_concurrency_cap_def output_pace_def fast_on_rung_def
      split: option.splits)

lemma historical_target_Some:
  "historical_target route depth shed = Some t \<longleftrightarrow>
     t = depth \<and> \<not> authors_refuse (dispatch (deployments route ! depth))
     \<and> (\<forall>s. shed = Some s \<longrightarrow> \<not> shed_default_bound s \<and> \<not> shed_overflow_ceiling s)"
  by (auto simp: historical_target_def split: option.splits)

lemma free_target_Some:
  "free_target route records sheds = Some t \<Longrightarrow>
     t \<in> fst ` set sheds \<and> \<not> authors_refuse (dispatch (deployments route ! t))
     \<and> (\<forall>s. dget records t = Some s \<longrightarrow>
          \<not> shed_fleet s \<and> \<not> shed_default_bound s \<and> \<not> shed_overflow_ceiling s)"
  by (induction route records sheds rule: free_target.induct)
    (auto simp: historical_target_Some split: option.splits if_splits)

lemma priority_target_Some:
  "priority_target route records sheds = Some t \<Longrightarrow>
     t \<in> fst ` set sheds
     \<and> (\<forall>s. dget records t = Some s \<longrightarrow> \<not> shed_overflow_ceiling s
          \<and> (shed_reason_code s = Rate_Limit \<longrightarrow> resolved_route_id route = None \<and> \<not> shed_default_bound s
               \<and> \<not> authors_refuse (dispatch (deployments route ! t))))"
  by (induction route records sheds rule: priority_target.induct)
    (auto simp: historical_target_Some split: option.splits if_splits)

text \<open>A priority caller is refused outright only when each bypassed rung was capped, up to a rate shed that refuses.\<close>

lemma priority_target_None:
  "priority_target route records sheds = None \<Longrightarrow>
     (\<forall>d \<in> fst ` set sheds. \<exists>s. dget records d = Some s \<and> shed_overflow_ceiling s)
     \<or> (\<exists>d \<in> fst ` set sheds. \<exists>s. dget records d = Some s \<and> shed_reason_code s = Rate_Limit
          \<and> (resolved_route_id route \<noteq> None \<or> shed_default_bound s \<or> authors_refuse (dispatch (deployments route ! d))))"
  by (induction route records sheds rule: priority_target.induct)
    (auto simp: historical_target_def split: option.splits if_splits)

section \<open>Properties\<close>

text \<open>
  C23. Where an exhausted ladder may overflow. The target is one of the rungs bypassed by policy and never one whose
  reservation hit a hard ceiling. For a free caller it is neither fleet-capped nor bounded by the worker's default nor
  on a rung that authors refusal; a priority caller may pass such a capacity bound but not a rate window the free rule
  would refuse, and on a selected route no rate window at all; it is turned away only when every bypassed rung was capped,
  or at a rate window where the route was selected, the worker's default decided or the rung authors refusal.
\<close>

theorem overflow_target_sound:
  "case overflow_target route sheds records of
     Some t \<Rightarrow> t \<in> fst ` set sheds
       \<and> (\<forall>s. dget records t = Some s \<longrightarrow> \<not> shed_overflow_ceiling s)
       \<and> (auth_priority_admission (snapshot_authorization (snapshot route)) = 0 \<longrightarrow>
            \<not> authors_refuse (dispatch (deployments route ! t))
            \<and> (\<forall>s. dget records t = Some s \<longrightarrow> \<not> shed_fleet s \<and> \<not> shed_default_bound s))
       \<and> (\<forall>s. dget records t = Some s \<and> shed_reason_code s = Rate_Limit \<longrightarrow>
            \<not> authors_refuse (dispatch (deployments route ! t)) \<and> \<not> shed_default_bound s
            \<and> (auth_priority_admission (snapshot_authorization (snapshot route)) \<noteq> 0 \<longrightarrow> resolved_route_id route = None))
   | None \<Rightarrow> auth_priority_admission (snapshot_authorization (snapshot route)) \<noteq> 0 \<longrightarrow>
       (\<forall>d \<in> fst ` set sheds. \<exists>s. dget records d = Some s \<and> shed_overflow_ceiling s)
       \<or> (\<exists>d \<in> fst ` set sheds. \<exists>s. dget records d = Some s \<and> shed_reason_code s = Rate_Limit
            \<and> (resolved_route_id route \<noteq> None \<or> shed_default_bound s \<or> authors_refuse (dispatch (deployments route ! d))))"
proof (cases "overflow_target route sheds records")
  case (Some t)
  then show ?thesis
    using free_target_Some [of route records sheds t] priority_target_Some [of route records sheds t]
    by (auto simp: overflow_target_def split: if_splits)
next
  case None
  then show ?thesis using priority_target_None [of route records sheds]
    by (auto simp: overflow_target_def split: if_splits)
qed

definition sample_bounded :: gateway_rung_dispatch_policy where
  "sample_bounded = default_dispatch\<lparr>concurrency_bound := Some 1\<rparr>"

theorem overflow_target_sound_witness:
  "overflow_target (sample_route (Some sample_bounded)) [(0, ''queue_bound''), (1, ''queue_bound'')]
       [(0, (plain_shed Queue_Bound)\<lparr>shed_fleet := True\<rparr>), (1, plain_shed Queue_Bound)] = Some 1
   \<and> \<not> authors_refuse (dispatch (deployments (sample_route (Some sample_bounded)) ! 1))"
proof -
  let ?r = "[(0, (plain_shed Queue_Bound)\<lparr>shed_fleet := True\<rparr>), (1, plain_shed Queue_Bound)]"
  have t: "overflow_target (sample_route (Some sample_bounded)) [(0, ''queue_bound''), (1, ''queue_bound'')] ?r = Some 1"
    by code_simp
  moreover have "auth_priority_admission (snapshot_authorization (snapshot (sample_route (Some sample_bounded)))) = 0"
    by code_simp
  ultimately show ?thesis
    using overflow_target_sound [of "sample_route (Some sample_bounded)" "[(0, ''queue_bound''), (1, ''queue_bound'')]" ?r]
    unfolding t option.case by blast
qed

end
