(* ===== verification/Failover_Pass.thy ===== *)
theory Failover_Pass
  imports Lane_Saturation
begin

text \<open>
  The in-flight request (\<^verbatim>\<open>native_execution.py\<close>) and the successor walk of one failover reservation
  (\<^verbatim>\<open>src/exp/runtime/gateway/failover_pass.py\<close>): the untried ladder, its sideways spill and its forced pass. The walk's
  mutable object is a record every method returns updated; \<open>forced\<close> is a set kept as a list.
\<close>

section \<open>The in-flight request\<close>

record request_attempt_policy =
  maximum_total_attempts :: int
  maximum_same_deployment_attempts :: int
  physical_route_cap :: "int option"

definition default_attempt_policy :: request_attempt_policy where
  "default_attempt_policy = \<lparr>maximum_total_attempts = 8, maximum_same_deployment_attempts = 2, physical_route_cap = None\<rparr>"

definition permits :: "request_attempt_policy \<Rightarrow> int \<Rightarrow> int \<Rightarrow> bool" where
  "permits p tot physical_at_route \<longleftrightarrow>
     tot < maximum_total_attempts p
     \<and> (case physical_route_cap p of None \<Rightarrow> True | Some cap \<Rightarrow> physical_at_route < cap)"

text \<open>
  Of \<open>InflightRequest\<close>, the fields dispatch reservation and settlement read or write. \<open>ir_session_request\<close> tells a chat or
  Responses request from the surfaces without a session concept.
\<close>

record inflight_request =
  ir_authorization :: authorization_snapshot
  ir_route :: gateway_route
  ir_session_request :: bool
  ir_deadline :: seconds
  ir_attempt_counts :: "int list"
  ir_ordinary_attempt_counts :: "int list"
  ir_attempt_policy :: request_attempt_policy
  ir_throttle_redials :: "int list"
  ir_throttle_redial_budgets :: "int list"
  ir_total_attempts :: int
  ir_active_attempt_id :: "string option"
  ir_attempt_depths :: "(string, nat) dict"
  ir_affinity_fingerprint :: "fingerprint option"
  ir_verified_warm_deployment_id :: "string option"
  ir_verified_warm_until :: seconds
  ir_recovery_scoped :: bool
  ir_sticky_preferred :: bool
  ir_cache_recorded_attempts :: "string list"
  ir_denied_destination_pools :: "string list"

text \<open>\<open>__post_init__\<close>: empty counters are sized to the route, absent redial budgets are each stage's full schedule.\<close>

definition stage_redial_budget :: "gateway_route \<Rightarrow> nat \<Rightarrow> py_error + int" where
  "stage_redial_budget route depth =
     rbind (stage_for_depth (snapshot route) depth) (\<lambda>stage.
       Inr (case stage_throttle_redial stage of None \<Rightarrow> 0 | Some schedule \<Rightarrow> max_attempts schedule))"

fun rmap :: "('a \<Rightarrow> 'e + 'b) \<Rightarrow> 'a list \<Rightarrow> 'e + 'b list" where
  "rmap f [] = Inr []"
| "rmap f (x # xs) = rbind (f x) (\<lambda>y. rbind (rmap f xs) (\<lambda>ys. Inr (y # ys)))"

definition inflight_post_init :: "inflight_request \<Rightarrow> py_error + inflight_request" where
  "inflight_post_init e =
     (let n = length (deployments (ir_route e));
          counts = (if ir_attempt_counts e = [] then replicate n 0 else ir_attempt_counts e);
          e1 = e\<lparr>ir_attempt_counts := counts,
                 ir_ordinary_attempt_counts :=
                   (if ir_ordinary_attempt_counts e = [] then counts else ir_ordinary_attempt_counts e),
                 ir_throttle_redials := (if ir_throttle_redials e = [] then replicate n 0 else ir_throttle_redials e)\<rparr>
      in if ir_throttle_redial_budgets e \<noteq> [] then Inr e1
         else rbind (rmap (stage_redial_budget (ir_route e)) [0..<n])
                (\<lambda>budgets. Inr (e1\<lparr>ir_throttle_redial_budgets := budgets\<rparr>)))"

section \<open>The walk\<close>

record failover_pass =
  fo_untried :: "nat list"
  fo_ladder :: "nat list"
  fo_may_force :: bool
  fo_forced :: "nat list"
  fo_forcing :: bool

definition failover_begin :: "inflight_request \<Rightarrow> gateway_failure option \<Rightarrow> nat option \<Rightarrow> failover_pass option" where
  "failover_begin entry failure current_depth =
     (case (failure, current_depth) of
        (Some f, Some depth) \<Rightarrow>
          (let refusal = (failure_class f = REFUSAL \<and> auth_refusal_failover (ir_authorization entry))
           in if \<not> (failover_eligible f \<or> refusal) then None
              else (let untried = untried_depths (route_fallback_rules (ir_route entry)) (Some f)
                          (ir_attempt_counts entry) depth True
                    in Some \<lparr>fo_untried = untried, fo_ladder = untried,
                             fo_may_force = (failure_class f \<in> set DEAD_LANE_FAILURES), fo_forced = [],
                             fo_forcing = False\<rparr>))
      | _ \<Rightarrow> None)"

definition sideways ::
    "(nat \<Rightarrow> seconds) \<Rightarrow> health_key list \<Rightarrow> nat \<Rightarrow> failover_pass \<Rightarrow> nat \<Rightarrow> health_registry
      \<Rightarrow> nat option \<times> failover_pass \<times> nat \<times> health_registry" where
  "sideways clock keys candidate w n h =
     (if fo_forcing w then (None, w\<lparr>fo_forcing := False\<rparr>, n, h)
      else
        (let w' = w\<lparr>fo_ladder := filter (\<lambda>depth. depth \<noteq> candidate) (fo_ladder w)\<rparr>
         in if fo_ladder w' = [] then (None, w', n, h)
            else (case claim_route_from clock keys 0 (Some (fo_ladder w')) n h of (c, n', h') \<Rightarrow> (c, w', n', h'))))"

text \<open>A rung the walk passes over without claiming it.\<close>

definition force_skips :: "failover_pass \<Rightarrow> (nat, rung_shed) dict \<Rightarrow> nat \<Rightarrow> bool" where
  "force_skips w records depth \<longleftrightarrow>
     depth \<in> set (fo_forced w) \<or> depth \<notin> set (fo_untried w)
     \<or> (case dget records depth of
          None \<Rightarrow> True
        | Some shed \<Rightarrow> shed_overflow_ceiling shed \<or> shed_reason_code shed = Rate_Limit)"

fun force_loop ::
    "(nat \<Rightarrow> seconds) \<Rightarrow> health_key list \<Rightarrow> (nat, rung_shed) dict \<Rightarrow> (nat \<times> string) list \<Rightarrow> failover_pass \<Rightarrow> nat
      \<Rightarrow> health_registry \<Rightarrow> nat option \<times> failover_pass \<times> nat \<times> health_registry" where
  "force_loop clock keys records [] w n h = (None, w, n, h)"
| "force_loop clock keys records ((depth, reason) # sheds) w n h =
     (if force_skips w records depth then force_loop clock keys records sheds w n h
      else
        (let w' = w\<lparr>fo_forced := List.insert depth (fo_forced w)\<rparr>
         in case claim_route_from clock keys depth (Some [depth]) n h of
              (c, n', h') \<Rightarrow>
                if c \<noteq> Some depth then force_loop clock keys records sheds w' n' h'
                else (Some depth, w'\<lparr>fo_forcing := True\<rparr>, n', h')))"

definition forced_target ::
    "(nat \<Rightarrow> seconds) \<Rightarrow> health_key list \<Rightarrow> (nat \<times> string) list \<Rightarrow> (nat, rung_shed) dict \<Rightarrow> failover_pass \<Rightarrow> nat
      \<Rightarrow> health_registry \<Rightarrow> nat option \<times> failover_pass \<times> nat \<times> health_registry" where
  "forced_target clock keys policy_sheds records w n h =
     (if \<not> fo_may_force w then (None, w, n, h) else force_loop clock keys records policy_sheds w n h)"

definition failover_refusal ::
    "failover_pass option \<Rightarrow> authorization_snapshot \<Rightarrow> (nat, rung_shed) dict \<Rightarrow> gateway_failure option" where
  "failover_refusal failover authorization records =
     (case failover of
        None \<Rightarrow> None
      | Some w \<Rightarrow>
          if \<not> fo_may_force w \<or> \<not> list_ex (\<lambda>depth. dget records depth \<noteq> None) (fo_untried w) then None
          else Some (lane_saturated_failure authorization))"

definition forced_failover_target ::
    "(nat \<Rightarrow> seconds) \<Rightarrow> health_key list \<Rightarrow> (nat \<times> string) list \<Rightarrow> (nat, rung_shed) dict \<Rightarrow> failover_pass option \<Rightarrow> nat
      \<Rightarrow> health_registry \<Rightarrow> nat option \<times> failover_pass option \<times> nat \<times> health_registry" where
  "forced_failover_target clock keys policy_sheds records failover n h =
     (case failover of
        None \<Rightarrow> (None, None, n, h)
      | Some w \<Rightarrow> (case forced_target clock keys policy_sheds records w n h of
            (c, w', n', h') \<Rightarrow> (c, Some w', n', h')))"

definition sideways_claim ::
    "(nat \<Rightarrow> seconds) \<Rightarrow> health_key list \<Rightarrow> nat list \<Rightarrow> nat \<Rightarrow> failover_pass option \<Rightarrow> nat \<Rightarrow> health_registry
      \<Rightarrow> nat option \<times> failover_pass option \<times> nat \<times> health_registry" where
  "sideways_claim clock keys ladder candidate failover n h =
     (case failover of
        None \<Rightarrow> (case claim_route_from clock keys (candidate + 1) (Some ladder) n h of (c, n', h') \<Rightarrow> (c, None, n', h'))
      | Some w \<Rightarrow> (case sideways clock keys candidate w n h of (c, w', n', h') \<Rightarrow> (c, Some w', n', h')))"

section \<open>Lemmas\<close>

lemma claim_candidates_Some [simp]: "set (claim_candidates keys start (Some ds)) = {i \<in> set ds. start \<le> i}"
  by (auto simp: claim_candidates_def)

lemma claim_pass_advances: "claim_pass f clock key cs n r = (res, m, r') \<Longrightarrow> n \<le> m"
proof (induction cs arbitrary: n r)
  case (Cons i cs)
  then show ?case by (cases "f (key i) (clock n) r") (force split: bool.splits dest: Cons.IH)
qed simp

lemma claim_route_advances:
  assumes "claim_route_from clock keys start depths n h = (res, m, h')"
  shows "n \<le> m"
proof -
  have "n \<le> Suc n" by simp
  with assms show ?thesis unfolding claim_route_from_def Let_def
    by (auto split: prod.splits option.splits dest!: claim_pass_advances)
qed

text \<open>What the forcing loop leaves: the untried depths stay, the forced ones only grow, and only by untried ones.\<close>

definition forces_more :: "failover_pass \<Rightarrow> failover_pass \<Rightarrow> bool" where
  "forces_more w w' \<longleftrightarrow> fo_untried w' = fo_untried w \<and> fo_ladder w' = fo_ladder w \<and> fo_may_force w' = fo_may_force w
     \<and> set (fo_forced w) \<subseteq> set (fo_forced w') \<and> set (fo_forced w') \<subseteq> set (fo_forced w) \<union> set (fo_untried w)"

lemma forces_more_refl: "forces_more w w"
  by (simp add: forces_more_def)

lemma forces_more_trans: "forces_more w w' \<Longrightarrow> forces_more w' w'' \<Longrightarrow> forces_more w w''"
  by (auto simp: forces_more_def)

lemma forces_more_insert:
  "d \<in> set (fo_untried w) \<Longrightarrow> forces_more w (w\<lparr>fo_forced := List.insert d (fo_forced w)\<rparr>)"
  "forces_more w (w\<lparr>fo_forcing := b\<rparr>)"
  by (auto simp: forces_more_def)

lemma force_skips_mono: "force_skips w records d \<Longrightarrow> forces_more w w' \<Longrightarrow> force_skips w' records d"
  by (auto simp: force_skips_def forces_more_def)

lemma force_loop_Cons_cases:
  assumes "force_loop clock keys records ((depth, reason) # sheds) w n h = (c, w', n', h')"
  obtains (skip) "force_skips w records depth" "force_loop clock keys records sheds w n h = (c, w', n', h')"
  | (claimed) "\<not> force_skips w records depth" "c = Some depth"
      "claim_route_from clock keys depth (Some [depth]) n h = (Some depth, n', h')"
      "w' = w\<lparr>fo_forced := List.insert depth (fo_forced w), fo_forcing := True\<rparr>"
  | (blocked) r n1 h1 where "\<not> force_skips w records depth" "r \<noteq> Some depth"
      "claim_route_from clock keys depth (Some [depth]) n h = (r, n1, h1)"
      "force_loop clock keys records sheds (w\<lparr>fo_forced := List.insert depth (fo_forced w)\<rparr>) n1 h1 = (c, w', n', h')"
proof -
  obtain r n1 h1 where "claim_route_from clock keys depth (Some [depth]) n h = (r, n1, h1)" by (metis prod_cases3)
  with assms that show thesis by (auto simp: Let_def split: if_splits)
qed

lemma not_force_skips_untried: "\<not> force_skips w records d \<Longrightarrow> d \<in> set (fo_untried w)"
  by (simp add: force_skips_def)

lemma force_loop_more: "force_loop clock keys records sheds w n h = (c, w', n', h') \<Longrightarrow> forces_more w w'"
proof (induction sheds arbitrary: w n h)
  case (Cons x sheds)
  obtain depth reason where x: "x = (depth, reason)" by fastforce
  from Cons.prems [unfolded x] show ?case
  proof (cases rule: force_loop_Cons_cases)
    case claimed
    then show ?thesis
      using forces_more_insert(1) [OF not_force_skips_untried] forces_more_insert(2) forces_more_trans by metis
  next
    case (blocked r n1 h1)
    then show ?thesis
      using forces_more_insert(1) [OF not_force_skips_untried] Cons.IH forces_more_trans by metis
  qed (use Cons.IH in blast)
qed (simp add: forces_more_refl)

lemma force_loop_Some:
  assumes "mono clock" and "force_loop clock keys records sheds w n h = (Some d, w', n', h')"
  shows "d \<in> fst ` set sheds \<and> \<not> force_skips w records d \<and> d \<in> set (fo_forced w') \<and> fo_forcing w'
    \<and> n < n' \<and> \<not> throttled h (key_at keys d) (clock (n' - 1))"
  using assms(2)
proof (induction sheds arbitrary: w n h)
  case (Cons x sheds)
  obtain depth reason where x: "x = (depth, reason)" by fastforce
  from Cons.prems [unfolded x] show ?case
  proof (cases rule: force_loop_Cons_cases)
    case skip
    then show ?thesis using Cons.IH by (auto simp: x)
  next
    case claimed
    then show ?thesis using claim_route_gives_up(2) [OF assms(1) claimed(3), of depth] by (auto simp: x)
  next
    case (blocked r n1 h1)
    let ?w = "w\<lparr>fo_forced := List.insert depth (fo_forced w)\<rparr>"
    have more: "forces_more w ?w" by (rule forces_more_insert(1) [OF not_force_skips_untried [OF blocked(1)]])
    note ih = Cons.IH [OF blocked(4)]
    have "\<not> force_skips w records d" using force_skips_mono [OF _ more] ih by blast
    moreover have "n < n'" using claim_route_advances [OF blocked(3)] ih by simp
    moreover have "\<not> throttled h (key_at keys d) (clock (n' - 1))"
      using ih claim_route_gives_up(3) [OF assms(1) blocked(3)] by metis
    ultimately show ?thesis using ih by (simp add: x)
  qed
qed simp

lemma force_loop_None:
  assumes "mono clock" and "force_loop clock keys records sheds w n h = (None, w', n', h')"
    and "d \<in> fst ` set sheds"
  shows "force_skips w' records d \<and> (force_skips w records d \<or> (\<exists>m \<ge> n. throttled h (key_at keys d) (clock m)))"
  using assms(2,3)
proof (induction sheds arbitrary: w n h)
  case (Cons x sheds)
  obtain depth reason where x: "x = (depth, reason)" by fastforce
  note keep = force_skips_mono [OF _ force_loop_more]
  from Cons.prems(1) [unfolded x] show ?case
  proof (cases rule: force_loop_Cons_cases)
    case skip
    then show ?thesis using Cons.IH [OF skip(2)] Cons.prems(2) keep [OF skip] by (auto simp: x)
  next
    case (blocked r n1 h1)
    let ?w = "w\<lparr>fo_forced := List.insert depth (fo_forced w)\<rparr>"
    have now: "force_skips ?w records depth" by (simp add: force_skips_def)
    have "r = None" using claim_route_gives_up(2) [OF assms(1) blocked(3), of "the r"] blocked(2) by (cases r) auto
    then have "throttled h (key_at keys depth) (clock n)"
      using claim_route_gives_up(1) [OF assms(1) blocked(3)] by simp
    moreover note Cons.IH [OF blocked(4)] claim_route_gives_up(3) [OF assms(1) blocked(3)] keep [OF now blocked(4)]
    moreover have "n \<le> n1" using claim_route_advances [OF blocked(3)] .
    moreover have "force_skips ?w records d = (force_skips w records d \<or> d = depth)"
      by (auto simp: force_skips_def)
    ultimately show ?thesis using Cons.prems(2) by (cases "d = depth") (auto simp: x dest: order_trans)
  qed simp
qed simp

lemma forced_target_cases:
  assumes "forced_target clock keys sheds records w n h = (res, w', n', h')"
  shows "forces_more w w'" and "res = Some d \<Longrightarrow> fo_may_force w"
    and "fo_may_force w \<Longrightarrow> force_loop clock keys records sheds w n h = (res, w', n', h')"
  using assms force_loop_more by (auto simp: forced_target_def forces_more_refl split: if_splits)

definition forces_left :: "failover_pass \<Rightarrow> nat" where
  "forces_left w = card (set (fo_untried w) - set (fo_forced w))"

lemma forces_left_less:
  assumes "forces_more w w'" and "d \<in> set (fo_untried w)" and "d \<notin> set (fo_forced w)" and "d \<in> set (fo_forced w')"
  shows "forces_left w' < forces_left w"
  unfolding forces_left_def using assms
  by (intro psubset_card_mono) (auto simp: forces_more_def)

text \<open>
  One move of a walk: a spill to another untried depth after a candidate of the ladder shed, a forced pass, or the end of
  a forced pass that shed again.
\<close>

inductive failover_move :: "failover_pass \<Rightarrow> failover_pass \<Rightarrow> bool" where
  spill: "sideways clock keys candidate w n h = (Some c, w', n', h') \<Longrightarrow> candidate \<in> set (fo_ladder w) \<Longrightarrow>
    failover_move w w'"
| pass: "mono clock \<Longrightarrow> forced_target clock keys sheds records w n h = (Some c, w', n', h') \<Longrightarrow> failover_move w w'"
| shed_again: "fo_forcing w \<Longrightarrow> sideways clock keys candidate w n h = (c, w', n', h') \<Longrightarrow> failover_move w w'"

definition moves_left :: "failover_pass \<Rightarrow> nat" where
  "moves_left w = length (fo_ladder w) + 2 * forces_left w + (if fo_forcing w then 1 else 0)"

lemma failover_move_decreases: "failover_move w w' \<Longrightarrow> moves_left w' < moves_left w"
proof (induction rule: failover_move.induct)
  case (spill clock keys candidate w n h c w' n' h')
  then have "w' = w\<lparr>fo_ladder := filter (\<lambda>depth. depth \<noteq> candidate) (fo_ladder w)\<rparr>" "\<not> fo_forcing w"
    by (auto simp: sideways_def Let_def split: if_splits prod.splits)
  with spill(2) show ?case by (auto simp: moves_left_def forces_left_def intro: length_filter_less)
next
  case (pass clock keys sheds records w n h c w' n' h')
  note cs = forced_target_cases [OF pass(2)]
  note some = force_loop_Some [OF pass(1) cs(3) [OF cs(2) [OF refl]]]
  then have "forces_left w' < forces_left w"
    by (intro forces_left_less [OF cs(1), of c]) (auto simp: force_skips_def)
  moreover have "fo_ladder w' = fo_ladder w" using cs(1) by (simp add: forces_more_def)
  ultimately show ?case by (simp add: moves_left_def)
next
  case (shed_again w clock keys candidate n h c w' n' h')
  then show ?case by (auto simp: sideways_def moves_left_def forces_left_def)
qed

lemma failover_moves_bounded: "(failover_move ^^ k) w w' \<Longrightarrow> k + moves_left w' \<le> moves_left w"
proof (induction k arbitrary: w')
  case (Suc k)
  then obtain v where "(failover_move ^^ k) w v" "failover_move v w'" by auto
  with Suc.IH [of v] failover_move_decreases [of v w'] show ?case by simp
qed simp

lemma length_untried_depths: "length (untried_depths rules f counts d u) \<le> length rules"
  unfolding untried_depths_def eligible_depths_def
  by (rule order_trans [OF length_filter_le], rule order_trans [OF length_filter_le]) simp

lemma failover_begin_Some:
  assumes "failover_begin entry failure depth = Some w"
  obtains f d where "failure = Some f" "depth = Some d" "fo_ladder w = fo_untried w" "fo_forced w = []" "\<not> fo_forcing w"
    "fo_untried w = untried_depths (route_fallback_rules (ir_route entry)) (Some f) (ir_attempt_counts entry) d True"
    "fo_may_force w = (failure_class f \<in> set DEAD_LANE_FAILURES)"
    "failover_eligible f \<or> (failure_class f = REFUSAL \<and> auth_refusal_failover (ir_authorization entry))"
  using assms that by (auto simp: failover_begin_def Let_def split: option.splits if_splits)

section \<open>Properties\<close>

text \<open>
  A forced pass is earned. Only the walk of a dead-lane failure forces, and it forces a depth that was not dispatched
  and not forced before in the walk, whose reservation shed on a soft capacity limit (never a hard ceiling or a rate
  window) and whose deployment is outside its provider throttle window. When it forces nothing, every such depth had been
  forced already or sits in its throttle window.
\<close>

lemma forced_pass_is_earned:
  assumes clock: "mono clock" and run: "forced_target clock keys sheds records w n h = (res, w', n', h')"
  shows "(\<forall>d. res = Some d \<longrightarrow> fo_may_force w \<and> d \<in> set (fo_untried w) \<and> d \<notin> set (fo_forced w)
           \<and> d \<in> set (fo_forced w') \<and> fo_forcing w'
           \<and> (\<exists>s. dget records d = Some s \<and> \<not> shed_overflow_ceiling s \<and> shed_reason_code s \<noteq> Rate_Limit)
           \<and> \<not> throttled h (key_at keys d) (clock (n' - 1)))
    \<and> (res = None \<and> fo_may_force w \<longrightarrow>
         (\<forall>d s. d \<in> fst ` set sheds \<and> d \<in> set (fo_untried w) \<and> dget records d = Some s
            \<and> \<not> shed_overflow_ceiling s \<and> shed_reason_code s \<noteq> Rate_Limit
            \<longrightarrow> d \<in> set (fo_forced w) \<or> (\<exists>m \<ge> n. throttled h (key_at keys d) (clock m))))"
proof (cases "fo_may_force w")
  case True
  note loop = forced_target_cases(3) [OF run True]
  show ?thesis
  proof (cases res)
    case (Some d)
    from force_loop_Some [OF clock loop [unfolded Some]] Some True show ?thesis
      by (auto simp: force_skips_def split: option.splits)
  next
    case None
    have "d \<in> set (fo_forced w) \<or> (\<exists>m \<ge> n. throttled h (key_at keys d) (clock m))"
      if "d \<in> fst ` set sheds" "d \<in> set (fo_untried w)" "dget records d = Some s" "\<not> shed_overflow_ceiling s"
        "shed_reason_code s \<noteq> Rate_Limit" for d s
      using force_loop_None [OF clock loop [unfolded None] that(1)] that(2-5) by (simp add: force_skips_def)
    with None show ?thesis by blast
  qed
qed (use run in \<open>auto simp: forced_target_def\<close>)

text \<open>
  A failover walk ends. Every walk a failure starts makes at most three moves (spills, forced passes and their ends)
  per depth of the route, whatever the health and load registries answer, so no sequence of sheds keeps a failed request
  circling until its deadline.
\<close>

lemma failover_walk_ends:
  assumes "failover_begin entry failure depth = Some w" and "(failover_move ^^ k) w w'"
  shows "k \<le> 3 * length (deployments (ir_route entry))"
proof -
  obtain f d where b: "fo_ladder w = fo_untried w" "fo_forced w = []" "\<not> fo_forcing w"
    "fo_untried w = untried_depths (route_fallback_rules (ir_route entry)) (Some f) (ir_attempt_counts entry) d True"
    using failover_begin_Some [OF assms(1)] by metis
  have "length (fo_untried w) \<le> length (deployments (ir_route entry))"
    using length_untried_depths [of "route_fallback_rules (ir_route entry)"]
    by (simp add: b(4) route_fallback_rules_def)
  moreover have "forces_left w \<le> length (fo_untried w)" by (simp add: forces_left_def b(2) card_length)
  ultimately show ?thesis using failover_moves_bounded [OF assms(2)] b by (simp add: moves_left_def)
qed

definition sample_entry :: inflight_request where
  "sample_entry =
     \<lparr>ir_authorization = sample_authorization, ir_route = sample_route None, ir_session_request = True, ir_deadline = 600,
      ir_attempt_counts = [1, 0, 0], ir_ordinary_attempt_counts = [1, 0, 0], ir_attempt_policy = default_attempt_policy,
      ir_throttle_redials = [0, 0, 0], ir_throttle_redial_budgets = [0, 0, 0], ir_total_attempts = 1,
      ir_active_attempt_id = Some ''a1'', ir_attempt_depths = [(''a1'', 0)], ir_affinity_fingerprint = None,
      ir_verified_warm_deployment_id = None, ir_verified_warm_until = 0, ir_recovery_scoped = False,
      ir_sticky_preferred = False, ir_cache_recorded_attempts = [], ir_denied_destination_pools = []\<rparr>"

definition sample_dead_lane :: gateway_failure where
  "sample_dead_lane = (sample_failure TRANSPORT)\<lparr>failover_eligible := True\<rparr>"

definition sample_walk :: failover_pass where
  "sample_walk = \<lparr>fo_untried = [1, 2], fo_ladder = [1, 2], fo_may_force = True, fo_forced = [], fo_forcing = False\<rparr>"

definition sample_route_keys :: "health_key list" where
  "sample_route_keys = map (deployment_health_key ''cat'') (deployments (sample_route None))"

lemma sample_walk_begins: "failover_begin sample_entry (Some sample_dead_lane) (Some 0) = Some sample_walk"
  by code_simp

lemma sample_walk_forces:
  "\<exists>n' h'. forced_target sample_clock sample_route_keys [(1, ''queue_bound'')] [(1, plain_shed Queue_Bound)] sample_walk 0
     default_health_registry = (Some 1, sample_walk\<lparr>fo_forced := [1], fo_forcing := True\<rparr>, n', h')"
proof -
  have "(case forced_target sample_clock sample_route_keys [(1, ''queue_bound'')] [(1, plain_shed Queue_Bound)] sample_walk 0
     default_health_registry of (res, w, _, _) \<Rightarrow> res = Some 1 \<and> w = sample_walk\<lparr>fo_forced := [1], fo_forcing := True\<rparr>)"
    by code_simp
  then show ?thesis by (auto split: prod.splits)
qed

end
