(* ===== verification/Rung_Policy.thy ===== *)
theory Rung_Policy
  imports Failover_Pass
begin

text \<open>
  The policy decisions of one dispatch reservation (\<^verbatim>\<open>src/exp/runtime/gateway/native_rung_policy.py\<close>): the slot a rung
  grants, the successor of a failed dispatch, the rungs a shed keeps, the redial budgets, and what a settled attempt tells
  the load and health registries. Clock readings, the fresh ticket and the host gate's verdict are the fields of
  \<open>slot_env\<close>; parsed settlement facts are arguments.
\<close>

section \<open>Cache placement\<close>

definition keeps_cache_placement :: "gateway_route \<Rightarrow> exact_model_deployment \<Rightarrow> bool" where
  "keeps_cache_placement route d \<longleftrightarrow>
     cache_placed_deployment_id route = Some (deployment_id d)
     \<and> (case dispatch d of None \<Rightarrow> False | Some p \<Rightarrow> concurrency_bound p \<noteq> None \<and> saturation p = Refuse)"

definition shed_keeps_pin :: "gateway_route \<Rightarrow> nat \<Rightarrow> bool" where
  "shed_keeps_pin route candidate \<longleftrightarrow>
     (let d = deployments route ! candidate
      in keeps_cache_placement route d
         \<or> (reasoning_pinned_deployment_id route \<noteq> None \<and> \<not> requires_reasoning_strip route d))"

definition shed_keeps_rung ::
    "gateway_route \<Rightarrow> nat \<Rightarrow> nat option \<Rightarrow> gateway_failure option \<Rightarrow> rung_shed_reason \<Rightarrow> bool" where
  "shed_keeps_rung route candidate redial_depth last_failure reason \<longleftrightarrow>
     (redial_depth = Some candidate \<and> reason = Rate_Limit)
     \<or> (last_failure = None \<and> shed_keeps_pin route candidate)"

section \<open>Reserving a slot\<close>

record slot_env =
  se_ticket :: string
  se_sticky_now :: seconds
  se_now :: seconds
  se_reserve_now :: seconds
  se_verdict :: gate_verdict
  se_fleet_now :: seconds
  se_fleet_wall :: seconds
  se_sent :: seconds

datatype rung_slot = No_Policy | Slot_Ticket string | Slot_Shed rung_shed

definition policy_of :: "'b \<Rightarrow> (gateway_rung_dispatch_policy \<Rightarrow> 'b) \<Rightarrow> exact_model_deployment \<Rightarrow> 'b" where
  "policy_of absent f d = (case dispatch d of None \<Rightarrow> absent | Some p \<Rightarrow> f p)"

definition authored_admission :: "exact_model_deployment \<Rightarrow> bool" where
  "authored_admission d = policy_of False (\<lambda>p. concurrency_bound p \<noteq> None \<or> requests_per_minute p \<noteq> None
     \<or> tokens_per_minute p \<noteq> None \<or> fleet p \<noteq> None) d"

definition applies_default_bound :: "exact_model_deployment \<Rightarrow> bool" where
  "applies_default_bound d = policy_of True (\<lambda>p. concurrency_bound p = None) d"

definition caching_off :: "inflight_request \<Rightarrow> bool" where
  "caching_off entry \<longleftrightarrow> auth_prompt_caching_disabled (ir_authorization entry) \<and> ir_session_request entry"

definition fresh_fraction :: "inflight_request \<Rightarrow> exact_model_deployment \<Rightarrow> py_error + real option" where
  "fresh_fraction entry d =
     (case dispatch d of
        None \<Rightarrow> Inr None
      | Some p \<Rightarrow>
          rbind (index_of (snapshot_deployment_ids (snapshot (ir_route entry))) (deployment_id d)) (\<lambda>depth.
          rbind (stage_for_depth (snapshot (ir_route entry)) depth) (\<lambda>stage.
            Inr (if stage_failover_mode stage = Maximize_Cache_Affinity
                    \<and> (ir_affinity_fingerprint entry \<noteq> None \<or> caching_off entry)
                 then fresh_session_spill_fraction p else None))))"

definition warm_session ::
    "slot_env \<Rightarrow> inflight_request \<Rightarrow> exact_model_deployment \<Rightarrow> real option \<Rightarrow> sticky_registry \<Rightarrow> bool \<times> sticky_registry" where
  "warm_session env entry d fresh sticky =
     (case (fresh, ir_affinity_fingerprint entry) of
        (Some _, Some fp) \<Rightarrow>
          if keeps_cache_placement (ir_route entry) d then (\<not> caching_off entry, sticky)
          else if ir_recovery_scoped entry then
            (ir_verified_warm_deployment_id entry = Some (deployment_id d) \<and> se_now env < ir_verified_warm_until entry,
             sticky)
          else (case bound_deployment fp (se_sticky_now env) sticky of
                  (bound, sticky') \<Rightarrow> (bound = Some (deployment_id d), sticky'))
      | _ \<Rightarrow> (\<not> caching_off entry, sticky))"

definition refusing_rung :: "exact_model_deployment \<Rightarrow> bool" where
  "refusing_rung d \<longleftrightarrow> applies_default_bound d \<or> authors_refuse (dispatch d)"

definition selected_first_dial :: "inflight_request \<Rightarrow> bool" where
  "selected_first_dial entry \<longleftrightarrow> resolved_route_id (ir_route entry) \<noteq> None \<and> ir_total_attempts entry = 0"

definition slot_args ::
    "rung_registry \<Rightarrow> inflight_request \<Rightarrow> exact_model_deployment \<Rightarrow> int \<Rightarrow> bool \<Rightarrow> bool \<Rightarrow> bool \<Rightarrow> real option \<Rightarrow> bool
      \<Rightarrow> reserve_args" where
  "slot_args loads entry d reserved force rate_retry failover_pass fresh warm =
     (let auth = ir_authorization entry;
          bound = effective_bound loads d;
          refusing = refusing_rung d
      in \<lparr>ra_key = rung_load_key d, ra_organization_id = auth_organization_id auth,
          ra_weight = auth_fair_share_weight auth, ra_bound = bound, ra_fair_share = True,
          ra_requests_per_minute = policy_of None requests_per_minute d,
          ra_tokens_per_minute = policy_of None tokens_per_minute d,
          ra_cache_priority_alpha = policy_of None cache_priority_alpha d,
          ra_reserved_tokens = (if policy_of None tokens_per_minute d \<noteq> None then reserved else 0),
          ra_warm_session = warm, ra_fresh_spill_fraction = fresh, ra_force = force,
          ra_hard_bound = (refusing \<and> auth_priority_admission auth = 0 \<and> \<not> failover_pass),
          ra_overflow_ceiling =
            (if (refusing \<or> selected_first_dial entry) \<and> \<not> failover_pass
             then priority_overflow_ceiling bound (auth_priority_admission auth) (applies_default_bound d)
                    (policy_of (None, None) (\<lambda>p. (priority_overflow_paying p, priority_overflow_pro p)) d)
             else None),
          ra_rate_retry = rate_retry, ra_class_cap = class_concurrency_cap auth d, ra_fast = fast_on_rung auth d,
          ra_fast_reserve = fast_reserve_slots d, ra_fast_reserve_hard = refusing,
          ra_failover_cap = (if failover_pass then failover_overflow_cap bound else None)\<rparr>)"

text \<open>The fleet-wide limits, asked once the worker's own policy admitted.\<close>

definition fleet_shed_of :: "gateway_fleet_lane_policy \<Rightarrow> fleet_lane_shed_reason \<Rightarrow> rung_shed" where
  "fleet_shed_of p reason =
     (let refuse = (fleet_saturation p = Fleet_Refuse)
      in (plain_shed (if reason = Shed_Rate \<and> \<not> refuse then Rate_Limit else Queue_Bound))
           \<lparr>shed_overflow_ceiling := True, shed_fleet := True, shed_fleet_refuse := refuse\<rparr>)"

definition fleet_slot ::
    "slot_env \<Rightarrow> exact_model_deployment \<Rightarrow> reservation \<Rightarrow> rung_registry \<Rightarrow> rung_slot \<times> rung_registry" where
  "fleet_slot env d result loads =
     (case result of
        Shed s \<Rightarrow> (Slot_Shed s, loads)
      | Ticket t \<Rightarrow>
          (case policy_of None fleet d of
             None \<Rightarrow> (Slot_Ticket t, loads)
           | Some p \<Rightarrow>
               (case fleet_acquire t \<lparr>lane_deployment_id = deployment_id d, lane_connection = snd (rung_load_key d),
                       lane_policy = p\<rparr> (se_verdict env) (se_fleet_now env) (se_fleet_wall env) (se_sent env) loads of
                  (None, loads') \<Rightarrow> (Slot_Ticket t, loads')
                | (Some reason, loads') \<Rightarrow> (Slot_Shed (fleet_shed_of p reason), loads'))))"

definition tag_default_bound :: "exact_model_deployment \<Rightarrow> rung_slot \<Rightarrow> rung_slot" where
  "tag_default_bound d slot =
     (case slot of
        Slot_Shed s \<Rightarrow> if applies_default_bound d \<and> shed_reason_code s = Queue_Bound
          then Slot_Shed (s\<lparr>shed_default_bound := True\<rparr>) else slot
      | _ \<Rightarrow> slot)"

definition reserve_rung_slot ::
    "slot_env \<Rightarrow> inflight_request \<Rightarrow> exact_model_deployment \<Rightarrow> int \<Rightarrow> bool \<Rightarrow> bool \<Rightarrow> bool
      \<Rightarrow> rung_registry \<times> sticky_registry \<Rightarrow> py_error + rung_slot \<times> rung_registry \<times> sticky_registry" where
  "reserve_rung_slot env entry d reserved force rate_retry failover_pass s =
     (case s of (loads, sticky) \<Rightarrow>
        if \<not> authored_admission d \<and> rr_default_bound loads = None
           \<and> class_concurrency_cap (ir_authorization entry) d = None
        then Inr (No_Policy, loads, sticky)
        else rbind (fresh_fraction entry d) (\<lambda>fresh.
          case warm_session env entry d fresh sticky of (warm, sticky') \<Rightarrow>
          case reserve (se_ticket env) (se_reserve_now env)
                 (slot_args loads entry d reserved force rate_retry failover_pass fresh warm) loads of
            (result, loads1) \<Rightarrow>
              (case fleet_slot env d result loads1 of
                 (slot, loads2) \<Rightarrow> Inr (tag_default_bound d slot, loads2, sticky'))))"

definition bind_sticky_dispatch ::
    "inflight_request \<Rightarrow> exact_model_deployment \<Rightarrow> seconds \<Rightarrow> sticky_registry \<Rightarrow> sticky_registry" where
  "bind_sticky_dispatch entry d now sticky =
     (if model_stages (snapshot (ir_route entry)) \<noteq> [] then sticky
      else case ir_affinity_fingerprint entry of
             None \<Rightarrow> sticky
           | Some fp \<Rightarrow>
               if snapshot_failover_mode (snapshot (ir_route entry)) \<noteq> Maximize_Cache_Affinity then sticky
               else (case policy_of None sticky_spill_seconds d of
                       None \<Rightarrow> sticky
                     | Some ttl \<Rightarrow> sticky_bind fp (deployment_id d) (real_of_int ttl) now sticky))"

section \<open>The successor of a failed dispatch\<close>

definition failed_dispatch_args ::
    "inflight_request \<Rightarrow> gateway_failure \<Rightarrow> nat \<Rightarrow> bool \<Rightarrow> real \<Rightarrow> model_execution_stage \<Rightarrow> successor_args" where
  "failed_dispatch_args entry f depth backoff fraction stage =
     \<lparr>nr_failure = f, nr_current_depth = depth, nr_attempt_counts = ir_ordinary_attempt_counts entry,
      nr_total_attempts = ir_total_attempts entry,
      nr_refusal_failover = auth_refusal_failover (ir_authorization entry),
      nr_failover_mode = stage_failover_mode stage,
      nr_throttle_cache_threshold = stage_throttle_cache_threshold stage, nr_cached_fraction = fraction,
      nr_throttle_redial = stage_throttle_redial stage, nr_throttle_backoff = backoff,
      nr_throttle_redial_budget = ir_throttle_redial_budgets entry ! depth - ir_throttle_redials entry ! depth,
      nr_maximum_total_attempts = maximum_total_attempts (ir_attempt_policy entry),
      nr_maximum_same_deployment_attempts = maximum_same_deployment_attempts (ir_attempt_policy entry),
      nr_fallback_rules = route_fallback_rules (ir_route entry),
      nr_physical_route_cap = physical_route_cap (ir_attempt_policy entry),
      nr_physical_attempt_counts = Some (ir_attempt_counts entry)\<rparr>"

definition redial_disposition ::
    "nat option \<Rightarrow> nat \<Rightarrow> throttle_disposition_code option \<Rightarrow> bool \<Rightarrow> throttle_disposition_code option" where
  "redial_disposition candidate depth disposition scheduled_throttle =
     (if \<not> scheduled_throttle then disposition
      else if candidate = Some depth then Some THROTTLE_BACKOFF
      else if candidate \<noteq> None then Some THROTTLE_FAILOVER_COLD
      else None)"

text \<open>\<open>now\<close> is the load registry's clock; \<open>clock n\<close> the next reading of the health registry's.\<close>

definition failed_dispatch_candidate ::
    "(nat \<Rightarrow> seconds) \<Rightarrow> health_key list \<Rightarrow> rung_registry \<Rightarrow> seconds \<Rightarrow> inflight_request \<Rightarrow> gateway_failure \<Rightarrow> nat \<Rightarrow> bool
      \<Rightarrow> nat \<Rightarrow> health_registry
      \<Rightarrow> py_error + (nat option \<times> throttle_disposition_code option) \<times> nat \<times> health_registry" where
  "failed_dispatch_candidate clock keys loads now entry f depth backoff n h =
     rbind (stage_for_depth (snapshot (ir_route entry)) depth) (\<lambda>stage.
       (let fraction = cached_fraction loads (rung_load_key (deployments (ir_route entry) ! depth))
              (auth_organization_id (ir_authorization entry)) now
        in case next_route_candidate clock keys (failed_dispatch_args entry f depth backoff fraction stage) n h of
             (candidate, n', h') \<Rightarrow>
               Inr ((candidate,
                     redial_disposition candidate depth
                       (throttle_disposition f (stage_throttle_cache_threshold stage) fraction)
                       (stage_throttle_redial stage \<noteq> None \<and> failure_class f = THROTTLED)), n', h')))"

section \<open>Redial budgets\<close>

definition depth_redial_budget ::
    "rung_registry \<Rightarrow> seconds \<Rightarrow> gateway_route \<Rightarrow> string \<Rightarrow> string option \<Rightarrow> nat \<Rightarrow> py_error + int" where
  "depth_redial_budget loads now route organization_id sticky_id depth =
     rbind (stage_for_depth (snapshot route) depth) (\<lambda>stage.
       (let d = deployments route ! depth
        in Inr (case stage_throttle_redial stage of
            None \<Rightarrow> 0
          | Some schedule \<Rightarrow>
              (case stage_throttle_cache_threshold stage of
                 None \<Rightarrow> max_attempts schedule
               | Some threshold \<Rightarrow>
                   if threshold \<le> 0 \<or> depth = length (deployments route) - 1 \<or> sticky_id = Some (deployment_id d)
                      \<or> reasoning_pinned_deployment_id route = Some (deployment_id d)
                   then max_attempts schedule
                   else (let share = min 1 (cached_fraction loads (rung_load_key d) organization_id now / threshold)
                         in truncate_int (real_of_int (max_attempts schedule) * share))))))"

definition throttle_redial_budgets ::
    "rung_registry \<Rightarrow> seconds \<Rightarrow> gateway_route \<Rightarrow> string \<Rightarrow> string option \<Rightarrow> py_error + int list" where
  "throttle_redial_budgets loads now route organization_id sticky_id =
     rmap (depth_redial_budget loads now route organization_id sticky_id) [0..<length (deployments route)]"

section \<open>What a settled attempt records\<close>

text \<open>\<open>admitted\<close> is the sample gate's answer: true without a gate, false when it refused or raised.\<close>

definition record_cache_fraction ::
    "string \<Rightarrow> gateway_event \<Rightarrow> bool \<Rightarrow> seconds \<Rightarrow> inflight_request \<times> rung_registry \<Rightarrow> inflight_request \<times> rung_registry" where
  "record_cache_fraction attempt_id terminal admitted now s =
     (case s of (entry, loads) \<Rightarrow>
        case event_usage terminal of
          None \<Rightarrow> s
        | Some usage \<Rightarrow>
            (case (gu_input_tokens usage, dget (ir_attempt_depths entry) attempt_id) of
               (Some tokens, Some depth) \<Rightarrow>
                 if usage_estimated terminal \<or> \<not> admitted \<or> attempt_id \<in> set (ir_cache_recorded_attempts entry) then s
                 else (entry\<lparr>ir_cache_recorded_attempts := attempt_id # ir_cache_recorded_attempts entry\<rparr>,
                       record_settle (rung_load_key (deployments (ir_route entry) ! depth))
                         (auth_organization_id (ir_authorization entry))
                         (case gu_cached_input_tokens usage of None \<Rightarrow> 0 | Some c \<Rightarrow> c) tokens now loads)
             | _ \<Rightarrow> s))"

text \<open>Of a JSON value, what \<open>_count\<close> tells apart.\<close>

datatype json_value = J_Int int | J_Bool bool | J_Other

definition count_field :: "(string, json_value) dict \<Rightarrow> string \<Rightarrow> int option" where
  "count_field usage key =
     (case dget usage key of Some (J_Int v) \<Rightarrow> if v < 0 then None else Some v | _ \<Rightarrow> None)"

text \<open>A settlement payload: the parsed first-token time and the usage object, when it is one.\<close>

definition settled_usage :: "(seconds option \<times> (string, json_value) dict option) option \<Rightarrow> fleet_usage" where
  "settled_usage settlement =
     (case settlement of
        None \<Rightarrow> no_fleet_usage
      | Some (first, None) \<Rightarrow> no_fleet_usage\<lparr>first_token_at := first\<rparr>
      | Some (first, Some usage) \<Rightarrow>
          (let i = count_field usage ''input_tokens''; out = count_field usage ''output_tokens'';
               tot = (case (i, out) of (Some a, Some b) \<Rightarrow> Some (a + b) | _ \<Rightarrow> None);
               truthy = (tot \<noteq> None \<and> tot \<noteq> Some 0)
           in \<lparr>used_tokens = (if truthy then tot else None), fu_output_tokens = (if truthy then out else None),
               first_token_at = first\<rparr>))"

text \<open>
  \<open>retired\<close> is the answer of \<open>graceful_transport_retirement\<close> (it may raise), \<open>reset\<close> the exhausted plan window's reset,
  \<open>raises\<close> whether the fleet gate's release raised. The registries are released before the answer is read.
\<close>

record health_report =
  hr_opened :: bool
  hr_failure :: "gateway_failure option"
  hr_usage :: fleet_usage
  hr_retired :: "py_error + bool"
  hr_reset :: "int option"
  hr_release_now :: seconds
  hr_gate_raises :: bool
  hr_throttle_now :: seconds
  hr_failed_now :: seconds
  hr_exhausted_now :: seconds

definition calibrates_throttle :: "exact_model_deployment \<Rightarrow> bool" where
  "calibrates_throttle d = policy_of False (\<lambda>p. concurrency_bound p \<noteq> None \<or> requests_per_minute p \<noteq> None
     \<or> tokens_per_minute p \<noteq> None) d"

definition is_throttle :: "gateway_failure option \<Rightarrow> bool" where
  "is_throttle failure \<longleftrightarrow> (case failure of None \<Rightarrow> False | Some f \<Rightarrow> failure_class f = THROTTLED)"

definition record_outcome ::
    "health_report \<Rightarrow> exact_model_deployment \<Rightarrow> health_key \<Rightarrow> health_registry \<times> rung_registry
      \<Rightarrow> health_registry \<times> rung_registry" where
  "record_outcome r d key s =
     (case s of (h, loads) \<Rightarrow>
        let h1 = (if hr_opened r then dispatch_opened key h else h);
            loads1 = (if is_throttle (hr_failure r) \<and> calibrates_throttle d
              then record_throttle (rung_load_key d) (hr_throttle_now r) loads else loads);
            h2 = (case hr_failure r of None \<Rightarrow> succeeded key h1 | Some f \<Rightarrow> failed key f (hr_failed_now r) h1);
            h3 = (case hr_reset r of None \<Rightarrow> h2
              | Some reset \<Rightarrow> exhausted key (real_of_int reset) (hr_exhausted_now r) h2)
        in (h3, loads1))"

definition record_attempt_health ::
    "health_report \<Rightarrow> inflight_request \<Rightarrow> string \<Rightarrow> health_registry \<times> rung_registry
      \<Rightarrow> py_error option \<times> health_registry \<times> rung_registry" where
  "record_attempt_health r entry attempt_id s =
     (case s of (h, loads) \<Rightarrow>
        let loads1 = release_attempt attempt_id (is_throttle (hr_failure r)) (Some (hr_usage r)) (hr_release_now r)
              (hr_gate_raises r) loads
        in case dget (ir_attempt_depths entry) attempt_id of
             None \<Rightarrow> (None, h, loads1)
           | Some depth \<Rightarrow>
               (let d = deployments (ir_route entry) ! depth;
                    key = deployment_health_key (auth_catalog_sha256 (ir_authorization entry)) d
                in case hr_retired r of
                     Inl e \<Rightarrow> (Some e, h, loads1)
                   | Inr True \<Rightarrow> (None, release_probe key h, loads1)
                   | Inr False \<Rightarrow> (None, record_outcome r d key (h, loads1))))"

section \<open>Disclosing an ejected lane\<close>

definition LANE_EJECTED :: string where "LANE_EJECTED = ''lane_ejected''"

text \<open>The first ejected depth of the ladder before the candidate; \<open>clock\<close> is read once per depth examined.\<close>

fun first_ejected :: "health_registry \<Rightarrow> health_key list \<Rightarrow> (nat \<Rightarrow> seconds) \<Rightarrow> nat \<Rightarrow> nat list \<Rightarrow> nat \<Rightarrow> nat option" where
  "first_ejected h keys clock candidate [] n = None"
| "first_ejected h keys clock candidate (depth # ladder) n =
     (if depth \<ge> candidate then None
      else if lane_ejected h (key_at keys depth) (clock n) then Some depth
      else first_ejected h keys clock candidate ladder (Suc n))"

definition ejection_disclosure ::
    "health_registry \<Rightarrow> health_key list \<Rightarrow> gateway_route \<Rightarrow> nat list \<Rightarrow> nat \<Rightarrow> (nat \<Rightarrow> seconds) \<Rightarrow> nat
      \<Rightarrow> string option \<times> exact_model_deployment option \<Rightarrow> string option \<times> exact_model_deployment option" where
  "ejection_disclosure h keys route ladder candidate clock n disclosed =
     (if fst disclosed \<notin> {None, Some ''rung_dead''} then disclosed
      else case first_ejected h keys clock candidate ladder n of
             None \<Rightarrow> disclosed
           | Some depth \<Rightarrow> (Some LANE_EJECTED, Some (deployments route ! depth)))"

section \<open>Lemmas\<close>

lemma reserve_rung_slot_cases:
  assumes run: "reserve_rung_slot env entry d k force retry pass (loads, sticky) = Inr (slot, loads', sticky')"
  obtains (unbounded) "slot = No_Policy" "loads' = loads" "sticky' = sticky"
  | (bounded) fresh warm result loads1 slot1 where
      "fresh_fraction entry d = Inr fresh" "warm_session env entry d fresh sticky = (warm, sticky')"
      "reserve (se_ticket env) (se_reserve_now env) (slot_args loads entry d k force retry pass fresh warm) loads
        = (result, loads1)"
      "fleet_slot env d result loads1 = (slot1, loads')" "slot = tag_default_bound d slot1"
proof (cases "\<not> authored_admission d \<and> rr_default_bound loads = None
    \<and> class_concurrency_cap (ir_authorization entry) d = None")
  case True
  with run unbounded show thesis by (simp add: reserve_rung_slot_def)
next
  case False
  note body = run [unfolded reserve_rung_slot_def prod.case if_not_P [OF False] rbind_eq_Inr_iff]
  then obtain fresh where f: "fresh_fraction entry d = Inr fresh" by blast
  obtain warm s' where w: "warm_session env entry d fresh sticky = (warm, s')" by fastforce
  obtain result loads1 where r: "reserve (se_ticket env) (se_reserve_now env)
      (slot_args loads entry d k force retry pass fresh warm) loads = (result, loads1)" by fastforce
  obtain slot1 loads2 where s: "fleet_slot env d result loads1 = (slot1, loads2)" by fastforce
  show thesis using body f w r s bounded by auto
qed

lemma tag_default_bound_Ticket [simp]: "tag_default_bound d slot = Slot_Ticket t \<longleftrightarrow> slot = Slot_Ticket t"
  by (auto simp: tag_default_bound_def split: rung_slot.splits)

lemma restamp_keeps_counts:
  "inflight (restamp_window t now rr) k i = inflight rr k i"
  "rr_tickets (restamp_window t now rr) = rr_tickets rr"
  by (auto simp: restamp_window_def ticket_rung_def inflight_def put_rung_def split: option.splits prod.splits)

lemma inflight_fleet [simp]: "inflight (rr\<lparr>rr_fleet := x\<rparr>) k i = inflight rr k i"
  by (simp add: inflight_def)

lemma fleet_slot_Ticket:
  assumes "fleet_slot env d result loads = (Slot_Ticket t, loads')"
  shows "result = Ticket t" and "inflight loads' k i = inflight loads k i" and "rr_tickets loads' = rr_tickets loads"
  using assms
  by (auto simp: fleet_slot_def fleet_acquire_def restamp_keeps_counts split: reservation.splits option.splits prod.splits)

lemma slot_Ticket_reserve:
  assumes "reserve_rung_slot env entry d reserved force retry pass (loads, sticky) = Inr (Slot_Ticket t, loads', sticky')"
  obtains fresh warm loads1 where
    "reserve (se_ticket env) (se_reserve_now env) (slot_args loads entry d reserved force retry pass fresh warm) loads
      = (Ticket t, loads1)"
    "\<And>k i. inflight loads' k i = inflight loads1 k i" "rr_tickets loads' = rr_tickets loads1"
  using assms
proof (cases rule: reserve_rung_slot_cases)
  case (bounded fresh warm result loads1 slot1)
  then have "fleet_slot env d result loads1 = (Slot_Ticket t, loads')" by (metis tag_default_bound_Ticket)
  from fleet_slot_Ticket [OF this] bounded(3) that show thesis by metis
qed simp

text \<open>The in-flight count an admission starts from.\<close>

lemma admitted_total:
  assumes inv: "registry_inv rr" and adm: "reserve t now a rr = (Ticket u, rr')"
  obtains r where "decide (rr_activity_window rr) now a (stamped now a rr) = (None, r)"
    "inflight rr (ra_key a) None = rl_total (stamped now a rr)"
    "inflight rr' (ra_key a) None = rl_total (stamped now a rr) + 1"
proof -
  obtain r where d: "decide (rr_activity_window rr) now a (stamped now a rr) = (None, r)"
    and tr: "tracks (rung_of rr (ra_key a)) r" and r': "rung_of rr' (ra_key a) = admit_rung now a r"
    using reserve_Ticket [OF inv adm] by metis
  have "rl_total (stamped now a rr) = rl_total (rung_of rr (ra_key a))" "rl_total r = rl_total (rung_of rr (ra_key a))"
    using tracks_stamped_rung [OF inv] tr by (simp_all add: tracks_def same_counts_def)
  with d r' that show thesis by (simp add: inflight_rung admit_rung_def Let_def)
qed

lemma decide_None_hard:
  assumes "decide w now a r = (None, r')"
    and "ra_hard_bound a" "\<not> ra_fast a" "ra_fast_reserve a = None" "ra_bound a = Some b"
  shows "rl_total r < b"
proof -
  have "hard_shed r (fast_adjusted a) = None" using assms(1) by (auto simp: decide_def Let_def split: option.splits)
  with assms(2-5) show ?thesis
    by (auto simp: hard_shed_def fast_adjusted_def judged_bound_def judged_occupied_def judged_in_share_def split: if_splits)
qed

lemma slot_args_fields [simp]:
  "ra_bound (slot_args loads entry d k force retry pass fresh warm) = effective_bound loads d"
  "ra_fast_reserve (slot_args loads entry d k force retry pass fresh warm) = fast_reserve_slots d"
  "ra_fast (slot_args loads entry d k force retry pass fresh warm) = fast_on_rung (ir_authorization entry) d"
  "ra_force (slot_args loads entry d k force retry pass fresh warm) = force"
  "ra_key (slot_args loads entry d k force retry pass fresh warm) = rung_load_key d"
  "ra_organization_id (slot_args loads entry d k force retry pass fresh warm)
     = auth_organization_id (ir_authorization entry)"
  "ra_class_cap (slot_args loads entry d k force retry pass fresh warm)
     = class_concurrency_cap (ir_authorization entry) d"
  by (simp_all add: slot_args_def Let_def)

lemma default_rung_args:
  assumes "applies_default_bound d" and "rr_default_bound loads = Some b"
  shows "effective_bound loads d = Some b" and "fast_reserve_slots d = None"
    and "ra_hard_bound (slot_args loads entry d k force retry False fresh warm)
           = (auth_priority_admission (ir_authorization entry) = 0)"
    and "ra_overflow_ceiling (slot_args loads entry d k force retry False fresh warm) = priority_overflow_ceiling (Some b)
           (auth_priority_admission (ir_authorization entry)) True
           (policy_of (None, None) (\<lambda>p. (priority_overflow_paying p, priority_overflow_pro p)) d)"
  using assms by (auto simp: slot_args_def Let_def effective_bound_def applies_default_bound_def policy_of_def
      refusing_rung_def fast_reserve_slots_def split: option.splits)

lemma priority_ceiling_exists:
  "0 \<le> level \<Longrightarrow> level \<noteq> 0 \<Longrightarrow> \<exists>c. priority_overflow_ceiling (Some b) level True authored = Some c"
  by (simp add: priority_overflow_ceiling_def)

text \<open>The share of the worker one unauthored lane may hold, for a dispatch that is neither \<open>:fast\<close> nor a failover pass.\<close>

lemma default_bound_admission:
  assumes inv: "registry_inv loads" and def: "applies_default_bound d" "rr_default_bound loads = Some b" "1 \<le> b"
    and level: "0 \<le> auth_priority_admission (ir_authorization entry) \<and> auth_priority_admission (ir_authorization entry) \<le> 2"
    and slow: "\<not> fast_on_rung (ir_authorization entry) d"
    and slot: "reserve_rung_slot env entry d k force retry False (loads, sticky) = Inr (Slot_Ticket t, loads', sticky')"
  shows "inflight loads' (rung_load_key d) None = inflight loads (rung_load_key d) None + 1"
    and "\<not> force \<or> auth_priority_admission (ir_authorization entry) = 0 \<Longrightarrow> inflight loads' (rung_load_key d) None \<le> b"
    and "real_of_int (inflight loads' (rung_load_key d) None) \<le> real_of_int b * (3 / 2)"
proof -
  obtain fresh warm loads1 where
    r: "reserve (se_ticket env) (se_reserve_now env) (slot_args loads entry d k force retry False fresh warm) loads
      = (Ticket t, loads1)" and same: "\<And>k i. inflight loads' k i = inflight loads1 k i"
    using slot_Ticket_reserve [OF slot] by metis
  let ?a = "slot_args loads entry d k force retry False fresh warm"
  let ?s = "stamped (se_reserve_now env) ?a loads"
  obtain r' where d: "decide (rr_activity_window loads) (se_reserve_now env) ?a ?s = (None, r')"
    and tot: "inflight loads (rung_load_key d) None = rl_total ?s" "inflight loads1 (rung_load_key d) None = rl_total ?s + 1"
    using admitted_total [OF inv r] by auto
  note args = default_rung_args [OF def(1,2)]
  show "inflight loads' (rung_load_key d) None = inflight loads (rung_load_key d) None + 1" using same tot by simp
  show bound: "inflight loads' (rung_load_key d) None \<le> b"
    if "\<not> force \<or> auth_priority_admission (ir_authorization entry) = 0"
    using that decide_None_limits(1) [OF d] decide_None_hard [OF d] args slow same tot by auto
  show "real_of_int (inflight loads' (rung_load_key d) None) \<le> real_of_int b * (3 / 2)"
  proof (cases "\<not> force \<or> auth_priority_admission (ir_authorization entry) = 0")
    case True
    from bound [OF this] def(3) have "real_of_int (inflight loads' (rung_load_key d) None) \<le> real_of_int b" by simp
    then show ?thesis using def(3) by simp
  next
    case False
    then obtain c where c: "ra_overflow_ceiling ?a = Some c" using args(4) priority_ceiling_exists level by metis
    then have "c \<le> real_of_int b * (3 / 2)" using default_ceiling_le [OF level c [unfolded args(4)]] def(3) by simp
    moreover have "real_of_int (rl_total ?s + 1) \<le> c" using decide_None_limits(5) [OF d _ _ c] False slow by simp
    ultimately show ?thesis using same tot by simp
  qed
qed

section \<open>Properties\<close>


definition sample_env :: "string \<Rightarrow> seconds \<Rightarrow> slot_env" where
  "sample_env t now = \<lparr>se_ticket = t, se_sticky_now = now, se_now = now, se_reserve_now = now, se_verdict = Gate_Raised,
     se_fleet_now = now, se_fleet_wall = now, se_sent = now\<rparr>"

definition sample_pro_entry :: inflight_request where
  "sample_pro_entry = sample_entry\<lparr>ir_authorization := sample_authorization\<lparr>auth_priority_admission := 2\<rparr>\<rparr>"

text \<open>A worker of four permits: its default lane bound is two.\<close>

definition four_permit_loads :: rung_registry where
  "four_permit_loads = default_rung_registry\<lparr>rr_default_bound := Some 2\<rparr>"

definition take_slot :: "string \<Rightarrow> bool \<Rightarrow> bool \<Rightarrow> rung_registry \<Rightarrow> rung_registry" where
  "take_slot t force pass loads =
     (case reserve_rung_slot (sample_env t 1) sample_pro_entry (sample_rung ''d0'' None) 0 force False pass
             (loads, default_sticky_registry) of
        Inr (slot, loads', sticky') \<Rightarrow> loads' | Inl e \<Rightarrow> loads)"



section \<open>Redial budgets\<close>

lemma rmap_Inr:
  "rmap f xs = Inr ys \<Longrightarrow> length ys = length xs \<and> (\<forall>i < length xs. f (xs ! i) = Inr (ys ! i))"
proof (induction xs arbitrary: ys)
  case (Cons x xs)
  then obtain y zs where "ys = y # zs" "f x = Inr y" "rmap f xs = Inr zs" by (auto simp: rbind_eq_Inr_iff)
  with Cons.IH [of zs] show ?case by (auto simp: nth_Cons split: nat.split)
qed simp

lemma truncate_share:
  assumes "0 \<le> (m::int)" and "0 \<le> s" and "s \<le> 1"
  shows "0 \<le> truncate_int (real_of_int m * s) \<and> truncate_int (real_of_int m * s) \<le> m"
    and "s = 1 \<Longrightarrow> truncate_int (real_of_int m * s) = m" and "s = 0 \<Longrightarrow> truncate_int (real_of_int m * s) = 0"
proof -
  have "real_of_int m * s \<le> real_of_int m * 1" using assms by (intro mult_left_mono) auto
  moreover have "0 \<le> real_of_int m * s" using assms by simp
  ultimately show "0 \<le> truncate_int (real_of_int m * s) \<and> truncate_int (real_of_int m * s) \<le> m"
    by (auto simp: truncate_int_def floor_le_iff)
qed (use assms in \<open>auto simp: truncate_int_def\<close>)

text \<open>
  A request waits where waiting pays. Over a registry with fractional cache evidence, the redial budget of every depth
  lies between zero and its stage's scheduled attempts; it is zero without a schedule, the full schedule on the last
  depth, on the conversation's sticky rung, on a pinned rung and once the observed cached fraction reaches the threshold,
  and zero where another rung remains and no cached token was observed.
\<close>

lemma redial_budgets_follow_the_cache:
  assumes ev: "evidence_ok loads"
    and run: "throttle_redial_budgets loads now route organization_id sticky_id = Inr budgets"
    and depth: "i < length (deployments route)" and stage: "stage_for_depth (snapshot route) i = Inr stage"
    and sched: "\<forall>schedule. stage_throttle_redial stage = Some schedule \<longrightarrow> 0 \<le> max_attempts schedule"
  defines "d \<equiv> deployments route ! i"
  defines "fraction \<equiv> cached_fraction loads (rung_load_key d) organization_id now"
  shows "length budgets = length (deployments route)
    \<and> (case stage_throttle_redial stage of
         None \<Rightarrow> budgets ! i = 0
       | Some schedule \<Rightarrow>
           0 \<le> budgets ! i \<and> budgets ! i \<le> max_attempts schedule
           \<and> (i = length (deployments route) - 1 \<or> sticky_id = Some (deployment_id d)
                \<or> reasoning_pinned_deployment_id route = Some (deployment_id d)
                \<or> (case stage_throttle_cache_threshold stage of None \<Rightarrow> True | Some t \<Rightarrow> t \<le> fraction)
                \<longrightarrow> budgets ! i = max_attempts schedule)
           \<and> (i \<noteq> length (deployments route) - 1 \<and> sticky_id \<noteq> Some (deployment_id d)
                \<and> reasoning_pinned_deployment_id route \<noteq> Some (deployment_id d) \<and> fraction = 0
                \<and> (\<exists>t > 0. stage_throttle_cache_threshold stage = Some t)
                \<longrightarrow> budgets ! i = 0))"
proof -
  have r: "length budgets = length (deployments route)"
    "depth_redial_budget loads now route organization_id sticky_id i = Inr (budgets ! i)"
    using rmap_Inr [OF run [unfolded throttle_redial_budgets_def]] depth by auto
  have f: "0 \<le> fraction" "fraction \<le> 1" using cached_fraction_range(1) [OF ev] by (auto simp: fraction_def)
  show ?thesis
  proof (cases "stage_throttle_redial stage")
    case None
    then show ?thesis using r stage by (simp add: depth_redial_budget_def Let_def)
  next
    case (Some schedule)
    show ?thesis
    proof (cases "stage_throttle_cache_threshold stage")
      case None
      then show ?thesis using r stage Some sched by (simp add: depth_redial_budget_def Let_def)
    next
      case (Some t)
      have share: "0 \<le> min 1 (fraction / t)" "min 1 (fraction / t) \<le> 1" "t \<le> fraction \<Longrightarrow> min 1 (fraction / t) = 1"
        if "\<not> t \<le> 0" using that f by (auto simp: min_def le_divide_eq)
      show ?thesis
        using r stage \<open>stage_throttle_redial stage = Some schedule\<close> Some sched share
          truncate_share [of "max_attempts schedule" "min 1 (fraction / t)"]
        by (auto simp: depth_redial_budget_def Let_def d_def fraction_def split: if_splits)
    qed
  qed
qed

definition sample_redial_route :: gateway_route where
  "sample_redial_route = (sample_route None)\<lparr>snapshot := sample_snapshot\<lparr>model_stages := [],
     snapshot_throttle_cache_threshold := Some (1 / 2),
     snapshot_throttle_redial := Some \<lparr>max_attempts = 3, base_delay_ms = 100, max_delay_ms = 400\<rparr>\<rparr>\<rparr>"

end
