(* ===== verification/Dispatch_Worker.thy ===== *)
theory Dispatch_Worker
  imports Rung_Policy
begin

text \<open>
  One worker's registries together, as \<open>NativeAttemptAccounting\<close> holds them
  (\<^verbatim>\<open>src/exp/runtime/gateway/native_accounting.py\<close>): the deployment circuits, the rung loads and the sticky bindings, and
  the operations a dispatch and its settlement make on them. Each operation holds one registry's lock at a time, so
  concurrent requests are a sequence of such operations.
\<close>

section \<open>Operations\<close>

record worker =
  wk_health :: health_registry
  wk_loads :: rung_registry
  wk_sticky :: sticky_registry

text \<open>The constructor: empty registries, the load registry with the worker's default lane bound.\<close>

definition new_worker :: "int option \<Rightarrow> py_error + worker" where
  "new_worker default_bound =
     rbind (new_rung_registry ACTIVITY_WINDOW_SECONDS default_bound) (\<lambda>loads.
       Inr \<lparr>wk_health = default_health_registry, wk_loads = loads, wk_sticky = default_sticky_registry\<rparr>)"

datatype worker_op =
    W_Claim "nat \<Rightarrow> seconds" "health_key list" nat "nat list option" nat
  | W_Redial health_key seconds
  | W_Release_Probe health_key
  | W_Reserve slot_env inflight_request exact_model_deployment int bool bool bool
  | W_Bind string string
  | W_Release_Ticket string seconds bool
  | W_Stick inflight_request exact_model_deployment seconds
  | W_Unstick fingerprint
  | W_Record health_report inflight_request string
  | W_Cache string gateway_event bool seconds inflight_request

text \<open>A ticket is a fresh \<open>uuid4\<close>: a reservation under an outstanding one is no step.\<close>

fun worker_step :: "worker_op \<Rightarrow> worker \<Rightarrow> worker" where
  "worker_step (W_Claim clock keys start depths n) w =
     w\<lparr>wk_health := snd (snd (claim_route_from clock keys start depths n (wk_health w)))\<rparr>"
| "worker_step (W_Redial key now) w = w\<lparr>wk_health := snd (claim_throttle_redial key now (wk_health w))\<rparr>"
| "worker_step (W_Release_Probe key) w = w\<lparr>wk_health := release_probe key (wk_health w)\<rparr>"
| "worker_step (W_Reserve env entry d k force retry pass) w =
     (if dget (rr_tickets (wk_loads w)) (se_ticket env) \<noteq> None then w
      else case reserve_rung_slot env entry d k force retry pass (wk_loads w, wk_sticky w) of
             Inl e \<Rightarrow> w
           | Inr (slot, loads, sticky) \<Rightarrow> w\<lparr>wk_loads := loads, wk_sticky := sticky\<rparr>)"
| "worker_step (W_Bind t a) w = w\<lparr>wk_loads := bind t a (wk_loads w)\<rparr>"
| "worker_step (W_Release_Ticket t now raises) w = w\<lparr>wk_loads := release_ticket t now raises (wk_loads w)\<rparr>"
| "worker_step (W_Stick entry d now) w = w\<lparr>wk_sticky := bind_sticky_dispatch entry d now (wk_sticky w)\<rparr>"
| "worker_step (W_Unstick fp) w = w\<lparr>wk_sticky := sticky_clear fp (wk_sticky w)\<rparr>"
| "worker_step (W_Record r entry a) w =
     (case record_attempt_health r entry a (wk_health w, wk_loads w) of
        (e, h, loads) \<Rightarrow> w\<lparr>wk_health := h, wk_loads := loads\<rparr>)"
| "worker_step (W_Cache a terminal admitted now entry) w =
     w\<lparr>wk_loads := snd (record_cache_fraction a terminal admitted now (entry, wk_loads w))\<rparr>"

section \<open>Invariant\<close>

definition worker_inv :: "worker \<Rightarrow> bool" where
  "worker_inv w \<longleftrightarrow> health_inv (wk_health w) \<and> registry_inv (wk_loads w) \<and> evidence_ok (wk_loads w)
     \<and> sticky_inv (wk_sticky w)"

lemma claim_pass_inv:
  assumes "\<And>k t h. I h \<Longrightarrow> I (snd (f k t h))" and "I h"
  shows "I (snd (snd (claim_pass f clock key cs n h)))"
  using assms(2)
proof (induction cs arbitrary: n h)
  case (Cons i cs)
  obtain b h' where c: "f (key i) (clock n) h = (b, h')" by fastforce
  then show ?case using Cons.IH [of h' "Suc n"] assms(1) [OF Cons.prems, of "key i" "clock n"] by (cases b) auto
qed simp

lemma health_inv_ops:
  assumes "health_inv h"
  shows "health_inv (snd (claim k t h))" and "health_inv (snd (claim_last_resort k t h))"
    and "health_inv (snd (claim_forced k t h))" and "health_inv (snd (claim_throttle_redial k t h))"
    and "health_inv (dispatch_opened k h)" and "health_inv (succeeded k h)" and "health_inv (failed k f t h)"
    and "health_inv (exhausted k s t h)" and "health_inv (release_probe k h)"
  using health_step_inv [OF assms, of "Claim k t"] health_step_inv [OF assms, of "Claim_Last_Resort k t"]
    health_step_inv [OF assms, of "Claim_Forced k t"] health_step_inv [OF assms, of "Claim_Throttle_Redial k t"]
    health_step_inv [OF assms, of "Dispatch_Opened k"] health_step_inv [OF assms, of "Succeeded k"]
    health_step_inv [OF assms, of "Failed k f t"] health_step_inv [OF assms, of "Exhausted k s t"]
    health_step_inv [OF assms, of "Release_Probe k"] by simp_all

lemma claim_route_inv: "health_inv h \<Longrightarrow> health_inv (snd (snd (claim_route_from clock keys start depths n h)))"
proof -
  assume inv: "health_inv h"
  let ?cs = "order h keys (claim_candidates keys start depths) (clock n)"
  obtain r1 n1 h1 where p1: "claim_pass claim clock (key_at keys) ?cs (Suc n) h = (r1, n1, h1)" by (metis prod_cases3)
  obtain r2 n2 h2 where p2: "claim_pass claim_last_resort clock (key_at keys) ?cs n1 h1 = (r2, n2, h2)" by (metis prod_cases3)
  have i1: "health_inv h1" using claim_pass_inv [of health_inv claim, OF health_inv_ops(1) inv] p1 by (metis snd_conv)
  have i2: "health_inv h2" using claim_pass_inv [of health_inv claim_last_resort, OF health_inv_ops(2) i1] p2
    by (metis snd_conv)
  have "health_inv (snd (snd (claim_pass claim_forced clock (key_at keys) ?cs n2 h2)))"
    using claim_pass_inv [of health_inv claim_forced, OF health_inv_ops(3) i2] .
  with p1 p2 i1 i2 show ?thesis by (auto simp: claim_route_from_def Let_def split: option.split)
qed

lemma fleet_slot_inv:
  assumes "registry_inv loads" and "evidence_ok loads"
  shows "registry_inv (snd (fleet_slot env d result loads)) \<and> evidence_ok (snd (fleet_slot env d result loads))"
proof (cases result)
  case (Ticket t)
  show ?thesis
  proof (cases "policy_of None fleet d")
    case (Some p)
    let ?lane = "\<lparr>lane_deployment_id = deployment_id d, lane_connection = snd (rung_load_key d), lane_policy = p\<rparr>"
    let ?op = "Fleet_Acquire t ?lane (se_verdict env) (se_fleet_now env) (se_fleet_wall env) (se_sent env)"
    have "snd (fleet_slot env d result loads) = rung_step ?op loads"
      by (simp add: fleet_slot_def Ticket Some split: prod.splits option.splits)
    then show ?thesis using registry_inv_step [OF assms(1), of ?op] evidence_step [OF assms(2), of ?op] by simp
  qed (use assms Ticket in \<open>simp add: fleet_slot_def\<close>)
qed (use assms in \<open>simp add: fleet_slot_def\<close>)

lemma warm_session_inv: "sticky_inv sticky \<Longrightarrow> sticky_inv (snd (warm_session env entry d fresh sticky))"
  using sticky_inv_step [of sticky "Sticky_Read (the (ir_affinity_fingerprint entry)) (se_sticky_now env)"]
  by (auto simp: warm_session_def split: option.splits prod.splits)

lemma reserve_slot_inv:
  assumes "registry_inv loads" "evidence_ok loads" "sticky_inv sticky"
    and fresh: "dget (rr_tickets loads) (se_ticket env) = None"
    and run: "reserve_rung_slot env entry d k force retry pass (loads, sticky) = Inr (slot, loads', sticky')"
  shows "registry_inv loads' \<and> evidence_ok loads' \<and> sticky_inv sticky'"
  using run
proof (cases rule: reserve_rung_slot_cases)
  case (bounded fr warm result loads1 slot1)
  let ?op = "Reserve (se_ticket env) (se_reserve_now env) (slot_args loads entry d k force retry pass fr warm)"
  have "rung_step ?op loads = loads1" using bounded(3) fresh by simp
  then have "registry_inv loads1" "evidence_ok loads1"
    using registry_inv_step [OF assms(1), of ?op] evidence_step [OF assms(2), of ?op] by simp_all
  then show ?thesis
    using fleet_slot_inv [of loads1 env d result] warm_session_inv [OF assms(3), of env entry d fr] bounded by simp
qed (use assms in simp)

lemma release_attempt_inv:
  assumes "registry_inv loads" and "evidence_ok loads"
  shows "registry_inv (release_attempt a th u now raises loads)" and "evidence_ok (release_attempt a th u now raises loads)"
  using registry_inv_step [OF assms(1), of "Release_Attempt a th u now raises"]
    evidence_step [OF assms(2), of "Release_Attempt a th u now raises"] by simp_all

lemma record_throttle_inv:
  assumes "registry_inv loads" and "evidence_ok loads"
  shows "registry_inv (record_throttle k now loads)" and "evidence_ok (record_throttle k now loads)"
  using registry_inv_step [OF assms(1), of "Record_Throttle k now"] evidence_step [OF assms(2), of "Record_Throttle k now"]
  by simp_all

lemma record_outcome_inv:
  assumes "health_inv h" "registry_inv loads" "evidence_ok loads" and "record_outcome r d key (h, loads) = (h', loads')"
  shows "health_inv h'" and "registry_inv loads' \<and> evidence_ok loads'"
    and "rr_tickets loads' = rr_tickets loads" and "rr_attempts loads' = rr_attempts loads"
proof -
  let ?h1 = "if hr_opened r then dispatch_opened key h else h"
  have h1: "health_inv ?h1" using health_inv_ops(5) [OF assms(1)] assms(1) by simp
  let ?h2 = "case hr_failure r of None \<Rightarrow> succeeded key ?h1 | Some f \<Rightarrow> failed key f (hr_failed_now r) ?h1"
  have h2: "health_inv ?h2" by (cases "hr_failure r") (simp_all only: option.case health_inv_ops(6,7) [OF h1])
  have "h' = (case hr_reset r of None \<Rightarrow> ?h2 | Some reset \<Rightarrow> exhausted key (real_of_int reset) (hr_exhausted_now r) ?h2)"
    using assms(4) by (simp add: record_outcome_def Let_def)
  then show "health_inv h'" by (cases "hr_reset r") (simp_all only: option.case h2 health_inv_ops(8) [OF h2])
  have l: "loads' = loads \<or> loads' = record_throttle (rung_load_key d) (hr_throttle_now r) loads"
    using assms(4) by (simp add: record_outcome_def Let_def split: if_splits)
  then show "registry_inv loads' \<and> evidence_ok loads'"
    using record_throttle_inv [OF assms(2,3), of "rung_load_key d" "hr_throttle_now r"] assms(2,3) by metis
  show "rr_tickets loads' = rr_tickets loads" "rr_attempts loads' = rr_attempts loads"
    using l by (auto simp: record_throttle_def Let_def)
qed

lemma record_attempt_health_cases:
  assumes "record_attempt_health r entry a (h, loads) = (e, h', loads')"
  defines "loads1 \<equiv> release_attempt a (is_throttle (hr_failure r)) (Some (hr_usage r)) (hr_release_now r)
      (hr_gate_raises r) loads"
  obtains (kept) "loads' = loads1" "h' = h"
  | (probe) k where "loads' = loads1" "h' = release_probe k h"
  | (reported) d key where "record_outcome r d key (h, loads1) = (h', loads')"
proof (cases "dget (ir_attempt_depths entry) a")
  case None
  then show thesis using assms kept by (simp add: record_attempt_health_def Let_def)
next
  case (Some depth)
  note body = assms(1) [unfolded record_attempt_health_def prod.case Let_def Some option.case, folded loads1_def]
  show thesis
  proof (cases "hr_retired r")
    case (Inl e')
    then show thesis using body kept by simp
  next
    case (Inr b)
    let ?d = "deployments (ir_route entry) ! depth"
    let ?k = "deployment_health_key (auth_catalog_sha256 (ir_authorization entry)) ?d"
    show thesis
    proof (cases b)
      case True
      then show thesis using body Inr by (intro probe [of ?k]) simp_all
    next
      case False
      then show thesis using body Inr by (intro reported [of ?d ?k]) simp_all
    qed
  qed
qed

lemma record_attempt_health_inv:
  assumes "health_inv h" "registry_inv loads" "evidence_ok loads"
    and run: "record_attempt_health r entry a (h, loads) = (e, h', loads')"
  shows "health_inv h' \<and> registry_inv loads' \<and> evidence_ok loads'"
  using run
proof (cases rule: record_attempt_health_cases)
  case kept
  then show ?thesis using release_attempt_inv [OF assms(2,3)] assms(1) by simp
next
  case (probe k)
  then show ?thesis using release_attempt_inv [OF assms(2,3)] health_inv_ops(9) [OF assms(1)] by simp
next
  case (reported d key)
  then show ?thesis using record_outcome_inv [OF assms(1) release_attempt_inv [OF assms(2,3)]] by blast
qed

lemma record_cache_inv:
  assumes "registry_inv loads" "evidence_ok loads"
  shows "registry_inv (snd (record_cache_fraction a terminal adm now (entry, loads)))
    \<and> evidence_ok (snd (record_cache_fraction a terminal adm now (entry, loads)))"
  using registry_inv_step [OF assms(1), of "Record_Settle k i c n now" for k i c n]
    evidence_step [OF assms(2), of "Record_Settle k i c n now" for k i c n] assms
  by (auto simp: record_cache_fraction_def split: option.splits prod.splits)

lemma bind_sticky_inv: "sticky_inv s \<Longrightarrow> sticky_inv (bind_sticky_dispatch entry d now s)"
  by (auto simp: bind_sticky_dispatch_def sticky_inv_bind split: option.split)

lemma worker_inv_step:
  assumes "worker_inv w"
  shows "worker_inv (worker_step op w)"
proof (cases op)
  case (W_Claim clock keys start depths n)
  then show ?thesis using assms claim_route_inv by (simp add: worker_inv_def)
next
  case (W_Reserve env entry d k force retry pass)
  show ?thesis
  proof (cases "dget (rr_tickets (wk_loads w)) (se_ticket env) = None")
    case True
    show ?thesis
    proof (cases "reserve_rung_slot env entry d k force retry pass (wk_loads w, wk_sticky w)")
      case (Inr s)
      obtain slot loads sticky where s: "s = (slot, loads, sticky)" by (metis prod_cases3)
      show ?thesis using assms reserve_slot_inv [OF _ _ _ True Inr [unfolded s]]
        by (simp add: W_Reserve True Inr s worker_inv_def)
    qed (use assms in \<open>simp add: W_Reserve True\<close>)
  qed (use assms in \<open>simp add: W_Reserve\<close>)
next
  case (W_Record r entry a)
  obtain e h loads where rec: "record_attempt_health r entry a (wk_health w, wk_loads w) = (e, h, loads)" by (metis prod_cases3)
  show ?thesis using assms record_attempt_health_inv [OF _ _ _ rec] by (simp add: W_Record rec worker_inv_def)
next
  case (W_Bind t a)
  then show ?thesis using assms registry_inv_step [of "wk_loads w" "Bind t a"] evidence_step [of "wk_loads w" "Bind t a"]
    by (simp add: worker_inv_def)
next
  case (W_Release_Ticket t now raises)
  then show ?thesis using assms registry_inv_step [of "wk_loads w" "Release_Ticket t now raises"]
      evidence_step [of "wk_loads w" "Release_Ticket t now raises"] by (simp add: worker_inv_def)
next
  case (W_Unstick fp)
  then show ?thesis using assms sticky_inv_step [of "wk_sticky w" "Sticky_Clear fp"] by (simp add: worker_inv_def)
next
  case (W_Cache a terminal admitted now entry)
  then show ?thesis using assms record_cache_inv by (simp add: worker_inv_def)
qed (use assms in \<open>simp_all add: worker_inv_def health_inv_ops bind_sticky_inv\<close>)

lemma worker_component:
  assumes "new_worker b = Inr start"
  shows "component worker_step (\<lambda>_. True) start worker_inv"
proof unfold_locales
  obtain loads where l: "new_rung_registry ACTIVITY_WINDOW_SECONDS b = Inr loads"
    "start = \<lparr>wk_health = default_health_registry, wk_loads = loads, wk_sticky = default_sticky_registry\<rparr>"
    using assms by (auto simp: new_worker_def rbind_eq_Inr_iff)
  show "worker_inv start"
    using l default_health.inv_start sticky.inv_start new_registry_inv [OF l(1)]
      component.inv_start [OF evidence_component(1) [OF l(1)]] by (simp add: worker_inv_def)
qed (rule worker_inv_step)

definition default_worker :: worker where
  "default_worker = \<lparr>wk_health = default_health_registry, wk_loads = default_rung_registry,
     wk_sticky = default_sticky_registry\<rparr>"

lemma default_worker: "new_worker None = Inr default_worker"
  by (simp add: new_worker_def default_rung_registry default_worker_def)

interpretation dispatch_worker: component worker_step "\<lambda>_. True" default_worker worker_inv
  by (rule worker_component [OF default_worker])

section \<open>The life of a slot\<close>

lemma inflight_by_tickets:
  assumes "registry_inv rr" and "registry_inv rr'" and "rr_tickets rr' = rr_tickets rr"
  shows "inflight rr' k None = inflight rr k None" and "inflight rr' k (Some i) = inflight rr k (Some i)"
  using inv_counts [OF assms(1), of k] inv_counts [OF assms(2), of k]
  unfolding rung_counts_def inflight_rung assms(3) by simp_all

lemma release_locked_tickets: "rr_tickets (release_locked t rr) = dpop t (rr_tickets rr)"
  by (simp add: release_locked_def Let_def split: option.splits prod.splits)

lemma bound_release_tickets:
  assumes "dget (rr_tickets loads) t = Some x"
  shows "rr_tickets (release_attempt a th u now raises (bind t a loads)) = dpop t (rr_tickets loads)"
  using assms by (simp add: release_attempt_def bind_def with_fleet_def release_locked_tickets)

lemma dpop_dset_fresh: "dget d k = None \<Longrightarrow> dpop k (dset k v d) = d"
  by (simp add: dset_fresh dpop_eq_filter) (auto simp: dget_def map_of_eq_None_iff filter_id_conv)

lemma slot_ticket_recorded:
  assumes "registry_inv loads"
    and "reserve_rung_slot env entry d k force retry pass (loads, sticky) = Inr (Slot_Ticket t, loads', sticky')"
  shows "t = se_ticket env" and "\<exists>x. rr_tickets loads' = dset t x (rr_tickets loads)"
proof -
  obtain fresh warm loads1 where
    r: "reserve (se_ticket env) (se_reserve_now env) (slot_args loads entry d k force retry pass fresh warm) loads
      = (Ticket t, loads1)" and same: "rr_tickets loads' = rr_tickets loads1"
    using slot_Ticket_reserve [OF assms(2)] by metis
  from reserve_Ticket [OF assms(1) r] same show "t = se_ticket env" "\<exists>x. rr_tickets loads' = dset t x (rr_tickets loads)"
    by metis+
qed

lemma release_attempt_unbound:
  "dget (rr_attempts (release_attempt a th u now raises loads)) a = None"
  "dget (rr_attempts loads) a = None \<Longrightarrow> rr_tickets (release_attempt a th u now raises loads) = rr_tickets loads"
  by (auto simp: release_attempt_def with_fleet_def release_locked_def Let_def split: option.splits prod.splits)

lemma record_attempt_health_tickets:
  assumes "health_inv h" "registry_inv loads" "evidence_ok loads"
    and run: "record_attempt_health r entry a (h, loads) = (e, h', loads')"
  shows "rr_tickets loads' = rr_tickets (release_attempt a (is_throttle (hr_failure r)) (Some (hr_usage r))
      (hr_release_now r) (hr_gate_raises r) loads)"
    and "dget (rr_attempts loads') a = None"
proof -
  let ?l = "release_attempt a (is_throttle (hr_failure r)) (Some (hr_usage r)) (hr_release_now r) (hr_gate_raises r) loads"
  have "rr_tickets loads' = rr_tickets ?l \<and> rr_attempts loads' = rr_attempts ?l"
    using run
  proof (cases rule: record_attempt_health_cases)
    case (reported d key)
    then show ?thesis using record_outcome_inv(3,4) [OF assms(1) release_attempt_inv [OF assms(2,3)]] by blast
  qed simp_all
  then show "rr_tickets loads' = rr_tickets ?l" "dget (rr_attempts loads') a = None"
    using release_attempt_unbound(1) by metis+
qed

text \<open>
  C19. The worker's books balance. From a new worker, after any sequence of claims, redials, reservations with their fleet
  checks, bindings, releases, sticky bindings, settlements and cache samples, of any number of requests: every rung's
  in-flight count is the number of its outstanding tickets, every cached fraction lies between zero and one, the sticky
  bindings stay within their capacity, and every circuit counts its failures from zero and probes only when tripped.
\<close>

theorem worker_books_balance:
  assumes "new_worker b = Inr start" and "reachable worker_step (\<lambda>_. True) start w"
  shows "inflight (wk_loads w) k None = int (length (outstanding (wk_loads w) k))
    \<and> 0 \<le> cached_fraction (wk_loads w) k i now \<and> cached_fraction (wk_loads w) k i now \<le> 1
    \<and> sticky_size (wk_sticky w) \<le> sk_maximum (wk_sticky w)
    \<and> circuit_ok (failure_threshold (wk_health w)) (health_of (wk_health w) key)"
proof -
  have inv: "worker_inv w" by (rule component.reachable_inv [OF worker_component [OF assms(1)] assms(2)])
  then have "rung_counts (wk_loads w) k (rung_of (wk_loads w) k)" by (intro inv_counts) (simp add: worker_inv_def)
  then have "inflight (wk_loads w) k None = int (length (outstanding (wk_loads w) k))"
    by (simp add: rung_counts_def inflight_rung length_outstanding)
  moreover have "circuit_ok (failure_threshold (wk_health w)) (health_of (wk_health w) key)"
    using inv unfolding worker_inv_def health_inv_def by blast
  ultimately show ?thesis using inv cached_fraction_range(1) [of "wk_loads w" k i now]
    by (simp add: worker_inv_def sticky_inv_def)
qed

definition sample_terminal :: gateway_event where
  "sample_terminal = \<lparr>event_kind = COMPLETED, event_usage = Some (sample_gateway_usage 900 0 10), event_failure = None,
     usage_incomplete_due_to_disconnect = False, usage_estimated = False, decision_provider_rejected = False,
     accounting_recovery = False, release_reservation_flag = False\<rparr>"

definition sample_report :: "py_error + bool \<Rightarrow> health_report" where
  "sample_report retired = \<lparr>hr_opened = True, hr_failure = None, hr_usage = no_fleet_usage, hr_retired = retired,
     hr_reset = None, hr_release_now = 5, hr_gate_raises = False, hr_throttle_now = 5, hr_failed_now = 5,
     hr_exhausted_now = 5\<rparr>"

definition bounded_rung :: exact_model_deployment where
  "bounded_rung = sample_rung ''d0'' (Some sample_bounded)"

definition sample_worker_run :: "worker_op list" where
  "sample_worker_run = [W_Claim sample_clock sample_route_keys 0 None 0,
     W_Reserve (sample_env ''t1'' 1) sample_entry bounded_rung 0 False False False, W_Bind ''t1'' ''a1'',
     W_Cache ''a1'' sample_terminal True 4 sample_entry]"

theorem worker_books_balance_witness:
  "inflight (wk_loads (fold worker_step sample_worker_run default_worker)) (''d0'', ''c'') None = 1
   \<and> outstanding (wk_loads (fold worker_step sample_worker_run default_worker)) (''d0'', ''c'') = [''t1'']"
proof -
  let ?w = "fold worker_step sample_worker_run default_worker"
  have "reachable worker_step (\<lambda>_. True) default_worker ?w" by (rule reachable_fold) (simp add: list_all_iff)
  from worker_books_balance [OF default_worker this, of "(''d0'', ''c'')"]
  have "inflight (wk_loads ?w) (''d0'', ''c'') None = int (length (outstanding (wk_loads ?w) (''d0'', ''c'')))" by blast
  moreover have "outstanding (wk_loads ?w) (''d0'', ''c'') = [''t1'']" by code_simp
  ultimately show ?thesis by simp
qed

text \<open>
  C20. Settlement returns the slot. A slot granted under a fresh ticket and bound to its attempt is given back when the
  attempt's outcome is recorded, whatever the outcome was and even when the settlement's transport marker is refused:
  every in-flight count is then the one before the reservation, and recording the attempt again changes no count.
\<close>

theorem settlement_returns_the_slot:
  assumes inv: "worker_inv w" and fresh: "dget (rr_tickets (wk_loads w)) (se_ticket env) = None"
    and slot: "reserve_rung_slot env entry d k force retry pass (wk_loads w, wk_sticky w) = Inr (Slot_Ticket t, loads, sticky)"
    and rec: "record_attempt_health r entry' a (wk_health w, bind t a loads) = (e, h', loads')"
    and again: "record_attempt_health r2 entry'' a (h', loads') = (e2, h2, loads2)"
  shows "inflight loads' key None = inflight (wk_loads w) key None
    \<and> inflight loads' key (Some i) = inflight (wk_loads w) key (Some i)
    \<and> inflight loads2 key None = inflight (wk_loads w) key None"
proof -
  have i: "health_inv (wk_health w)" "registry_inv (wk_loads w)" "evidence_ok (wk_loads w)" "sticky_inv (wk_sticky w)"
    using inv by (simp_all add: worker_inv_def)
  have l: "registry_inv loads" "evidence_ok loads" using reserve_slot_inv [OF i(2-4) fresh slot] by simp_all
  then have b: "registry_inv (bind t a loads)" "evidence_ok (bind t a loads)"
    using registry_inv_step [of loads "Bind t a"] evidence_step [of loads "Bind t a"] by simp_all
  have l': "health_inv h'" "registry_inv loads'" "evidence_ok loads'"
    using record_attempt_health_inv [OF i(1) b rec] by simp_all
  obtain x where x: "rr_tickets loads = dset t x (rr_tickets (wk_loads w))" and t: "t = se_ticket env"
    using slot_ticket_recorded [OF i(2) slot] by metis
  have "rr_tickets loads' = dpop t (rr_tickets loads)"
    using record_attempt_health_tickets [OF i(1) b rec] bound_release_tickets [of loads t x] x by simp
  then have same: "rr_tickets loads' = rr_tickets (wk_loads w)" using x dpop_dset_fresh fresh t by metis
  have "rr_tickets loads2 = rr_tickets loads'"
    using record_attempt_health_tickets(1) [OF l' again]
      release_attempt_unbound(2) [OF record_attempt_health_tickets(2) [OF i(1) b rec]] by simp
  moreover have "registry_inv loads2" using record_attempt_health_inv [OF l' again] by simp
  ultimately show ?thesis
    using inflight_by_tickets [OF i(2) l'(2) same] inflight_by_tickets(1) [OF i(2), of loads2] same by metis
qed

theorem settlement_returns_the_slot_witness:
  "\<exists>loads sticky e h' loads'. reserve_rung_slot (sample_env ''t1'' 1) sample_entry bounded_rung 0 False False False
      (wk_loads default_worker, wk_sticky default_worker) = Inr (Slot_Ticket ''t1'', loads, sticky)
    \<and> inflight loads (''d0'', ''c'') None = 1
    \<and> record_attempt_health (sample_report (Inl (ValueError ''bad marker''))) sample_entry ''a1''
        (wk_health default_worker, bind ''t1'' ''a1'' loads) = (e, h', loads')
    \<and> inflight loads' (''d0'', ''c'') None = 0"
proof -
  let ?run = "reserve_rung_slot (sample_env ''t1'' 1) sample_entry bounded_rung 0 False False False
      (wk_loads default_worker, wk_sticky default_worker)"
  have "(case ?run of Inr (Slot_Ticket t, loads, _) \<Rightarrow> t = ''t1'' \<and> inflight loads (''d0'', ''c'') None = 1 | _ \<Rightarrow> False)"
    by code_simp
  then obtain loads sticky where r: "?run = Inr (Slot_Ticket ''t1'', loads, sticky)" "inflight loads (''d0'', ''c'') None = 1"
    by (auto split: sum.splits prod.splits rung_slot.splits)
  obtain e h' loads' where rec: "record_attempt_health (sample_report (Inl (ValueError ''bad marker''))) sample_entry ''a1''
        (wk_health default_worker, bind ''t1'' ''a1'' loads) = (e, h', loads')" by (metis prod_cases3)
  obtain e2 h2 loads2 where again: "record_attempt_health (sample_report (Inr False)) sample_entry ''a1'' (h', loads')
      = (e2, h2, loads2)" by (metis prod_cases3)
  have "dget (rr_tickets (wk_loads default_worker)) (se_ticket (sample_env ''t1'' 1)) = None"
    "inflight (wk_loads default_worker) (''d0'', ''c'') None = 0" by code_simp+
  with settlement_returns_the_slot [OF dispatch_worker.inv_start _ r(1) rec again, of "(''d0'', ''c'')"] r rec
  show ?thesis by metis
qed

end
