(* ===== verification/Service_Tiers.thy ===== *)
theory Service_Tiers
  imports Attempt_Costs
begin

text \<open>
  Processing tiers (\<^verbatim>\<open>src/exp/runtime/gateway/service_tiers.py\<close>, \<^verbatim>\<open>native_service_tiers.py\<close>,
  \<^verbatim>\<open>ledger_service_tiers.py\<close>) and the card an attempt reserves, freezes and settles against
  (\<^verbatim>\<open>native_attempt_pricing.py\<close>). A tiered attempt freezes two schedules, the standard and the requested one; its receipt
  names the card the evidence witnesses, or holds the reservation. JSON columns are the records they serialise.
\<close>

section \<open>Admissions and receipts\<close>

datatype requested_service_tier = Flex_Tier | Priority_Tier
datatype served_service_tier = Default_Served | Flex_Served | Priority_Served
datatype service_tier_resolution = Tier_Confirmed | Tier_Missing | Tier_Unknown | Tier_Conflicting

fun served_as :: "requested_service_tier \<Rightarrow> served_service_tier" where
  "served_as Flex_Tier = Flex_Served"
| "served_as Priority_Tier = Priority_Served"

record service_tier_admission =
  requested_tier :: requested_service_tier
  standard_prices :: gateway_token_prices
  requested_prices :: gateway_token_prices

record service_tier_settlement =
  receipt_requested :: requested_service_tier
  receipt_served :: "served_service_tier option"
  receipt_prices :: "gateway_token_prices option"
  receipt_resolution :: service_tier_resolution

definition flat_card :: "gateway_token_prices \<Rightarrow> bool" where
  "flat_card p \<longleftrightarrow> flex p = None \<and> priority p = None"

definition require_flat_cards :: "service_tier_admission \<Rightarrow> py_error + service_tier_admission" where
  "require_flat_cards a =
     (if \<not> flat_card (standard_prices a) \<or> \<not> flat_card (requested_prices a)
      then Inl (ValueError ''service-tier admission schedules cannot contain other tier cards'') else Inr a)"

definition require_evidence :: "service_tier_settlement \<Rightarrow> py_error + service_tier_settlement" where
  "require_evidence s =
     (if receipt_resolution s = Tier_Confirmed then
        (if receipt_served s \<notin> {Some Default_Served, Some (served_as (receipt_requested s))} \<or> receipt_prices s = None
           then Inl (ValueError ''confirmed service-tier settlement needs an admitted tier and card'')
         else if \<not> flat_card (the (receipt_prices s))
           then Inl (ValueError ''settlement prices cannot contain other tier cards'')
         else Inr s)
      else if receipt_prices s \<noteq> None \<or> receipt_served s \<noteq> None
        then Inl (ValueError ''unconfirmed service-tier settlement cannot claim a tier or prices'')
      else Inr s)"

definition admission_settlement ::
    "service_tier_admission \<Rightarrow> served_service_tier option \<Rightarrow> service_tier_resolution \<Rightarrow> py_error + service_tier_settlement" where
  "admission_settlement a served res =
     (let card = (if res \<noteq> Tier_Confirmed then None
                  else if served = Some Default_Served then Some (standard_prices a)
                  else if served = Some (served_as (requested_tier a)) then Some (requested_prices a)
                  else None);
          final = (if res = Tier_Confirmed \<and> card = None then Tier_Unknown else res)
      in require_evidence \<lparr>receipt_requested = requested_tier a,
           receipt_served = (if card \<noteq> None then served else None),
           receipt_prices = card, receipt_resolution = final\<rparr>)"

definition tier_admission ::
    "gateway_token_prices \<Rightarrow> string option \<Rightarrow> bool \<Rightarrow> bool \<Rightarrow> py_error + service_tier_admission option" where
  "tier_admission p tier forwards_tier customer_managed =
     (if customer_managed \<or> \<not> forwards_tier \<or> tier \<notin> {Some ''flex'', Some ''priority''} then Inr None
      else if service_tier p tier = None then Inr None
      else rbind (require_flat_cards
             \<lparr>requested_tier = (if tier = Some ''flex'' then Flex_Tier else Priority_Tier),
              standard_prices = p\<lparr>flex := None, priority := None\<rparr>, requested_prices = for_service_tier p tier\<rparr>)
             (\<lambda>a. Inr (Some a)))"

section \<open>Pricing an attempt\<close>

definition deployment_priced_at :: "exact_model_deployment \<Rightarrow> py_datetime \<Rightarrow> py_error + exact_model_deployment" where
  "deployment_priced_at d instant = rbind (effective_at (prices d) instant) (\<lambda>p. Inr (d\<lparr>prices := p\<rparr>))"

text \<open>The same for the preferred deployment a disclosure may name.\<close>

definition preferred_priced_at ::
    "exact_model_deployment option \<Rightarrow> py_datetime \<Rightarrow> py_error + exact_model_deployment option" where
  "preferred_priced_at d instant =
     (case d of None \<Rightarrow> Inr None | Some d \<Rightarrow> rbind (deployment_priced_at d instant) (\<lambda>d. Inr (Some d)))"

definition deployment_priced_for_service_tier ::
    "exact_model_deployment \<Rightarrow> string option \<Rightarrow> bool \<Rightarrow> exact_model_deployment" where
  "deployment_priced_for_service_tier d tier forwards_tier =
     (if \<not> forwards_tier then d else d\<lparr>prices := for_service_tier (prices d) tier\<rparr>)"

definition priced_attempt ::
    "exact_model_deployment \<Rightarrow> string option \<Rightarrow> bool \<Rightarrow> py_datetime
      \<Rightarrow> py_error + exact_model_deployment \<times> service_tier_admission option" where
  "priced_attempt d tier forwards_tier instant =
     rbind (deployment_priced_at d instant) (\<lambda>timed.
     rbind (tier_admission (prices timed) tier forwards_tier (dep_billing_source timed = CUSTOMER_MANAGED)) (\<lambda>adm.
       Inr (deployment_priced_for_service_tier timed tier forwards_tier, adm)))"

text \<open>\<open>n_out\<close> is \<open>worst_case_output_tokens\<close> of the request on the deployment, which does not read its prices.\<close>

definition tier_ceiling ::
    "serving_request \<Rightarrow> exact_model_deployment \<Rightarrow> service_tier_admission option \<Rightarrow> int \<Rightarrow> int \<Rightarrow> py_error + int option" where
  "tier_ceiling r d tier n_in n_out =
     rbind (maximum_attempt_cost_nano_usd r d n_in n_out) (\<lambda>requested.
       case tier of
         None \<Rightarrow> Inr requested
       | Some a \<Rightarrow>
           rbind (maximum_attempt_cost_nano_usd r (d\<lparr>prices := standard_prices a\<rparr>) n_in n_out) (\<lambda>fallback.
             Inr (case (requested, fallback) of (Some x, Some y) \<Rightarrow> Some (max x y) | _ \<Rightarrow> None)))"

section \<open>Settling a tier\<close>

definition settlement_kwarg ::
    "service_tier_admission option \<Rightarrow> served_service_tier option \<times> service_tier_resolution \<Rightarrow> bool
      \<Rightarrow> py_error + service_tier_settlement option" where
  "settlement_kwarg tier observation self_served =
     (case tier of
        None \<Rightarrow> Inr None
      | Some a \<Rightarrow>
          (case (if self_served \<and> snd observation = Tier_Missing
                 then (Some (served_as (requested_tier a)), Tier_Confirmed) else observation) of
             (served, res) \<Rightarrow> rbind (admission_settlement a served res) (\<lambda>s. Inr (Some s))))"

definition card_usage_cost :: "gateway_token_prices \<Rightarrow> gateway_usage option \<Rightarrow> py_error + int option" where
  "card_usage_cost p usage =
     estimated_cost_nano_usd usage
       (case (long_context p, Option.bind usage gu_input_tokens) of
          (Some tier, Some n) \<Rightarrow>
            if n \<ge> input_threshold_tokens tier then frozen_schedule (freeze_rates tier)
            else frozen_schedule (freeze_rates p)
        | _ \<Rightarrow> frozen_schedule (freeze_rates p))"

definition tier_usage_cost ::
    "service_tier_settlement \<Rightarrow> gateway_usage option \<Rightarrow> gateway_event option \<Rightarrow> py_error + int option" where
  "tier_usage_cost receipt usage terminal =
     (case receipt_prices receipt of
        None \<Rightarrow> Inr None
      | Some p \<Rightarrow>
          if (case terminal of None \<Rightarrow> False
              | Some e \<Rightarrow> usage_incomplete_due_to_disconnect e \<and> \<not> usage_estimated e) then Inr None
          else card_usage_cost p usage)"

text \<open>Of a \<open>gateway_attempts\<close> row: the two tier columns and its frozen rates.\<close>

record tier_row =
  service_tier_admission_col :: "service_tier_admission option"
  service_tier_settlement_col :: "service_tier_settlement option"
  tier_prices :: attempt_row

definition record_tier_admission :: "service_tier_admission option \<Rightarrow> tier_row \<Rightarrow> tier_row" where
  "record_tier_admission tier row =
     (case tier of None \<Rightarrow> row | Some a \<Rightarrow> row\<lparr>service_tier_admission_col := Some a\<rparr>)"

text \<open>The rate columns the receipt's card overwrites; unit prices and the reservation stay.\<close>

definition freeze_card :: "gateway_token_prices \<Rightarrow> attempt_row \<Rightarrow> attempt_row" where
  "freeze_card p row = row\<lparr>row_base := freeze_rates p, row_long_context_threshold_tokens := fst (long_context_values p),
     row_long_context := snd (long_context_values p)\<rparr>"

definition settle_tier ::
    "service_tier_settlement option \<Rightarrow> tier_row \<Rightarrow> py_error + service_tier_settlement option \<times> tier_row" where
  "settle_tier receipt row =
     (case service_tier_admission_col row of
        None \<Rightarrow> if receipt \<noteq> None then Inl (GatewayLedgerError ''service-tier receipt has no admitted schedules'')
                 else Inr (None, row)
      | Some a \<Rightarrow>
          rbind (case receipt of None \<Rightarrow> admission_settlement a None Tier_Missing | Some s \<Rightarrow> Inr s) (\<lambda>s.
          rbind (admission_settlement a (receipt_served s) (receipt_resolution s)) (\<lambda>expected.
            if s \<noteq> expected
            then Inl (GatewayLedgerError ''service-tier receipt differs from the admitted schedules'')
            else
              (let row1 = (case receipt_prices s of None \<Rightarrow> row
                           | Some p \<Rightarrow> row\<lparr>tier_prices := freeze_card p (tier_prices row)\<rparr>)
               in Inr (Some s, row1\<lparr>service_tier_settlement_col := Some s\<rparr>)))))"

section \<open>Lemmas\<close>

lemma for_service_tier_flat: "service_tier p tier = Some c \<Longrightarrow> flat_card (for_service_tier p tier)"
  by (simp add: for_service_tier_def card_schedule_def flat_card_def)

lemma tier_admission_cases:
  assumes "tier_admission p tier forwards customer = Inr (Some a)"
  shows "forwards" and "\<not> customer" and "standard_prices a = p\<lparr>flex := None, priority := None\<rparr>"
    and "requested_prices a = for_service_tier p tier" and "flat_card (standard_prices a)" "flat_card (requested_prices a)"
    and "requested_tier a = (if tier = Some ''flex'' then Flex_Tier else Priority_Tier)"
  using assms by (auto simp: tier_admission_def require_flat_cards_def rbind_eq_Inr_iff split: if_splits)

text \<open>An admission from flat cards answers every observation with a receipt that passes its own validator.\<close>

lemma admission_settlement_total:
  assumes "flat_card (standard_prices a)" and "flat_card (requested_prices a)"
  shows "\<exists>s. admission_settlement a served res = Inr s"
  using assms by (auto simp: admission_settlement_def require_evidence_def Let_def)

lemma admission_settlement_cases:
  assumes "admission_settlement a served res = Inr s"
  obtains (standard) "res = Tier_Confirmed" "served = Some Default_Served" "receipt_prices s = Some (standard_prices a)"
      "receipt_resolution s = Tier_Confirmed" "receipt_served s = served"
  | (requested) "res = Tier_Confirmed" "served = Some (served_as (requested_tier a))"
      "receipt_prices s = Some (requested_prices a)" "receipt_resolution s = Tier_Confirmed" "receipt_served s = served"
  | (held) "receipt_prices s = None" "receipt_resolution s \<noteq> Tier_Confirmed" "receipt_served s = None"
      "res = Tier_Confirmed \<Longrightarrow> served \<notin> {Some Default_Served, Some (served_as (requested_tier a))}"
  using assms by (auto simp: admission_settlement_def require_evidence_def Let_def split: if_splits)

text \<open>A receipt is a fixed point: the ledger recomputes it from what it names.\<close>

lemma admission_settlement_idem:
  assumes "admission_settlement a served res = Inr s"
  shows "admission_settlement a (receipt_served s) (receipt_resolution s) = Inr s"
  using assms by (auto simp: admission_settlement_def require_evidence_def Let_def split: if_splits)

lemma card_rates_ok_flat: "card_rates_ok (p\<lparr>flex := f, priority := g\<rparr>) = card_rates_ok p"
  by (simp add: card_rates_ok_def rates_ok_def token_rate_fields_def)

lemma card_usage_cost_select:
  assumes "gu_input_tokens u = Some n"
  shows "card_usage_cost p (Some u) = estimated_cost_nano_usd (Some u)
    ((select_schedule p n)\<lparr>cache_creation_12h_input_nano_usd_per_million_tokens := None,
       image_output_nano_usd_per_million_tokens := None\<rparr>)"
  using assms by (auto simp: card_usage_cost_def select_schedule_def frozen_schedule_freeze split: option.splits)

text \<open>The requests priced by tokens rather than by units.\<close>

definition token_request :: "serving_request \<Rightarrow> bool" where
  "token_request r = (case r of Gateway_Request _ _ \<Rightarrow> True | Decision_Request \<Rightarrow> True | _ \<Rightarrow> False)"

lemma token_request_ceiling:
  "token_request r \<Longrightarrow> maximum_attempt_cost_nano_usd r d n_in n_out = token_attempt_cost_nano_usd r d n_in n_out"
  by (cases r) (simp_all add: token_request_def maximum_attempt_cost_nano_usd_def Let_def split: prod.split)


lemma priced_attempt_tier:
  assumes "priced_attempt d tier forwards instant = Inr (d', Some a)"
  shows "prices d' = requested_prices a" and "flat_card (standard_prices a)" and "flat_card (requested_prices a)"
  using assms tier_admission_cases
  by (fastforce simp: priced_attempt_def deployment_priced_for_service_tier_def rbind_eq_Inr_iff)+

lemma tier_ceiling_Some:
  assumes "tier_ceiling r d (Some a) n_in n_out = Inr (Some cap)"
  obtains x y where "maximum_attempt_cost_nano_usd r d n_in n_out = Inr (Some x)"
    "maximum_attempt_cost_nano_usd r (d\<lparr>prices := standard_prices a\<rparr>) n_in n_out = Inr (Some y)" "cap = max x y"
  using assms by (auto simp: tier_ceiling_def rbind_eq_Inr_iff split: option.splits)

lemma card_usage_within_ceiling:
  assumes "token_attempt_cost_nano_usd r d n_in n_out = Inr (Some cap)" and "card_usage_cost (prices d) (Some u) = Inr (Some c)"
    and "usage_within r d n_in n_out u" and "card_rates_ok (prices d)" "no_authored_12h (prices d)"
  shows "c \<le> cap"
proof -
  obtain a b where ab: "gu_input_tokens u = Some a" "gu_output_tokens u = Some b"
    using assms(2) by (auto simp: card_usage_cost_def estimated_cost_nano_usd_def split: option.splits)
  from assms(2) [unfolded card_usage_cost_select [OF ab(1)]] ab
  have "token_cost_nano_usd (gateway_counts u a b)
      ((select_schedule (prices d) a)\<lparr>cache_creation_12h_input_nano_usd_per_million_tokens := None,
         image_output_nano_usd_per_million_tokens := None\<rparr>) = Some c"
    by (simp add: estimated_cost_Some)
  from token_ceiling_covers [OF assms(1) ab this assms(3-5)] show ?thesis .
qed

text \<open>The ledger accepts exactly the receipts its own admission gives; without one it records a hold.\<close>

lemma settle_tier_accepts:
  assumes "service_tier_admission_col row = Some a" and "flat_card (standard_prices a)" "flat_card (requested_prices a)"
  shows "(\<exists>row'. settle_tier (Some s) row = Inr (Some s, row')) \<longleftrightarrow> (\<exists>served res. admission_settlement a served res = Inr s)"
    and "\<exists>s row'. settle_tier None row = Inr (Some s, row') \<and> receipt_prices s = None \<and> tier_prices row' = tier_prices row"
proof -
  show "(\<exists>row'. settle_tier (Some s) row = Inr (Some s, row')) \<longleftrightarrow> (\<exists>served res. admission_settlement a served res = Inr s)"
    using assms(1) admission_settlement_idem [of a] by (auto simp: settle_tier_def Let_def rbind_eq_Inr_iff split: if_splits)
  obtain s where s: "admission_settlement a None Tier_Missing = Inr s" using admission_settlement_total [OF assms(2,3)] by blast
  then have "receipt_prices s = None" by (cases rule: admission_settlement_cases) auto
  with s assms(1) admission_settlement_idem [OF s]
  show "\<exists>s row'. settle_tier None row = Inr (Some s, row') \<and> receipt_prices s = None \<and> tier_prices row' = tier_prices row"
    by (auto simp: settle_tier_def Let_def)
qed

lemma settle_tier_Some:
  assumes "settle_tier receipt row = Inr (Some s, row')" and "service_tier_admission_col row = Some a"
  shows "\<exists>served res. admission_settlement a served res = Inr s"
  using assms by (auto simp: settle_tier_def Let_def rbind_eq_Inr_iff split: if_splits)

section \<open>Properties\<close>



definition sample_tiered :: exact_model_deployment where
  "sample_tiered = sample_deployment ((sample_card 3000000 4000000 15000000)\<lparr>priority :=
     Some (token_rates.extend (sample_rates 6000000 8000000 30000000) \<lparr>tier_long_context = None\<rparr>)\<rparr>)"

definition sample_admission :: service_tier_admission where
  "sample_admission = \<lparr>requested_tier = Priority_Tier, standard_prices = sample_card 3000000 4000000 15000000,
     requested_prices = sample_card 6000000 8000000 30000000\<rparr>"

definition sample_receipt :: service_tier_settlement where
  "sample_receipt = \<lparr>receipt_requested = Priority_Tier, receipt_served = Some Priority_Served,
     receipt_prices = Some (sample_card 6000000 8000000 30000000), receipt_resolution = Tier_Confirmed\<rparr>"

definition sample_tier_row :: tier_row where
  "sample_tier_row = \<lparr>service_tier_admission_col = Some sample_admission, service_tier_settlement_col = None,
     tier_prices = insert_attempt_prices (sample_card 6000000 8000000 30000000) None ''responses'' (Some 1500)\<rparr>"


end
