(* ===== verification/Budgets.thy ===== *)
theory Budgets
  imports Ledger_Valuation
begin

text \<open>
  Hard monthly limits and their atomic reservation checks (\<^verbatim>\<open>src/exp/runtime/gateway/budgets.py\<close>, with
  the revision fence of \<^verbatim>\<open>budget_authority.py\<close>). The database is a record of tables; each function is one
  transaction on it that returns the new tables or raises. \<open>stable_id\<close>, a SHA-256 content address, is the
  parameter \<open>storage_key\<close> / \<open>make_budget_id\<close> of the operations that call it.
\<close>

section \<open>Scopes and rows\<close>

datatype budget_scope_kind = TEAM | IDENTITY | POOL | DEPLOYMENT

fun scope_kind_value :: "budget_scope_kind \<Rightarrow> string" where
  "scope_kind_value TEAM = ''team''"
| "scope_kind_value IDENTITY = ''identity''"
| "scope_kind_value POOL = ''pool''"
| "scope_kind_value DEPLOYMENT = ''deployment''"

record budget_scope =
  kind :: budget_scope_kind
  identity_id :: "string option"
  alias_id :: "string option"
  pool_id :: "string option"
  scope_deployment_id :: "string option"

definition require_scope_shape :: "budget_scope \<Rightarrow> py_error + budget_scope" where
  "require_scope_shape s =
     (let present = (identity_id s \<noteq> None, alias_id s \<noteq> None, pool_id s \<noteq> None, scope_deployment_id s \<noteq> None);
          expected = (case kind s of
              TEAM \<Rightarrow> (False, False, False, False)
            | IDENTITY \<Rightarrow> (True, False, False, False)
            | POOL \<Rightarrow> (False, True, True, False)
            | DEPLOYMENT \<Rightarrow> (False, True, True, True))
      in if present \<noteq> expected
         then Inl (ValueError (scope_kind_value (kind s) @ '' budget scope has invalid identifiers''))
         else Inr s)"

text \<open>\<open>BudgetScope.key\<close>: the kind and the present identifiers joined by colons.\<close>

definition scope_label :: "budget_scope \<Rightarrow> string" where
  "scope_label s = scope_kind_value (kind s) @ concat (map (\<lambda>v. CHR '':'' # v)
     (List.map_filter id [identity_id s, alias_id s, pool_id s, scope_deployment_id s]))"

record budget_row =
  budget_id :: string
  b_organization_id :: string
  b_period_start :: string
  b_scope :: budget_scope
  b_scope_key :: string
  limit_nano_usd :: int
  strict_unknown_cost :: bool
  reserved_nano_usd :: int
  settled_nano_usd :: int
  unknown_cost_attempts :: int
  created_at :: string
  updated_at :: string

record charge_row =
  c_budget_id :: string
  c_attempt_id :: string
  c_reserved :: "int option"
  c_settled :: "int option"

text \<open>An attempt joined with its accepted request and that request's alias revision.\<close>

record attempt_record =
  a_attempt_id :: string
  a_organization_id :: string
  a_period_start :: string
  a_identity_id :: string
  a_alias_id :: string
  a_pool_id :: "string option"
  a_revision_pool_id :: "string option"
  a_deployment_id :: string
  a_budget_reserved :: "int option"
  a_budget_settled :: "int option"
  a_estimated_cost :: "int option"
  a_input_tokens :: "int option"
  a_output_tokens :: "int option"

record budget_alias_revision =
  revision_id :: string
  revision_pool_id :: string
  snapshot_ref :: string
  catalog_sha256 :: string

text \<open>The tables. An alias row carries whether it is active and its active revision when it is direct.\<close>

record budget_db =
  organizations :: "(string \<times> bool) list"
  identities :: "(string \<times> string \<times> bool) list"
  aliases :: "(string \<times> string \<times> bool \<times> budget_alias_revision option) list"
  budgets :: "budget_row list"
  charges :: "charge_row list"
  attempts :: "attempt_record list"

section \<open>Periods\<close>

definition digit :: "char \<Rightarrow> bool" where "digit c \<longleftrightarrow> CHR ''0'' \<le> c \<and> c \<le> CHR ''9''"
definition digit_value :: "char \<Rightarrow> int" where "digit_value c = int (of_char c) - 48"

text \<open>\<open>strptime(period, "%Y-%m")\<close>: four digits of a year of at least 1, a dash, one or two digits of a month.\<close>

definition parse_period :: "string \<Rightarrow> (int \<times> int) option" where
  "parse_period s =
     (case s of
        [y1, y2, y3, y4, dash, m1, m2] \<Rightarrow>
          let y = 1000 * digit_value y1 + 100 * digit_value y2 + 10 * digit_value y3 + digit_value y4;
              m = 10 * digit_value m1 + digit_value m2
          in if list_all digit [y1, y2, y3, y4, m1, m2] \<and> dash = CHR ''-'' \<and> 1 \<le> y \<and> 1 \<le> m \<and> m \<le> 12
             then Some (y, m) else None
      | [y1, y2, y3, y4, dash, m2] \<Rightarrow>
          let y = 1000 * digit_value y1 + 100 * digit_value y2 + 10 * digit_value y3 + digit_value y4
          in if list_all digit [y1, y2, y3, y4, m2] \<and> dash = CHR ''-'' \<and> 1 \<le> y \<and> 1 \<le> digit_value m2
             then Some (y, digit_value m2) else None
      | _ \<Rightarrow> None)"

definition digit_char :: "int \<Rightarrow> char" where "digit_char d = char_of (nat (48 + d mod 10))"

text \<open>\<open>strftime("%Y-%m")\<close> with the documented zero padding.\<close>

definition canonical_period :: "int \<times> int \<Rightarrow> string" where
  "canonical_period = (\<lambda>(y, m).
     [digit_char (y div 1000), digit_char (y div 100), digit_char (y div 10), digit_char y, CHR ''-'',
      digit_char (m div 10), digit_char m])"

definition budget_period_start :: "string \<Rightarrow> py_error + string" where
  "budget_period_start period =
     (case parse_period period of
        None \<Rightarrow> Inl (ValueError ''budget period must use YYYY-MM'')
      | Some ym \<Rightarrow>
          if canonical_period ym \<noteq> period
            then Inl (ValueError ''budget period must use zero-padded YYYY-MM'')
          else Inr (period @ ''-01T00:00:00+00:00''))"

section \<open>Reservation\<close>

record attempt_budget_args =
  arg_organization_id :: string
  arg_identity_id :: string
  arg_alias_id :: string
  arg_pool_id :: string
  arg_deployment_id :: string
  arg_attempt_id :: string
  arg_period_start :: string
  arg_maximum_cost :: "int option"
  arg_root_pool_id :: "string option"
  arg_request_id :: "string option"
  arg_alias_revision_id :: "string option"

datatype budget_application = Root | Destination | Shared

record budget_refusal_binding =
  br_request_id :: string
  br_organization_id :: string
  br_alias_revision_id :: string
  br_scope :: budget_scope
  br_application :: budget_application

datatype budget_failure =
    Budget_Reservation_Rejected budget_scope_kind "budget_refusal_binding option" string
  | Budget_Error py_error

text \<open>\<open>root_pool_id or pool_id\<close>: an absent or empty root falls back to the attempt's pool.\<close>

definition effective_root :: "attempt_budget_args \<Rightarrow> string" where
  "effective_root a = (case arg_root_pool_id a of
     None \<Rightarrow> arg_pool_id a | Some r \<Rightarrow> if r = [] then arg_pool_id a else r)"

definition applicable :: "attempt_budget_args \<Rightarrow> budget_row \<Rightarrow> bool" where
  "applicable a b \<longleftrightarrow>
     b_organization_id b = arg_organization_id a \<and> b_period_start b = arg_period_start a
     \<and> (case kind (b_scope b) of
          TEAM \<Rightarrow> True
        | IDENTITY \<Rightarrow> identity_id (b_scope b) = Some (arg_identity_id a)
        | POOL \<Rightarrow> alias_id (b_scope b) = Some (arg_alias_id a)
            \<and> pool_id (b_scope b) \<in> {Some (arg_pool_id a), Some (effective_root a)}
        | DEPLOYMENT \<Rightarrow> alias_id (b_scope b) = Some (arg_alias_id a)
            \<and> pool_id (b_scope b) = Some (arg_pool_id a)
            \<and> scope_deployment_id (b_scope b) = Some (arg_deployment_id a))"

definition request_wide :: "attempt_budget_args \<Rightarrow> budget_row \<Rightarrow> bool" where
  "request_wide a b \<longleftrightarrow> kind (b_scope b) \<in> {TEAM, IDENTITY}
     \<or> (kind (b_scope b) = POOL \<and> pool_id (b_scope b) = Some (effective_root a))"

text \<open>
  The ORDER BY: request-wide rows first, then scope kind and scope key. Sorting stably by the key, then
  by the kind, then by the gate is the lexicographic order of the three columns.
\<close>

definition select_applicable :: "attempt_budget_args \<Rightarrow> budget_row list \<Rightarrow> budget_row list" where
  "select_applicable a bs =
     sort_key (\<lambda>b. if request_wide a b then 0 else (1 :: nat))
       (sort_key (\<lambda>b. scope_kind_value (kind (b_scope b)))
         (sort_key b_scope_key (filter (applicable a) bs)))"

definition refusal_binding :: "attempt_budget_args \<Rightarrow> budget_row \<Rightarrow> budget_refusal_binding option" where
  "refusal_binding a b =
     (case (arg_request_id a, arg_alias_revision_id a) of
        (Some request, Some revision) \<Rightarrow>
          let application =
                (if kind (b_scope b) \<in> {POOL, DEPLOYMENT} then
                   (if arg_pool_id a = effective_root a then Shared
                    else if pool_id (b_scope b) = Some (effective_root a) then Root else Destination)
                 else Shared)
          in Some \<lparr>br_request_id = request, br_organization_id = arg_organization_id a,
               br_alias_revision_id = revision, br_scope = b_scope b, br_application = application\<rparr>
      | _ \<Rightarrow> None)"

text \<open>One row of the first loop: the refusal reason it raises, if any.\<close>

definition row_refusal :: "int option \<Rightarrow> budget_row \<Rightarrow> string option" where
  "row_refusal maximum b =
     (let charged = reserved_nano_usd b + settled_nano_usd b
      in if strict_unknown_cost b \<and> unknown_cost_attempts b \<noteq> 0
           then Some ''monthly hard limit has prior attempts with unknown cost''
         else case maximum of
             None \<Rightarrow> if strict_unknown_cost b
               then Some ''monthly hard limit requires a known maximum attempt cost'' else None
           | Some cost \<Rightarrow> if cost > max 0 (limit_nano_usd b - charged)
               then Some (''monthly '' @ scope_kind_value (kind (b_scope b)) @ '' allocation is exhausted'')
               else None)"

fun first_refusal :: "attempt_budget_args \<Rightarrow> budget_row list \<Rightarrow> budget_failure option" where
  "first_refusal a [] = None"
| "first_refusal a (b # bs) =
     (case row_refusal (arg_maximum_cost a) b of
        Some reason \<Rightarrow> Some (Budget_Reservation_Rejected (kind (b_scope b)) (refusal_binding a b) reason)
      | None \<Rightarrow> first_refusal a bs)"

text \<open>\<open>INSERT INTO gateway_attempt_budget_charges\<close> under its primary key.\<close>

definition charge_key :: "charge_row \<Rightarrow> string \<times> string" where
  "charge_key c = (c_budget_id c, c_attempt_id c)"

definition insert_charge :: "charge_row \<Rightarrow> budget_db \<Rightarrow> py_error + budget_db" where
  "insert_charge c db =
     (if charge_key c \<in> set (map charge_key (charges db))
        then Inl (IntegrityError ''UNIQUE constraint failed: gateway_attempt_budget_charges'')
      else Inr (db\<lparr>charges := charges db @ [c]\<rparr>))"

definition update_budget :: "string \<Rightarrow> (budget_row \<Rightarrow> budget_row) \<Rightarrow> budget_db \<Rightarrow> budget_db" where
  "update_budget bid f db = db\<lparr>budgets := update_where (\<lambda>b. budget_id b = bid) f (budgets db)\<rparr>"

text \<open>One row of the second loop.\<close>

definition reserve_row :: "string \<Rightarrow> int option \<Rightarrow> string \<Rightarrow> budget_db \<Rightarrow> py_error + budget_db" where
  "reserve_row attempt maximum bid db =
     (case maximum of
        None \<Rightarrow> insert_charge \<lparr>c_budget_id = bid, c_attempt_id = attempt, c_reserved = None, c_settled = None\<rparr>
          (update_budget bid (\<lambda>b. b\<lparr>unknown_cost_attempts := unknown_cost_attempts b + 1\<rparr>) db)
      | Some cost \<Rightarrow>
          insert_charge \<lparr>c_budget_id = bid, c_attempt_id = attempt, c_reserved = Some cost, c_settled = None\<rparr>
            (update_budget bid (\<lambda>b. b\<lparr>reserved_nano_usd := reserved_nano_usd b + cost\<rparr>) db))"

definition require_attempt_budget :: "attempt_budget_args \<Rightarrow> budget_db \<Rightarrow> budget_failure + budget_db" where
  "require_attempt_budget a db =
     (let rows = select_applicable a (budgets db)
      in case first_refusal a rows of
           Some failure \<Rightarrow> Inl failure
         | None \<Rightarrow> (case rfold (reserve_row (arg_attempt_id a) (arg_maximum_cost a)) (map budget_id rows) db of
               Inl e \<Rightarrow> Inl (Budget_Error e) | Inr db' \<Rightarrow> Inr db'))"

section \<open>Settlement\<close>

record settle_row =
  sr_budget_id :: string
  sr_reserved :: "int option"
  sr_settled :: "int option"
  sr_budget_settled :: int

text \<open>The join of the attempt's charges with their budgets, read before the loop.\<close>

definition settle_rows :: "string \<Rightarrow> budget_db \<Rightarrow> settle_row list" where
  "settle_rows attempt db =
     concat (map (\<lambda>c. map (\<lambda>b. \<lparr>sr_budget_id = c_budget_id c, sr_reserved = c_reserved c,
                                 sr_settled = c_settled c, sr_budget_settled = settled_nano_usd b\<rparr>)
                        (filter (\<lambda>b. budget_id b = c_budget_id c) (budgets db)))
                 (filter (\<lambda>c. c_attempt_id c = attempt) (charges db)))"

text \<open>The guarded counter update: the rows it matches, and their new values.\<close>

definition settle_guard :: "settle_row \<Rightarrow> budget_row \<Rightarrow> bool" where
  "settle_guard r b \<longleftrightarrow> budget_id b = sr_budget_id r \<and>
     (case sr_reserved r of None \<Rightarrow> unknown_cost_attempts b > 0 | Some v \<Rightarrow> reserved_nano_usd b \<ge> v)"

definition settle_update :: "settle_row \<Rightarrow> int \<Rightarrow> budget_row \<Rightarrow> budget_row" where
  "settle_update r amount b =
     (case sr_reserved r of
        None \<Rightarrow> b\<lparr>unknown_cost_attempts := unknown_cost_attempts b - 1,
                 settled_nano_usd := settled_nano_usd b + amount\<rparr>
      | Some v \<Rightarrow> b\<lparr>reserved_nano_usd := reserved_nano_usd b - v,
                   settled_nano_usd := settled_nano_usd b + amount\<rparr>)"

definition open_charge :: "string \<Rightarrow> string \<Rightarrow> charge_row \<Rightarrow> bool" where
  "open_charge bid attempt c \<longleftrightarrow> charge_key c = (bid, attempt) \<and> c_settled c = None"

definition settle_one :: "string \<Rightarrow> int option \<Rightarrow> settle_row \<Rightarrow> budget_db \<Rightarrow> py_error + budget_db" where
  "settle_one attempt amount r db =
     (case (sr_settled r, amount) of
        (None, Some v) \<Rightarrow>
          if sr_budget_settled r + v > MAXIMUM_NANO_USD
            then Inl (ValueError ''settled monthly gateway cost exceeds SQLite integer capacity'')
          else if rowcount (settle_guard r) (budgets db) \<noteq> 1
            then Inl (RuntimeError ''monthly budget counters are inconsistent'')
          else if rowcount (open_charge (sr_budget_id r) attempt) (charges db) \<noteq> 1
            then Inl (RuntimeError ''attempt budget charge is already settled'')
          else Inr (db\<lparr>budgets := update_where (settle_guard r) (settle_update r v) (budgets db),
                       charges := update_where (open_charge (sr_budget_id r) attempt)
                         (\<lambda>c. c\<lparr>c_settled := Some v\<rparr>) (charges db)\<rparr>)
      | _ \<Rightarrow> Inr db)"

definition settle_attempt_budgets :: "string \<Rightarrow> int option \<Rightarrow> budget_db \<Rightarrow> py_error + budget_db" where
  "settle_attempt_budgets attempt amount db =
     rfold (settle_one attempt amount) (settle_rows attempt db) db"

section \<open>Balances\<close>

record monthly_budget_remaining =
  mr_budget_id :: string
  mr_charged :: int
  mr_reserved :: int
  mr_settled :: int
  mr_remaining :: int
  mr_unknown_cost_attempts :: int
  mr_unknown_input_tokens :: int
  mr_unknown_output_tokens :: int
  mr_exhausted :: bool

definition unknown_charge :: "charge_row \<Rightarrow> bool" where
  "unknown_charge c \<longleftrightarrow> c_reserved c = None \<and> c_settled c = None"

text \<open>The join over the unresolved unknown-cost charges of one budget, summed.\<close>

definition unknown_token_volume :: "budget_db \<Rightarrow> string \<Rightarrow> int \<times> int" where
  "unknown_token_volume db bid =
     (let joined = concat (map (\<lambda>c. filter (\<lambda>a. a_attempt_id a = c_attempt_id c) (attempts db))
                     (filter (\<lambda>c. c_budget_id c = bid \<and> unknown_charge c) (charges db)))
      in (sum_list (map (\<lambda>a. or0 (a_input_tokens a)) joined), sum_list (map (\<lambda>a. or0 (a_output_tokens a)) joined)))"

definition remaining_from_row :: "budget_db \<Rightarrow> budget_row \<Rightarrow> monthly_budget_remaining" where
  "remaining_from_row db b =
     (let charged = reserved_nano_usd b + settled_nano_usd b;
          unknown = unknown_cost_attempts b;
          volume = unknown_token_volume db (budget_id b)
      in \<lparr>mr_budget_id = budget_id b, mr_charged = charged, mr_reserved = reserved_nano_usd b,
          mr_settled = settled_nano_usd b,
          mr_remaining = (if strict_unknown_cost b \<and> unknown \<noteq> 0 then 0 else max 0 (limit_nano_usd b - charged)),
          mr_unknown_cost_attempts = unknown, mr_unknown_input_tokens = fst volume,
          mr_unknown_output_tokens = snd volume,
          mr_exhausted = (strict_unknown_cost b \<and> unknown > 0 \<or> charged \<ge> limit_nano_usd b)\<rparr>)"

definition period_rows :: "string \<Rightarrow> string \<Rightarrow> budget_db \<Rightarrow> budget_row list" where
  "period_rows org period_start db =
     sort_key (\<lambda>b. scope_kind_value (kind (b_scope b)))
       (sort_key b_scope_key
         (filter (\<lambda>b. b_organization_id b = org \<and> b_period_start b = period_start) (budgets db)))"

definition remaining :: "string \<Rightarrow> string \<Rightarrow> budget_db \<Rightarrow> py_error + monthly_budget_remaining list" where
  "remaining org period db =
     rbind (budget_period_start period) (\<lambda>start. Inr (map (remaining_from_row db) (period_rows org start db)))"

section \<open>Reconciliation\<close>

definition scope_budget :: "string \<Rightarrow> string \<Rightarrow> string \<Rightarrow> budget_db \<Rightarrow> budget_row option" where
  "scope_budget org start key db =
     find (\<lambda>b. b_organization_id b = org \<and> b_period_start b = start \<and> b_scope_key b = key) (budgets db)"

definition unknown_charge_of :: "string \<Rightarrow> string \<Rightarrow> charge_row \<Rightarrow> bool" where
  "unknown_charge_of bid attempt c \<longleftrightarrow> charge_key c = (bid, attempt) \<and> unknown_charge c"

definition assign_charge :: "string \<Rightarrow> int \<Rightarrow> string \<Rightarrow> budget_db \<Rightarrow> py_error + budget_db" where
  "assign_charge bid assigned attempt db =
     (if rowcount (unknown_charge_of bid attempt) (charges db) \<noteq> 1
        then Inl (RuntimeError ''monthly budget counters are inconsistent'')
      else Inr (db\<lparr>charges := update_where (unknown_charge_of bid attempt)
             (\<lambda>c. c\<lparr>c_settled := Some assigned\<rparr>) (charges db)\<rparr>))"

definition unknown_attempts :: "string \<Rightarrow> budget_db \<Rightarrow> string list" where
  "unknown_attempts bid db =
     sort (map c_attempt_id (filter (\<lambda>c. c_budget_id c = bid \<and> unknown_charge c) (charges db)))"

definition reconcile_update :: "string \<Rightarrow> int \<Rightarrow> int \<Rightarrow> budget_db \<Rightarrow> py_error + budget_db" where
  "reconcile_update bid n added db =
     (let guard = (\<lambda>b. budget_id b = bid \<and> unknown_cost_attempts b \<ge> n)
      in if rowcount guard (budgets db) \<noteq> 1
           then Inl (RuntimeError ''monthly budget counters are inconsistent'')
         else Inr (db\<lparr>budgets := update_where guard
                (\<lambda>b. b\<lparr>unknown_cost_attempts := unknown_cost_attempts b - n,
                       settled_nano_usd := settled_nano_usd b + added\<rparr>) (budgets db)\<rparr>))"

definition read_budget :: "string \<Rightarrow> budget_db \<Rightarrow> py_error + budget_row" where
  "read_budget bid db =
     (case find (\<lambda>b. budget_id b = bid) (budgets db) of
        None \<Rightarrow> Inl (RuntimeError ''monthly budget disappeared inside its transaction'')
      | Some b \<Rightarrow> Inr b)"

text \<open>The number of reconciled attempts, the resulting balance and the new tables.\<close>

definition reconcile_unknown_costs ::
    "(budget_scope \<Rightarrow> string) \<Rightarrow> string \<Rightarrow> string \<Rightarrow> budget_scope \<Rightarrow> int \<Rightarrow> budget_db \<Rightarrow>
     py_error + (int \<times> monthly_budget_remaining \<times> budget_db)" where
  "reconcile_unknown_costs storage_key org period scope assigned db =
     (if \<not> (0 \<le> assigned \<and> assigned \<le> MAXIMUM_NANO_USD)
        then Inl (ValueError ''assigned cost must fit a nonnegative SQLite integer'')
      else rbind (budget_period_start period) (\<lambda>start.
        case scope_budget org start (storage_key scope) db of
          None \<Rightarrow> Inl (ValueError ''monthly budget does not exist for this scope and period'')
        | Some b \<Rightarrow>
            let atts = unknown_attempts (budget_id b) db;
                n = int (length atts);
                added = assigned * n
            in if n \<noteq> unknown_cost_attempts b
                 then Inl (RuntimeError ''monthly budget counters are inconsistent'')
               else if atts = [] then Inr (0, remaining_from_row db b, db)
               else if settled_nano_usd b + added > MAXIMUM_NANO_USD
                 then Inl (ValueError ''settled monthly gateway cost exceeds SQLite integer capacity'')
               else rbind (rfold (assign_charge (budget_id b) assigned) atts db) (\<lambda>db1.
                 rbind (reconcile_update (budget_id b) n added db1) (\<lambda>db2.
                 rbind (read_budget (budget_id b) db2) (\<lambda>fresh.
                   Inr (n, remaining_from_row db2 fresh, db2))))))"

section \<open>Setting a limit\<close>

definition historical_settlement :: "attempt_record \<Rightarrow> int option" where
  "historical_settlement a =
     (case a_budget_settled a of Some v \<Rightarrow> Some v
      | None \<Rightarrow> if a_budget_reserved a \<noteq> None then None else a_estimated_cost a)"

definition attempt_scope_predicate :: "budget_row \<Rightarrow> attempt_record \<Rightarrow> bool" where
  "attempt_scope_predicate b a \<longleftrightarrow>
     a_organization_id a = b_organization_id b \<and> a_period_start a = b_period_start b
     \<and> (case kind (b_scope b) of
          TEAM \<Rightarrow> True
        | IDENTITY \<Rightarrow> identity_id (b_scope b) = Some (a_identity_id a)
        | POOL \<Rightarrow> alias_id (b_scope b) = Some (a_alias_id a) \<and> pool_id (b_scope b) \<noteq> None
            \<and> (a_pool_id a = pool_id (b_scope b) \<or> a_revision_pool_id a = pool_id (b_scope b))
        | DEPLOYMENT \<Rightarrow> alias_id (b_scope b) = Some (a_alias_id a) \<and> pool_id (b_scope b) \<noteq> None
            \<and> a_pool_id a = pool_id (b_scope b)
            \<and> scope_deployment_id (b_scope b) = Some (a_deployment_id a))"

record backfill_totals =
  bf_reserved :: int
  bf_settled :: int
  bf_unknown :: int

definition backfill_charge :: "string \<Rightarrow> attempt_record \<Rightarrow> charge_row" where
  "backfill_charge bid a =
     (let settled = historical_settlement a
      in \<lparr>c_budget_id = bid, c_attempt_id = a_attempt_id a,
          c_reserved = (if settled = None then a_budget_reserved a else None), c_settled = settled\<rparr>)"

definition backfill_one :: "string \<Rightarrow> attempt_record \<Rightarrow> backfill_totals \<times> budget_db \<Rightarrow>
    py_error + (backfill_totals \<times> budget_db)" where
  "backfill_one bid a = (\<lambda>(tot, db).
     let c = backfill_charge bid a;
         tot' = \<lparr>bf_reserved = bf_reserved tot + or0 (c_reserved c),
                 bf_settled = bf_settled tot + or0 (c_settled c),
                 bf_unknown = bf_unknown tot + (if unknown_charge c then 1 else 0)\<rparr>
     in if bf_reserved tot' > MAXIMUM_NANO_USD \<or> bf_settled tot' > MAXIMUM_NANO_USD
          then Inl (ValueError ''historical monthly gateway cost exceeds SQLite integer capacity'')
        else rbind (insert_charge c db) (\<lambda>db'. Inr (tot', db')))"

definition backfill_budget :: "string \<Rightarrow> budget_db \<Rightarrow> py_error + budget_db" where
  "backfill_budget bid db =
     (case find (\<lambda>b. budget_id b = bid) (budgets db) of
        None \<Rightarrow> Inl (RuntimeError ''monthly budget disappeared before historical backfill'')
      | Some b \<Rightarrow>
          rbind (rfold (backfill_one bid)
                  (sort_key a_attempt_id (filter (attempt_scope_predicate b) (attempts db)))
                  (\<lparr>bf_reserved = 0, bf_settled = 0, bf_unknown = 0\<rparr>, db))
            (\<lambda>(tot, db1). Inr (update_budget bid
               (\<lambda>b. b\<lparr>reserved_nano_usd := bf_reserved tot, settled_nano_usd := bf_settled tot,
                      unknown_cost_attempts := bf_unknown tot\<rparr>) db1)))"

definition active_budget_revision :: "string \<Rightarrow> string \<Rightarrow> budget_db \<Rightarrow> py_error + budget_alias_revision" where
  "active_budget_revision org alias db =
     (case find (\<lambda>(o', a', active, _). o' = org \<and> a' = alias \<and> active) (aliases db) of
        Some (_, _, _, Some r) \<Rightarrow> Inr r
      | _ \<Rightarrow> Inl (ValueError ''budget pool requires an active direct alias revision''))"

definition require_scope_authority :: "string \<Rightarrow> budget_scope \<Rightarrow> budget_db \<Rightarrow> py_error + unit" where
  "require_scope_authority org scope db =
     (if (org, True) \<notin> set (organizations db)
        then Inl (ValueError ''budget organization is not active'')
      else if \<exists>i \<in> set_option (identity_id scope). (org, i, True) \<notin> set (identities db)
        then Inl (ValueError ''budget identity is not active'')
      else if \<exists>a \<in> set_option (alias_id scope).
           \<not> list_ex (\<lambda>(o', a', active, _). o' = org \<and> a' = a \<and> active) (aliases db)
        then Inl (ValueError ''budget alias is not active'')
      else Inr ())"

text \<open>
  \<open>_prepare_pool_scope\<close> runs before the transaction; \<open>reachable_target\<close> stands for the check of
  the pinned catalog file, which a revision whose own pool is the target skips.
\<close>

definition prepare_pool_scope ::
    "(budget_alias_revision \<Rightarrow> string \<Rightarrow> string option \<Rightarrow> py_error + unit) \<Rightarrow> string \<Rightarrow> budget_scope \<Rightarrow>
     budget_db \<Rightarrow> py_error + budget_alias_revision option" where
  "prepare_pool_scope reachable_target org scope db =
     (case (pool_id scope, alias_id scope) of
        (Some pool, Some alias) \<Rightarrow>
          rbind (active_budget_revision org alias db) (\<lambda>r.
            if revision_pool_id r = pool \<and> scope_deployment_id scope = None then Inr (Some r)
            else rbind (reachable_target r pool (scope_deployment_id scope)) (\<lambda>_. Inr (Some r)))
      | _ \<Rightarrow> Inr None)"

definition revision_fence :: "string \<Rightarrow> budget_scope \<Rightarrow> budget_alias_revision option \<Rightarrow> budget_db \<Rightarrow>
    py_error + unit" where
  "revision_fence org scope revision db =
     (case (revision, alias_id scope) of
        (Some r, Some alias) \<Rightarrow>
          rbind (active_budget_revision org alias db) (\<lambda>current.
            if current \<noteq> r then Inl (ValueError ''budget alias revision changed; reload its scope and retry'')
            else Inr ())
      | _ \<Rightarrow> Inr ())"

definition insert_budget :: "budget_row \<Rightarrow> budget_db \<Rightarrow> py_error + budget_db" where
  "insert_budget b db =
     (if budget_id b \<in> set (map budget_id (budgets db))
        then Inl (IntegrityError ''UNIQUE constraint failed: gateway_monthly_budgets.budget_id'')
      else if \<exists>b' \<in> set (budgets db). b_organization_id b' = b_organization_id b
          \<and> b_period_start b' = b_period_start b \<and> b_scope_key b' = b_scope_key b
        then Inl (IntegrityError ''UNIQUE constraint failed: gateway_monthly_budgets.scope_key'')
      else Inr (db\<lparr>budgets := budgets db @ [b]\<rparr>))"

text \<open>The keyword arguments of \<open>set_limit\<close>, with the clock reading.\<close>

record set_limit_args =
  sl_organization_id :: string
  sl_period :: string
  sl_scope :: budget_scope
  sl_limit :: int
  sl_replace :: bool
  sl_strict :: bool
  sl_now :: string

definition new_budget :: "string \<Rightarrow> string \<Rightarrow> string \<Rightarrow> set_limit_args \<Rightarrow> budget_row" where
  "new_budget bid start key a =
     \<lparr>budget_id = bid, b_organization_id = sl_organization_id a, b_period_start = start,
      b_scope = sl_scope a, b_scope_key = key, limit_nano_usd = sl_limit a,
      strict_unknown_cost = sl_strict a, reserved_nano_usd = 0, settled_nano_usd = 0,
      unknown_cost_attempts = 0, created_at = sl_now a, updated_at = sl_now a\<rparr>"

definition set_limit_transaction ::
    "string \<Rightarrow> string \<Rightarrow> string \<Rightarrow> budget_alias_revision option \<Rightarrow> set_limit_args \<Rightarrow> budget_db \<Rightarrow>
     py_error + (bool \<times> budget_row \<times> budget_db)" where
  "set_limit_transaction bid start key revision a db =
     rbind (require_scope_authority (sl_organization_id a) (sl_scope a) db) (\<lambda>_.
     rbind (revision_fence (sl_organization_id a) (sl_scope a) revision db) (\<lambda>_.
     case scope_budget (sl_organization_id a) start key db of
       Some b \<Rightarrow>
         if limit_nano_usd b = sl_limit a \<and> strict_unknown_cost b = sl_strict a then
           rbind (read_budget bid db) (\<lambda>limit. Inr (False, limit, db))
         else if \<not> sl_replace a
           then Inl (ValueError ''monthly budget exists with another limit; pass --replace'')
         else
           let db1 = update_budget bid (\<lambda>b. b\<lparr>limit_nano_usd := sl_limit a,
                       strict_unknown_cost := sl_strict a, updated_at := sl_now a\<rparr>) db
           in rbind (read_budget bid db1) (\<lambda>limit. Inr (True, limit, db1))
     | None \<Rightarrow>
         rbind (insert_budget (new_budget bid start key a) db) (\<lambda>db1.
         rbind (backfill_budget bid db1) (\<lambda>db2.
         rbind (read_budget bid db2) (\<lambda>limit. Inr (True, limit, db2))))))"

definition set_limit ::
    "(budget_scope \<Rightarrow> string) \<Rightarrow> (string \<Rightarrow> string \<Rightarrow> string \<Rightarrow> string) \<Rightarrow>
     (budget_alias_revision \<Rightarrow> string \<Rightarrow> string option \<Rightarrow> py_error + unit) \<Rightarrow>
     set_limit_args \<Rightarrow> budget_db \<Rightarrow> py_error + (bool \<times> budget_row \<times> budget_db)" where
  "set_limit storage_key make_budget_id reachable_target a db =
     (if \<not> (0 \<le> sl_limit a \<and> sl_limit a \<le> MAXIMUM_NANO_USD)
        then Inl (ValueError ''budget limit must fit a nonnegative SQLite integer'')
      else rbind (budget_period_start (sl_period a)) (\<lambda>start.
        let key = storage_key (sl_scope a); bid = make_budget_id (sl_organization_id a) start key
        in rbind (prepare_pool_scope reachable_target (sl_organization_id a) (sl_scope a) db) (\<lambda>revision.
             set_limit_transaction bid start key revision a db)))"

end
