(* ===== verification/Start_Attempt.thy ===== *)
theory Start_Attempt
  imports Dispatch_Worker Service_Tiers Budgets
begin

text \<open>
  Selecting and reserving one dispatch of a request: \<open>_start_attempt\<close> of
  \<^verbatim>\<open>src/exp/runtime/gateway/native_accounting.py\<close>, with the failures of \<^verbatim>\<open>native_settlement.py\<close> and the pool skip of
  \<^verbatim>\<open>budget_continuation.py\<close>. The loop is one function per iteration and a fuelled iteration of it. What an iteration reads
  from outside (the request's liveness, clocks, the ledger's verdict, and what other threads did to the worker since the
  last iteration) is its \<open>walk_env\<close>; the registries are the worker of \<open>Dispatch_Worker\<close>. Recovery observations
  (\<open>record_departure\<close>, \<open>observe_reserved_attempt\<close>) decide nothing here and are left out.
\<close>

section \<open>Failures\<close>

definition plain_failure :: "gateway_failure_class \<Rightarrow> string \<Rightarrow> gateway_failure" where
  "plain_failure c msg =
     \<lparr>failure_class = c, safe_message = msg, retryable_same_deployment = False, failover_eligible = False,
      safe_details = [], rejected_parameter = None, provider_detail = None, failure_retry_after_seconds = None,
      customer_owned = False, refusal_reason = None, header_timeout = None\<rparr>"

definition budget_quota_failure :: gateway_failure where
  "budget_quota_failure = plain_failure QUOTA_EXCEEDED ''monthly gateway allocation is exhausted''"

definition all_routes_unavailable_failure :: gateway_failure where
  "all_routes_unavailable_failure = plain_failure PROVIDER_INTERNAL ''all exact-model deployments are unavailable''"

fun decimal :: "nat \<Rightarrow> string" where
  "decimal n = (if n < 10 then [digit_char (int n)] else decimal (n div 10) @ [digit_char (int n)])"

definition THROTTLED_RETRY_AFTER_SECONDS :: int where "THROTTLED_RETRY_AFTER_SECONDS = 5"

definition all_routes_throttled_failure :: "seconds \<Rightarrow> gateway_failure" where
  "all_routes_throttled_failure remaining_seconds =
     (let wait = max THROTTLED_RETRY_AFTER_SECONDS \<lceil>remaining_seconds\<rceil>
      in (plain_failure THROTTLED (''all exact-model deployments are inside a provider throttle window; retry in ''
            @ decimal (nat wait) @ ''s''))\<lparr>failure_retry_after_seconds := Some wait\<rparr>)"

definition DEADLINE_BEFORE_ANSWER_MESSAGE :: string where
  "DEADLINE_BEFORE_ANSWER_MESSAGE =
     ''the request reached the gateway''@ [CHR 0x27] @ ''s time limit before any provider finished answering; retry the request''"

definition interrupted_failure :: "bool \<Rightarrow> gateway_failure" where
  "interrupted_failure active =
     (if active then plain_failure TIMEOUT DEADLINE_BEFORE_ANSWER_MESSAGE
      else plain_failure CANCELLED ''gateway request was cancelled'')"

definition retry_limit_failure :: gateway_failure where
  "retry_limit_failure = (plain_failure INVALID_REQUEST
     ''The request exhausted gateway.retry attempt limits before producing an answer. Increase the requested limits and resend.'')
       \<lparr>rejected_parameter := Some ''gateway.retry''\<rparr>"

definition reservation_internal_failure :: gateway_failure where
  "reservation_internal_failure =
     plain_failure INTERNAL ''gateway could not reserve attempt accounting before dispatch''"

definition ledger_failure :: "gateway_failure \<Rightarrow> gateway_failure" where
  "ledger_failure f =
     (if customer_owned f \<and> failure_class f \<in> {PROVIDER_AUTHENTICATION, PROVIDER_QUOTA}
      then f\<lparr>failure_class := INVALID_REQUEST\<rparr> else f)"

text \<open>The JSON reply of an exhausted selection; an absent key is \<open>None\<close> or \<open>False\<close>.\<close>

record exhausted_payload =
  xp_failure_class :: string
  xp_safe_message :: string
  xp_customer_owned :: bool
  xp_rejected_parameter :: "string option"
  xp_provider_detail :: "string option"
  xp_refusal_reason :: "string option"
  xp_retry_after_seconds :: "int option"
  xp_known_unbilled :: bool

definition exhausted_attempt_payload :: "gateway_failure \<Rightarrow> bool \<Rightarrow> exhausted_payload" where
  "exhausted_attempt_payload f known_unbilled =
     \<lparr>xp_failure_class = failure_class_value (failure_class f), xp_safe_message = safe_message f,
      xp_customer_owned = customer_owned f, xp_rejected_parameter = rejected_parameter f,
      xp_provider_detail = provider_detail f, xp_refusal_reason = map_option refusal_reason_value (refusal_reason f),
      xp_retry_after_seconds = failure_retry_after_seconds f,
      xp_known_unbilled = (known_unbilled \<and> failure_class f = THROTTLED)\<rparr>"

section \<open>The request and its environment\<close>

text \<open>Of the request and its in-flight entry, the frozen facts a reservation prices and discloses with.\<close>

record attempt_request =
  rq_serving :: serving_request
  rq_maximum_output_tokens :: "int option"
  rq_output_token_reservation :: int
  rq_service_tier :: "string option"
  rq_reserved_input_tokens :: int
  rq_tier_forwarded_by_depth :: "bool list"
  rq_reserved_output_tokens_by_depth :: "int list"
  rq_recovery_reason :: "string option"
  rq_no_paid_prework :: bool

definition require_output_bound :: "int option \<Rightarrow> int option list \<Rightarrow> py_error + int" where
  "require_output_bound maximum declared =
     (case [b. Some b \<leftarrow> maximum # declared] of
        [] \<Rightarrow> Inl (ProviderError ''This model route has no declared output or context limit.'')
      | b # bs \<Rightarrow> Inr (Min (set (b # bs))))"

definition worst_case_output_tokens :: "attempt_request \<Rightarrow> int option \<Rightarrow> exact_model_deployment \<Rightarrow> py_error + int" where
  "worst_case_output_tokens rq maximum d =
     (case rq_serving rq of
        Embeddings_Request \<Rightarrow> Inr 0
      | Images_Request _ _ _ \<Rightarrow> Inr 0
      | Video_Request _ _ \<Rightarrow> Inr 0
      | Speech_Request _ \<Rightarrow> Inr (or_default 0 (maximum_output_tokens d))
      | Transcription_Request _ \<Rightarrow> Inr (or_default 0 (maximum_output_tokens d))
      | Decision_Request \<Rightarrow> Inr (rq_output_token_reservation rq)
      | Gateway_Request _ _ \<Rightarrow> require_output_bound maximum [maximum_output_tokens d, context_window_tokens d])"

text \<open>What the ledger's \<open>start_attempt\<close> is called with, and how it answers.\<close>

record attempt_start =
  as_deployment :: exact_model_deployment
  as_ordinal :: int
  as_depth :: nat
  as_maximum_cost :: "int option"
  as_service_tier :: "service_tier_admission option"
  as_reserved_input :: int
  as_reserved_output :: int
  as_route_reason :: string
  as_fallback_reason :: "string option"
  as_dispatch_reason :: "string option"
  as_preferred :: "exact_model_deployment option"

datatype ledger_verdict =
    Ledger_Started string
  | Ledger_Budget budget_scope_kind "budget_refusal_binding option"
  | Ledger_Raised "gateway_failure option"

record walk_env =
  we_active :: bool
  we_monotonic :: seconds
  we_interference :: "worker \<Rightarrow> worker"
  we_wall :: py_datetime
  we_slot :: slot_env
  we_ledger :: "attempt_start \<Rightarrow> ledger_verdict"
  we_sticky_now :: seconds
  we_release_now :: seconds
  we_gate_raises :: bool

record accounting_counters =
  rung_admission_sheds :: int
  rung_saturated_overflows :: int
  rung_saturation_refusals :: int
  rung_rate_limit_sheds :: int
  rung_fresh_session_spills :: int
  throttles_surfaced :: int
  throttles_failed_over :: int
  throttle_backoff_redials :: int
  throttle_backoff_forced :: int

text \<open>The locals of one call that its loop does not change, and those it does.\<close>

record walk_context =
  wx_keys :: "health_key list"
  wx_clock :: "nat \<Rightarrow> seconds"
  wx_request :: attempt_request
  wx_ladder :: "nat list"
  wx_selected_first :: bool
  wx_redial_depth :: "nat option"
  wx_disposition :: "throttle_disposition_code option"
  wx_tool_search_round :: bool
  wx_reasoning_repair :: bool
  wx_current_depth :: "nat option"
  wx_failure :: "gateway_failure option"
  wx_recovery_host :: bool

record attempt_walk =
  aw_candidate :: "nat option"
  aw_policy_sheds :: "(nat \<times> string) list"
  aw_shed_records :: "(nat, rung_shed) dict"
  aw_forced_overflow :: bool
  aw_last_failure :: "gateway_failure option"
  aw_capacity_refused :: bool
  aw_failover :: "failover_pass option"
  aw_clock :: nat
  aw_entry :: inflight_request
  aw_service_tiers :: "(string, service_tier_admission) dict"
  aw_worker :: worker
  aw_counters :: accounting_counters

datatype start_reply =
    Reply_Started string nat "real option"
  | Reply_Exhausted exhausted_payload
  | Reply_Internal_Protocol
  | Reply_Public_Failure gateway_failure
  | Reply_Budget_Quota
  | Reply_Reservation_Failed
  | Reply_Unhandled py_error

text \<open>
  How an iteration ends: it goes on, breaks out of the loop (telling whether the request was still active), or leaves the
  function with a reply and the failure it closed the request with, if any.
\<close>

datatype walk_verdict =
    Go_On attempt_walk
  | Stop bool attempt_walk
  | Leave start_reply "gateway_failure option" attempt_walk


declare decimal.simps [simp del]

section \<open>Steps of the walk\<close>

fun shed_reason_value :: "rung_shed_reason \<Rightarrow> string" where
  "shed_reason_value Fair_Share_Shed = ''fair_share_shed''"
| "shed_reason_value Queue_Bound = ''queue_bound''"
| "shed_reason_value Rate_Limit = ''rate_limit''"
| "shed_reason_value Fresh_Session_Spill = ''fresh_session_spill''"

definition count_shed :: "rung_shed \<Rightarrow> accounting_counters \<Rightarrow> accounting_counters" where
  "count_shed s c =
     (let c1 = c\<lparr>rung_admission_sheds := rung_admission_sheds c + 1\<rparr>
      in if shed_reason_code s = Rate_Limit then c1\<lparr>rung_rate_limit_sheds := rung_rate_limit_sheds c + 1\<rparr>
         else if shed_reason_code s = Fresh_Session_Spill
           then c1\<lparr>rung_fresh_session_spills := rung_fresh_session_spills c + 1\<rparr>
         else c1)"

definition count_throttle_disposition :: "throttle_disposition_code \<Rightarrow> accounting_counters \<Rightarrow> accounting_counters" where
  "count_throttle_disposition d c =
     (case d of
        THROTTLE_SURFACED_CACHE_PRESERVING \<Rightarrow> c\<lparr>throttles_surfaced := throttles_surfaced c + 1\<rparr>
      | THROTTLE_BACKOFF \<Rightarrow> c\<lparr>throttle_backoff_redials := throttle_backoff_redials c + 1\<rparr>
      | THROTTLE_FAILOVER_COLD \<Rightarrow> c\<lparr>throttles_failed_over := throttles_failed_over c + 1\<rparr>)"

abbreviation walk_route :: "attempt_walk \<Rightarrow> gateway_route" where
  "walk_route w \<equiv> ir_route (aw_entry w)"

definition release_claim :: "walk_context \<Rightarrow> nat \<Rightarrow> attempt_walk \<Rightarrow> attempt_walk" where
  "release_claim wx c w =
     w\<lparr>aw_worker := (aw_worker w)\<lparr>wk_health := release_probe (key_at (wx_keys wx) c) (wk_health (aw_worker w))\<rparr>\<rparr>"

text \<open>\<open>sideways_claim\<close> on the walk.\<close>

definition spill :: "walk_context \<Rightarrow> nat \<Rightarrow> attempt_walk \<Rightarrow> attempt_walk" where
  "spill wx c w =
     (case sideways_claim (wx_clock wx) (wx_keys wx) (wx_ladder wx) c (aw_failover w) (aw_clock w)
             (wk_health (aw_worker w)) of
        (candidate, failover, n, h) \<Rightarrow>
          w\<lparr>aw_candidate := candidate, aw_failover := failover, aw_clock := n,
            aw_worker := (aw_worker w)\<lparr>wk_health := h\<rparr>\<rparr>)"

definition count_refusal :: "attempt_walk \<Rightarrow> attempt_walk" where
  "count_refusal w = w\<lparr>aw_counters := (aw_counters w)
     \<lparr>rung_saturation_refusals := rung_saturation_refusals (aw_counters w) + 1\<rparr>\<rparr>"

definition refuse_saturated :: "attempt_walk \<Rightarrow> attempt_walk" where
  "refuse_saturated w = count_refusal (w\<lparr>aw_last_failure := Some (lane_saturated_failure (ir_authorization (aw_entry w))),
     aw_capacity_refused := True\<rparr>)"

text \<open>Where an unclaimed ladder turns: the overflow rung of a first dial, or the forced pass of a failover.\<close>

definition choose_target :: "walk_context \<Rightarrow> attempt_walk \<Rightarrow> attempt_walk + nat \<times> attempt_walk" where
  "choose_target wx w =
     (case aw_candidate w of
        Some c \<Rightarrow> Inr (c, w)
      | None \<Rightarrow>
          if aw_policy_sheds w \<noteq> [] \<and> aw_last_failure w = None \<and> \<not> aw_forced_overflow w then
            (case (if wx_selected_first wx \<and> auth_priority_admission (ir_authorization (aw_entry w)) = 0 then None
                   else overflow_target (walk_route w) (aw_policy_sheds w) (aw_shed_records w)) of
               None \<Rightarrow> Inl (refuse_saturated w)
             | Some c \<Rightarrow> Inr (c, w\<lparr>aw_candidate := Some c, aw_forced_overflow := True\<rparr>))
          else
            (case forced_failover_target (wx_clock wx) (wx_keys wx) (aw_policy_sheds w) (aw_shed_records w)
                    (aw_failover w) (aw_clock w) (wk_health (aw_worker w)) of
               (target, failover, n, h) \<Rightarrow>
                 (let w1 = w\<lparr>aw_failover := failover, aw_clock := n, aw_worker := (aw_worker w)\<lparr>wk_health := h\<rparr>\<rparr>
                  in case target of
                       None \<Rightarrow>
                         Inl (case failover_refusal failover (ir_authorization (aw_entry w)) (aw_shed_records w) of
                                None \<Rightarrow> w1
                              | Some refusal \<Rightarrow> count_refusal (w1\<lparr>aw_last_failure := Some refusal\<rparr>))
                     | Some c \<Rightarrow> Inr (c, w1\<lparr>aw_candidate := Some c, aw_forced_overflow := True\<rparr>))))"

text \<open>A rung whose reservation was shed: kept and forced, refused, or left sideways.\<close>

definition shed_rung :: "walk_context \<Rightarrow> nat \<Rightarrow> rung_shed \<Rightarrow> attempt_walk \<Rightarrow> walk_verdict" where
  "shed_rung wx c s w =
     (let forced = (\<not> wx_selected_first wx
            \<and> (shed_fleet_refuse s
               \<or> (\<not> shed_fleet s
                  \<and> shed_keeps_rung (walk_route w) c (wx_redial_depth wx) (aw_last_failure w) (shed_reason_code s))));
          w1 = release_claim wx c (w\<lparr>aw_policy_sheds := aw_policy_sheds w @ [(c, shed_reason_value (shed_reason_code s))],
                 aw_shed_records := dset c s (aw_shed_records w), aw_forced_overflow := forced\<rparr>)
      in if forced \<and> \<not> (Some c = wx_redial_depth wx \<and> shed_reason_code s = Rate_Limit)
            \<and> overflow_target (walk_route w) [(c, shed_reason_value (shed_reason_code s))] [(c, s)] = None
         then Stop True (refuse_saturated w1)
         else if \<not> forced then Go_On (spill wx c w1)
         else Go_On w1)"

section \<open>The ledger's verdict\<close>

definition denied_destination_pool ::
    "budget_scope_kind \<Rightarrow> budget_refusal_binding option \<Rightarrow> execution_snapshot \<Rightarrow> nat \<Rightarrow> py_error + string option" where
  "denied_destination_pool scope_kind bd snap depth =
     rbind (stage_for_depth snap depth) (\<lambda>stage.
       let auth = snapshot_authorization snap
       in Inr (case bd of
            None \<Rightarrow> None
          | Some b \<Rightarrow>
              if scope_kind \<noteq> POOL \<or> kind (br_scope b) \<noteq> POOL \<or> br_application b \<noteq> Destination
                 \<or> br_request_id b \<noteq> auth_request_id auth \<or> br_organization_id b \<noteq> auth_organization_id auth
                 \<or> br_alias_revision_id b \<noteq> auth_alias_revision_id auth
                 \<or> pool_id (br_scope b) \<noteq> Some (stage_pool_id stage) \<or> stage_pool_id stage = snapshot_pool_id snap
              then None else Some (stage_pool_id stage)))"

text \<open>What every rejected reservation gives back: its slot and its claim on the circuit.\<close>

definition give_back :: "walk_context \<Rightarrow> walk_env \<Rightarrow> nat \<Rightarrow> string option \<Rightarrow> attempt_walk \<Rightarrow> attempt_walk" where
  "give_back wx env c ticket w =
     release_claim wx c
       (case ticket of
          None \<Rightarrow> w
        | Some t \<Rightarrow> w\<lparr>aw_worker := (aw_worker w)
            \<lparr>wk_loads := release_ticket t (we_release_now env) (we_gate_raises env) (wk_loads (aw_worker w))\<rparr>\<rparr>)"

text \<open>A rejected rung is left: forcing ends with it, and the next rung is claimed.\<close>

definition leave_rung :: "walk_context \<Rightarrow> nat \<Rightarrow> gateway_failure \<Rightarrow> attempt_walk \<Rightarrow> walk_verdict" where
  "leave_rung wx c f w = Go_On (spill wx c (w\<lparr>aw_last_failure := Some f, aw_forced_overflow := False\<rparr>))"

definition budget_rejected ::
    "walk_context \<Rightarrow> nat \<Rightarrow> budget_scope_kind \<Rightarrow> budget_refusal_binding option \<Rightarrow> attempt_walk \<Rightarrow> walk_verdict" where
  "budget_rejected wx c scope_kind bd w =
     (case denied_destination_pool scope_kind bd (snapshot (walk_route w)) c of
        Inl e \<Rightarrow> Leave (Reply_Unhandled e) None w
      | Inr (Some pool) \<Rightarrow>
          leave_rung wx c budget_quota_failure
            (w\<lparr>aw_entry := (aw_entry w)
                 \<lparr>ir_denied_destination_pools := List.insert pool (ir_denied_destination_pools (aw_entry w))\<rparr>\<rparr>)
      | Inr None \<Rightarrow>
          if scope_kind \<noteq> DEPLOYMENT then Leave Reply_Budget_Quota (Some budget_quota_failure) w
          else leave_rung wx c
            (if c = length (deployments (walk_route w)) - 1 then budget_quota_failure else all_routes_unavailable_failure) w)"

definition reservation_failed :: "gateway_failure option \<Rightarrow> attempt_walk \<Rightarrow> walk_verdict" where
  "reservation_failed f w =
     Leave Reply_Reservation_Failed (Some (case f of Some g \<Rightarrow> g | None \<Rightarrow> reservation_internal_failure)) w"

definition bump :: "nat \<Rightarrow> int list \<Rightarrow> int list" where
  "bump i xs = xs[i := xs ! i + 1]"

definition started_counters :: "walk_context \<Rightarrow> nat \<Rightarrow> bool \<Rightarrow> accounting_counters \<Rightarrow> accounting_counters" where
  "started_counters wx c forced k =
     (let backoff = (Some c = wx_redial_depth wx);
          k1 = (if wx_disposition wx = Some THROTTLE_FAILOVER_COLD then count_throttle_disposition THROTTLE_FAILOVER_COLD k
                else if backoff then count_throttle_disposition THROTTLE_BACKOFF k else k)
      in if forced \<and> \<not> backoff then k1\<lparr>rung_saturated_overflows := rung_saturated_overflows k1 + 1\<rparr>
         else if forced then k1\<lparr>throttle_backoff_forced := throttle_backoff_forced k1 + 1\<rparr>
         else k1)"

definition started_entry :: "walk_context \<Rightarrow> nat \<Rightarrow> string \<Rightarrow> inflight_request \<Rightarrow> inflight_request" where
  "started_entry wx c attempt_id e =
     e\<lparr>ir_attempt_counts := bump c (ir_attempt_counts e),
       ir_ordinary_attempt_counts :=
         (if wx_tool_search_round wx \<or> wx_reasoning_repair wx then ir_ordinary_attempt_counts e
          else bump c (ir_ordinary_attempt_counts e)),
       ir_throttle_redials :=
         (if Some c = wx_redial_depth wx then bump c (ir_throttle_redials e) else ir_throttle_redials e),
       ir_total_attempts := ir_total_attempts e + 1, ir_active_attempt_id := Some attempt_id,
       ir_attempt_depths := dset attempt_id c (ir_attempt_depths e)\<rparr>"

definition attempt_started ::
    "walk_context \<Rightarrow> walk_env \<Rightarrow> nat \<Rightarrow> exact_model_deployment \<Rightarrow> service_tier_admission option \<Rightarrow> string option \<Rightarrow> string
      \<Rightarrow> attempt_walk \<Rightarrow> walk_verdict" where
  "attempt_started wx env c d tier ticket attempt_id w =
     (let k = aw_worker w;
          loads = (case ticket of None \<Rightarrow> wk_loads k | Some t \<Rightarrow> bind t attempt_id (wk_loads k));
          sticky = (if wx_recovery_host wx then wk_sticky k
                    else bind_sticky_dispatch (aw_entry w) d (we_sticky_now env) (wk_sticky k))
      in Leave (Reply_Started attempt_id c (output_pace (ir_authorization (aw_entry w)) d loads)) None
           (w\<lparr>aw_worker := k\<lparr>wk_loads := loads, wk_sticky := sticky\<rparr>,
              aw_counters := started_counters wx c (aw_forced_overflow w) (aw_counters w),
              aw_entry := started_entry wx c attempt_id (aw_entry w),
              aw_service_tiers := (case tier of None \<Rightarrow> aw_service_tiers w
                | Some a \<Rightarrow> dset attempt_id a (aw_service_tiers w))\<rparr>))"


section \<open>Reserving a rung\<close>

text \<open>The deployment at the card of this instant, its tier admission and its worst-case output.\<close>

definition price_rung ::
    "walk_context \<Rightarrow> walk_env \<Rightarrow> nat \<Rightarrow> attempt_walk \<Rightarrow> py_error + exact_model_deployment \<times> service_tier_admission option \<times> int"
where
  "price_rung wx env c w =
     (let rq = wx_request wx;
          forwarded = rq_tier_forwarded_by_depth rq;
          frozen = rq_reserved_output_tokens_by_depth rq
      in rbind (priced_attempt (deployments (walk_route w) ! c) (rq_service_tier rq)
                  (c < length forwarded \<and> forwarded ! c) (we_wall env)) (\<lambda>(d, tier).
         rbind (if frozen = [] then Inr (rq_maximum_output_tokens rq)
                else if c < length frozen then Inr (Some (frozen ! c))
                else Inl (IndexError ''tuple index out of range'')) (\<lambda>maximum.
         rbind (worst_case_output_tokens rq maximum d) (\<lambda>n_out. Inr (d, tier, n_out)))))"

definition disclosed_reason :: "attempt_request \<Rightarrow> nat \<Rightarrow> int \<Rightarrow> string option \<Rightarrow> string option" where
  "disclosed_reason rq c total_attempts reason =
     (if c = 0 \<and> total_attempts = 0 \<and> rq_recovery_reason rq \<noteq> None
         \<and> reason \<in> {None, Some ''affinity'', Some ''affinity_sticky''}
      then rq_recovery_reason rq else reason)"

text \<open>The arguments of the ledger call; evaluating them may raise, inside the same \<open>try\<close>.\<close>

definition start_arguments ::
    "walk_context \<Rightarrow> walk_env \<Rightarrow> nat \<Rightarrow> exact_model_deployment \<Rightarrow> service_tier_admission option \<Rightarrow> int
      \<Rightarrow> string option \<times> exact_model_deployment option \<Rightarrow> attempt_walk \<Rightarrow> py_error + attempt_start" where
  "start_arguments wx env c d tier n_out disclosed w =
     (let rq = wx_request wx; route = walk_route w
      in rbind (tier_ceiling (rq_serving rq) d tier (rq_reserved_input_tokens rq) n_out) (\<lambda>ceiling.
         rbind (preferred_priced_at (snd disclosed) (we_wall env)) (\<lambda>preferred.
           Inr \<lparr>as_deployment = d, as_ordinal = ir_total_attempts (aw_entry w), as_depth = c, as_maximum_cost = ceiling,
                as_service_tier = tier, as_reserved_input = rq_reserved_input_tokens rq, as_reserved_output = n_out,
                as_route_reason = attempt_route_reason route (deployments route ! c),
                as_fallback_reason = rule_fallback_reason route c (wx_current_depth wx) (wx_failure wx),
                as_dispatch_reason = disclosed_reason rq c (ir_total_attempts (aw_entry w)) (fst disclosed),
                as_preferred = preferred\<rparr>)))"

definition disclose ::
    "walk_context \<Rightarrow> nat \<Rightarrow> attempt_walk \<Rightarrow> py_error + (string option \<times> exact_model_deployment option) \<times> nat" where
  "disclose wx c w =
     rbind (dispatch_disclosure (walk_route w) c (aw_policy_sheds w) (aw_forced_overflow w)
              (ir_sticky_preferred (aw_entry w)) (Some c = wx_redial_depth wx)) (\<lambda>disclosed.
       if wx_tool_search_round wx then Inr ((Some ''tool_search_round'', snd disclosed), aw_clock w)
       else if Some c \<noteq> wx_current_depth wx then
         (let ladder = (case aw_failover w of None \<Rightarrow> wx_ladder wx | Some f \<Rightarrow> fo_untried f)
          in Inr (ejection_disclosure (wk_health (aw_worker w)) (wx_keys wx) (walk_route w) ladder c (wx_clock wx)
                    (aw_clock w) disclosed, aw_clock w + length ladder))
       else Inr (disclosed, aw_clock w))"

definition start_rung ::
    "walk_context \<Rightarrow> walk_env \<Rightarrow> nat \<Rightarrow> exact_model_deployment \<Rightarrow> service_tier_admission option \<Rightarrow> int \<Rightarrow> string option
      \<Rightarrow> attempt_walk \<Rightarrow> walk_verdict" where
  "start_rung wx env c d tier n_out ticket w =
     (case disclose wx c w of
        Inl e \<Rightarrow> Leave (Reply_Unhandled e) None w
      | Inr (disclosed, n) \<Rightarrow>
          (let w1 = w\<lparr>aw_clock := n\<rparr>
           in case start_arguments wx env c d tier n_out disclosed w1 of
                Inl e \<Rightarrow> reservation_failed None (give_back wx env c ticket w1)
              | Inr args \<Rightarrow>
                  (case we_ledger env args of
                     Ledger_Started attempt_id \<Rightarrow> attempt_started wx env c d tier ticket attempt_id w1
                   | Ledger_Budget scope_kind bd \<Rightarrow> budget_rejected wx c scope_kind bd (give_back wx env c ticket w1)
                   | Ledger_Raised f \<Rightarrow> reservation_failed f (give_back wx env c ticket w1))))"

definition reserve_slot :: "walk_context \<Rightarrow> walk_env \<Rightarrow> nat \<Rightarrow> exact_model_deployment \<Rightarrow> int \<Rightarrow> attempt_walk
    \<Rightarrow> py_error + rung_slot \<times> attempt_walk" where
  "reserve_slot wx env c d reserved w =
     (let k = aw_worker w; forced = aw_forced_overflow w
      in rbind (reserve_rung_slot (we_slot env) (aw_entry w) d reserved forced (forced \<and> Some c = wx_redial_depth wx)
                  (case aw_failover w of None \<Rightarrow> False | Some f \<Rightarrow> fo_forcing f) (wk_loads k, wk_sticky k))
           (\<lambda>(slot, loads, sticky).
             Inr (slot, w\<lparr>aw_worker := k\<lparr>wk_loads := loads, wk_sticky := sticky\<rparr>,
                          aw_counters := (case slot of Slot_Shed s \<Rightarrow> count_shed s (aw_counters w) | _ \<Rightarrow> aw_counters w)\<rparr>)))"

definition visit_rung :: "walk_context \<Rightarrow> walk_env \<Rightarrow> nat \<Rightarrow> attempt_walk \<Rightarrow> walk_verdict" where
  "visit_rung wx env c w =
     (case stage_for_depth (snapshot (walk_route w)) c of
        Inl e \<Rightarrow> Leave (Reply_Unhandled e) None w
      | Inr stage \<Rightarrow>
          if stage_pool_id stage \<in> set (ir_denied_destination_pools (aw_entry w))
            then Go_On (spill wx c (release_claim wx c w))
          else if \<not> permits (ir_attempt_policy (aw_entry w)) (ir_total_attempts (aw_entry w))
                      (ir_attempt_counts (aw_entry w) ! c)
            then Stop True (release_claim wx c (w\<lparr>aw_last_failure :=
                   (case aw_last_failure w of Some f \<Rightarrow> Some f | None \<Rightarrow> Some retry_limit_failure)\<rparr>))
          else
            (case price_rung wx env c w of
               Inl e \<Rightarrow> Leave (Reply_Unhandled e) None w
             | Inr (d, tier, n_out) \<Rightarrow>
                 (case reserve_slot wx env c d (rq_reserved_input_tokens (wx_request wx) + n_out) w of
                    Inl e \<Rightarrow> Leave (Reply_Unhandled e) None w
                  | Inr (Slot_Shed s, w1) \<Rightarrow> shed_rung wx c s w1
                  | Inr (Slot_Ticket t, w1) \<Rightarrow> start_rung wx env c d tier n_out (Some t) w1
                  | Inr (No_Policy, w1) \<Rightarrow> start_rung wx env c d tier n_out None w1)))"

section \<open>The loop\<close>

definition walk_step :: "walk_context \<Rightarrow> walk_env \<Rightarrow> attempt_walk \<Rightarrow> walk_verdict" where
  "walk_step wx env w0 =
     (let w = w0\<lparr>aw_worker := we_interference env (aw_worker w0)\<rparr>
      in if \<not> we_active env \<or> we_monotonic env \<ge> ir_deadline (aw_entry w) then
           Stop (we_active env)
             ((case aw_candidate w of None \<Rightarrow> w | Some c \<Rightarrow> release_claim wx c w)
                \<lparr>aw_last_failure := Some (interrupted_failure (we_active env))\<rparr>)
         else (case choose_target wx w of
                 Inl w1 \<Rightarrow> Stop True w1
               | Inr (c, w1) \<Rightarrow> visit_rung wx env c w1))"

text \<open>\<open>None\<close> is a loop that has not ended within the fuel.\<close>

fun run_walk :: "nat \<Rightarrow> walk_context \<Rightarrow> (nat \<Rightarrow> walk_env) \<Rightarrow> nat \<Rightarrow> attempt_walk \<Rightarrow> walk_verdict option" where
  "run_walk 0 wx envs i w = None"
| "run_walk (Suc fuel) wx envs i w =
     (case walk_step wx (envs i) w of Go_On w1 \<Rightarrow> run_walk fuel wx envs (Suc i) w1 | v \<Rightarrow> Some v)"


section \<open>The call\<close>

record start_argument =
  st_attempt_ordinal :: int
  st_failure :: "gateway_failure option"
  st_current_depth :: "nat option"
  st_throttle_backoff :: bool
  st_tool_search_round :: bool
  st_reasoning_repair :: bool

text \<open>
  One call: its parsed argument, the request, and what it reads outside the loop. \<open>sc_certified\<close> is the answer of
  \<open>finish_request_quietly\<close>, \<open>sc_authority\<close> what the model-chain receipt check raises.
\<close>

record start_call =
  sc_argument :: start_argument
  sc_request :: attempt_request
  sc_recovery_host :: bool
  sc_clock :: "nat \<Rightarrow> seconds"
  sc_pending_abandon :: "gateway_failure option"
  sc_authority :: "py_error option"
  sc_monotonic :: seconds
  sc_loads_now :: seconds
  sc_envs :: "nat \<Rightarrow> walk_env"
  sc_remaining_now :: seconds
  sc_certified :: bool
  sc_abandoned :: bool

definition health_keys :: "inflight_request \<Rightarrow> health_key list" where
  "health_keys e = map (deployment_health_key (auth_catalog_sha256 (ir_authorization e))) (deployments (ir_route e))"

definition initial_walk ::
    "nat option \<Rightarrow> gateway_failure option \<Rightarrow> failover_pass option \<Rightarrow> nat \<Rightarrow> inflight_request
      \<Rightarrow> (string, service_tier_admission) dict \<Rightarrow> worker \<Rightarrow> accounting_counters \<Rightarrow> attempt_walk" where
  "initial_walk c last_failure failover n e tiers k counters =
     \<lparr>aw_candidate = c, aw_policy_sheds = [], aw_shed_records = [], aw_forced_overflow = False,
      aw_last_failure = last_failure, aw_capacity_refused = False, aw_failover = failover, aw_clock = n, aw_entry = e,
      aw_service_tiers = tiers, aw_worker = k, aw_counters = counters\<rparr>"

text \<open>The successor of a failed dispatch, with the throttle disposition it discloses.\<close>

definition begin_failover ::
    "start_call \<Rightarrow> inflight_request \<Rightarrow> (string, service_tier_admission) dict \<Rightarrow> gateway_failure \<Rightarrow> nat \<Rightarrow> worker
      \<Rightarrow> accounting_counters \<Rightarrow> py_error + walk_context \<times> attempt_walk" where
  "begin_failover sc e tiers f depth k counters =
     (let arg = sc_argument sc; keys = health_keys e
      in rbind (failed_dispatch_candidate (sc_clock sc) keys (wk_loads k) (sc_loads_now sc) e f depth
                  (st_throttle_backoff arg) 0 (wk_health k)) (\<lambda>((c, disposition), n, h).
           let w = initial_walk c (Some f) (failover_begin e (Some f) (Some depth)) n e tiers (k\<lparr>wk_health := h\<rparr>)
                     (if disposition = Some THROTTLE_SURFACED_CACHE_PRESERVING
                      then count_throttle_disposition THROTTLE_SURFACED_CACHE_PRESERVING counters else counters)
           in Inr (\<lparr>wx_keys = keys, wx_clock = sc_clock sc, wx_request = sc_request sc,
                    wx_ladder = (if selected_first_dial e then [0] else eligible_ladder (ir_route e) (Some f)),
                    wx_selected_first = selected_first_dial e,
                    wx_redial_depth = (if disposition = Some THROTTLE_BACKOFF then Some depth else None),
                    wx_disposition = disposition, wx_tool_search_round = False,
                    wx_reasoning_repair = st_reasoning_repair arg, wx_current_depth = Some depth, wx_failure = Some f,
                    wx_recovery_host = sc_recovery_host sc\<rparr>,
                   w\<lparr>aw_policy_sheds := (if disposition = Some THROTTLE_FAILOVER_COLD
                       then [(depth, ''throttle_failover_cold'')] else [])\<rparr>)))"

text \<open>Every other dial: the first one, a tool-search round or a reasoning repair.\<close>

definition begin_dial ::
    "start_call \<Rightarrow> inflight_request \<Rightarrow> (string, service_tier_admission) dict \<Rightarrow> worker \<Rightarrow> accounting_counters
      \<Rightarrow> walk_context \<times> attempt_walk" where
  "begin_dial sc e tiers k counters =
     (let arg = sc_argument sc; keys = health_keys e; depth = st_current_depth arg; clock = sc_clock sc;
          repair = (st_reasoning_repair arg \<and> depth \<noteq> None);
          tool = (st_tool_search_round arg \<and> depth \<noteq> None);
          selected = selected_first_dial e;
          ladder = (if repair then [the depth] else if selected then [0] else eligible_ladder (ir_route e) (st_failure arg))
      in case (if selected then
                 (case claim (key_at keys 0) (clock 0) (wk_health k) of (ok, h) \<Rightarrow> (if ok then Some 0 else None, 1, h))
               else claim_route_from clock keys (if tool \<or> repair then the depth else 0) (Some ladder) 0 (wk_health k)) of
           (c, n, h) \<Rightarrow>
             (\<lparr>wx_keys = keys, wx_clock = clock, wx_request = sc_request sc, wx_ladder = ladder,
               wx_selected_first = selected, wx_redial_depth = None, wx_disposition = None, wx_tool_search_round = tool,
               wx_reasoning_repair = repair, wx_current_depth = depth, wx_failure = st_failure arg,
               wx_recovery_host = sc_recovery_host sc\<rparr>,
              initial_walk c None None n e tiers (k\<lparr>wk_health := h\<rparr>) counters))"

definition begin_walk ::
    "start_call \<Rightarrow> inflight_request \<Rightarrow> (string, service_tier_admission) dict \<Rightarrow> worker \<Rightarrow> accounting_counters
      \<Rightarrow> py_error + walk_context \<times> attempt_walk" where
  "begin_walk sc e tiers k counters =
     (case (st_failure (sc_argument sc), st_current_depth (sc_argument sc)) of
        (Some f, Some depth) \<Rightarrow> begin_failover sc e tiers f depth k counters
      | _ \<Rightarrow> Inr (begin_dial sc e tiers k counters))"

text \<open>
  The reply, the failure the request was closed with (and whether its closing asks for a no-effects certificate), and
  whether the entry was dropped.
\<close>

record start_outcome =
  so_reply :: start_reply
  so_finished :: "(gateway_failure \<times> bool) option"
  so_dropped :: bool
  so_walk :: "attempt_walk option"

definition exhaustion :: "start_call \<Rightarrow> walk_context \<Rightarrow> attempt_walk \<Rightarrow> gateway_failure" where
  "exhaustion sc wx w =
     (case aw_last_failure w of
        Some f \<Rightarrow> f
      | None \<Rightarrow>
          (case throttled_remaining_seconds (wk_health (aw_worker w)) (wx_keys wx) (sc_remaining_now sc) of
             Some wait \<Rightarrow> all_routes_throttled_failure wait
           | None \<Rightarrow> all_routes_unavailable_failure))"

definition stopped_outcome :: "start_call \<Rightarrow> walk_context \<Rightarrow> bool \<Rightarrow> attempt_walk \<Rightarrow> start_outcome" where
  "stopped_outcome sc wx active w =
     (let f = exhaustion sc wx w
      in \<lparr>so_reply = Reply_Exhausted (exhausted_attempt_payload f (aw_capacity_refused w \<and> active \<and> sc_certified sc)),
          so_finished = (if active then Some (ledger_failure f,
              aw_capacity_refused w \<and> rq_no_paid_prework (sc_request sc)) else None),
          so_dropped = (active \<or> \<not> sc_abandoned sc), so_walk = Some w\<rparr>)"

text \<open>\<open>run_walk\<close> ends with \<open>Stop\<close> or \<open>Leave\<close> only.\<close>

fun walk_outcome :: "start_call \<Rightarrow> walk_context \<Rightarrow> walk_verdict \<Rightarrow> start_outcome" where
  "walk_outcome sc wx (Stop active w) = stopped_outcome sc wx active w"
| "walk_outcome sc wx (Leave reply fin w) =
     \<lparr>so_reply = reply, so_finished = map_option (\<lambda>f. (f, False)) fin, so_dropped = (fin \<noteq> None), so_walk = Some w\<rparr>"
| "walk_outcome sc wx (Go_On w) = stopped_outcome sc wx True w"

definition early_outcome :: "start_reply \<Rightarrow> gateway_failure option \<Rightarrow> start_outcome" where
  "early_outcome reply fin = \<lparr>so_reply = reply, so_finished = map_option (\<lambda>f. (f, False)) fin, so_dropped = (fin \<noteq> None),
     so_walk = None\<rparr>"

definition start_attempt ::
    "nat \<Rightarrow> start_call \<Rightarrow> inflight_request \<Rightarrow> (string, service_tier_admission) dict \<Rightarrow> worker \<Rightarrow> accounting_counters
      \<Rightarrow> start_outcome option" where
  "start_attempt fuel sc e tiers k counters =
     (if st_attempt_ordinal (sc_argument sc) \<noteq> ir_total_attempts e then Some (early_outcome Reply_Internal_Protocol None)
      else case sc_pending_abandon sc of
        Some f \<Rightarrow> Some (early_outcome (Reply_Exhausted (exhausted_attempt_payload f False)) None)
      | None \<Rightarrow>
          (case sc_authority sc of
             Some err \<Rightarrow> Some (early_outcome (Reply_Unhandled err) None)
           | None \<Rightarrow>
               if sc_monotonic sc \<ge> ir_deadline e
               then Some (early_outcome (Reply_Public_Failure (interrupted_failure True)) (Some (interrupted_failure True)))
               else (case begin_walk sc e tiers k counters of
                       Inl err \<Rightarrow> Some (early_outcome (Reply_Unhandled err) None)
                     | Inr (wx, w) \<Rightarrow> map_option (walk_outcome sc wx) (run_walk fuel wx (sc_envs sc) 0 w))))"

end
