(* ===== verification/Attempt_Walk.thy ===== *)
theory Attempt_Walk
  imports Start_Attempt
begin

text \<open>
  What the selection loop of \<open>Start_Attempt\<close> guarantees: it ends within a number of iterations that depends only on the
  length of the route, whatever the registries, the ledger and other requests do in between; it leaves no slot behind
  without a started attempt; and an attempt it starts was permitted by every gate.
\<close>

section \<open>Forced reservations\<close>

lemma fast_adjusted_fields [simp]:
  "ra_force (fast_adjusted a) = ra_force a" "ra_rate_retry (fast_adjusted a) = ra_rate_retry a"
  "ra_hard_bound (fast_adjusted a) = ra_hard_bound a"
  by (simp_all add: fast_adjusted_def)

lemma decide_shed_cases:
  assumes "decide win now a r = (Some s, r')"
  obtains (split) "split_shed r a = Some s"
  | (hard) "hard_shed r (fast_adjusted a) = Some s"
  | (soft) "\<not> ra_force a \<or> ra_rate_retry a"
      "shed_reason win r (ra_organization_id (fast_adjusted a)) now (reserve_shed_args r (fast_adjusted a)) = (Some s, r')"
proof (cases "split_shed r a")
  case None
  show thesis
  proof (cases "hard_shed r (fast_adjusted a)")
    case None
    with \<open>split_shed r a = None\<close> assms soft show thesis by (simp add: decide_def Let_def split: if_splits)
  qed (use None assms hard in \<open>simp add: decide_def Let_def\<close>)
qed (use assms split in \<open>simp add: decide_def\<close>)

lemma shed_reason_cases:
  assumes "shed_reason win r i now a = (Some s, r')"
  obtains (bound) "bound_shed a = Some s"
  | (rate) q where "rate_shed r' q a = Some s"
  | (fair) "s = plain_shed Fair_Share_Shed"
proof (cases "bound_shed a")
  case None
  obtain q r1 where w: "working_rpm r (sa_requests_per_minute a) now = (q, r1)" by fastforce
  show thesis
  proof (cases "rate_shed r1 q a")
    case None
    with \<open>bound_shed a = None\<close> w assms fair show thesis
      by (simp add: shed_reason_def fairness_shed_def split: option.splits if_splits)
  qed (use None w assms rate in \<open>simp add: shed_reason_def\<close>)
qed (use assms bound in \<open>simp add: shed_reason_def\<close>)

text \<open>A forced reservation is shed only by a hard limit.\<close>

lemma decide_forced_shed:
  assumes "decide win now a r = (Some s, r')" and "ra_force a" and "\<not> ra_rate_retry a"
  shows "shed_overflow_ceiling s \<or> (ra_hard_bound a \<and> shed_reason_code s = Queue_Bound)"
  using assms(1)
proof (cases rule: decide_shed_cases)
  case split
  then show ?thesis using assms(2) by (auto simp: split_shed_def Let_def ceiling_shed_def split: option.splits if_splits)
next
  case hard
  then show ?thesis by (auto simp: hard_shed_def ceiling_shed_def split: if_splits)
qed (use assms in simp)

text \<open>A rate retry skips the rate windows.\<close>

lemma decide_retry_shed:
  assumes "decide win now a r = (Some s, r')" and "ra_rate_retry a"
  shows "shed_reason_code s \<noteq> Rate_Limit"
  using assms(1)
proof (cases rule: decide_shed_cases)
  case soft
  from soft(2) show ?thesis
  proof (cases rule: shed_reason_cases)
    case (rate q)
    then show ?thesis using assms(2) by (simp add: rate_shed_def reserve_shed_args_def)
  qed (use other_shed_codes(3) in fastforce)+
qed (simp_all add: other_shed_codes(1,2))

text \<open>The worker's own sheds carry no fleet mark.\<close>

lemma decide_shed_local:
  assumes "decide win now a r = (Some s, r')"
  shows "\<not> shed_fleet s \<and> \<not> shed_fleet_refuse s"
  using assms
proof (cases rule: decide_shed_cases)
  case split
  then show ?thesis by (auto simp: split_shed_def Let_def ceiling_shed_def plain_shed_def split: option.splits if_splits)
next
  case hard
  then show ?thesis by (auto simp: hard_shed_def ceiling_shed_def plain_shed_def split: if_splits)
next
  case soft
  from soft(2) show ?thesis
    by (cases rule: shed_reason_cases)
      (auto simp: bound_shed_def rate_shed_def plain_shed_def split: option.splits if_splits)
qed

lemma reserve_shed_decided:
  assumes "reserve t now a rr = (Shed s, rr')"
  obtains win r r' where "decide win now a r = (Some s, r')"
  using assms by (auto simp: reserve_def Let_def split: prod.splits option.splits)

lemma slot_shed_cases:
  assumes "reserve_rung_slot env entry d k force retry pass (loads, sticky) = Inr (Slot_Shed s, loads', sticky')"
  obtains (local) s0 win now r r' fresh warm where
      "decide win now (slot_args loads entry d k force retry pass fresh warm) r = (Some s0, r')"
      "Slot_Shed s = tag_default_bound d (Slot_Shed s0)"
  | (fleet) "shed_fleet s" "shed_overflow_ceiling s" "shed_fleet_refuse s \<longrightarrow> shed_reason_code s = Queue_Bound"
  using assms
proof (cases rule: reserve_rung_slot_cases)
  case (bounded fresh warm result loads1 slot1)
  show thesis
  proof (cases result)
    case (Shed s0)
    then obtain win r r' where d: "decide win (se_reserve_now env) (slot_args loads entry d k force retry pass fresh warm) r
        = (Some s0, r')"
      using bounded(3) reserve_shed_decided by metis
    show thesis using bounded(4,5) Shed by (intro local [OF d]) (simp add: fleet_slot_def)
  next
    case (Ticket t)
    then obtain p reason where "slot1 = Slot_Shed (fleet_shed_of p reason)"
      using bounded(4,5) by (auto simp: fleet_slot_def tag_default_bound_def split: option.splits prod.splits)
    then show thesis using bounded(5)
      by (intro fleet) (auto simp: tag_default_bound_def fleet_shed_of_def Let_def plain_shed_def split: if_splits)
  qed
qed simp

lemma tag_default_bound_Shed:
  assumes "Slot_Shed s = tag_default_bound d (Slot_Shed s0)"
  shows "shed_reason_code s = shed_reason_code s0" and "shed_fleet s = shed_fleet s0"
    and "shed_fleet_refuse s = shed_fleet_refuse s0" and "shed_overflow_ceiling s = shed_overflow_ceiling s0"
    and "applies_default_bound d \<Longrightarrow> shed_reason_code s0 = Queue_Bound \<Longrightarrow> shed_default_bound s"
  using assms by (auto simp: tag_default_bound_def split: if_splits)

lemma forced_slot_shed:
  assumes "reserve_rung_slot env entry d k True False False (loads, sticky) = Inr (Slot_Shed s, loads', sticky')"
  shows "shed_overflow_ceiling s \<or> (auth_priority_admission (ir_authorization entry) = 0
           \<and> (shed_default_bound s \<or> authors_refuse (dispatch d)))"
  using assms
proof (cases rule: slot_shed_cases)
  case (local s0 win now r r' fresh warm)
  then show ?thesis
    using decide_forced_shed [OF local(1)] tag_default_bound_Shed [OF local(2)]
    by (auto simp: slot_args_def Let_def refusing_rung_def)
qed simp

lemma retried_slot_shed:
  assumes "reserve_rung_slot env entry d k force True pass (loads, sticky) = Inr (Slot_Shed s, loads', sticky')"
    and "\<not> shed_fleet s"
  shows "shed_reason_code s \<noteq> Rate_Limit"
  using assms(1)
proof (cases rule: slot_shed_cases)
  case (local s0 win now r r' fresh warm)
  then show ?thesis
    using decide_retry_shed [OF local(1)] tag_default_bound_Shed [OF local(2)] by (simp add: slot_args_def Let_def)
qed (use assms(2) in simp)

lemma refusing_slot_shed:
  assumes "reserve_rung_slot env entry d k force retry pass (loads, sticky) = Inr (Slot_Shed s, loads', sticky')"
    and "shed_fleet_refuse s"
  shows "shed_fleet s \<and> shed_overflow_ceiling s \<and> shed_reason_code s = Queue_Bound"
  using assms(1)
proof (cases rule: slot_shed_cases)
  case (local s0 win now r r' fresh warm)
  then show ?thesis using decide_shed_local [OF local(1)] tag_default_bound_Shed [OF local(2)] assms(2) by simp
qed (use assms(2) in simp)


section \<open>A measure of the walk\<close>

text \<open>
  A first dial may turn back to a rung it shed, so its measure counts the chances left: the depths the claim walk has yet to
  reach and those an overflow may still force, each worth more than all depths behind it. A forced reservation that sheds
  blocks its depth. A failover counts the forces left, its ladder, and where it stands.
\<close>

abbreviation route_length :: "attempt_walk \<Rightarrow> nat" where
  "route_length w \<equiv> length (deployments (walk_route w))"

definition blocked :: "attempt_walk \<Rightarrow> nat \<Rightarrow> bool" where
  "blocked w d =
     (case dget (aw_shed_records w) d of
        None \<Rightarrow> True
      | Some s \<Rightarrow> shed_overflow_ceiling s
          \<or> (auth_priority_admission (ir_authorization (aw_entry w)) = 0
             \<and> (shed_default_bound s \<or> authors_refuse (dispatch (deployments (walk_route w) ! d)))))"

definition counted :: "attempt_walk \<Rightarrow> nat \<Rightarrow> bool" where
  "counted w d =
     (case aw_candidate w of
        None \<Rightarrow> \<not> blocked w d
      | Some c \<Rightarrow> c < d \<or> (d = c \<and> \<not> aw_forced_overflow w) \<or> (d \<noteq> c \<and> \<not> blocked w d))"

definition chances :: "attempt_walk \<Rightarrow> nat" where
  "chances w = (\<Sum>d | d < route_length w \<and> counted w d. 2 ^ (route_length w - d))"

definition position :: "attempt_walk \<Rightarrow> nat" where
  "position w = (case aw_candidate w of None \<Rightarrow> 0
     | Some c \<Rightarrow> 2 * (route_length w - c) + (if aw_forced_overflow w then 1 else 2))"

definition pass_moves :: "failover_pass \<Rightarrow> attempt_walk \<Rightarrow> nat" where
  "pass_moves f w = 8 * forces_left f + 4 * length (fo_ladder f)
     + (case aw_candidate w of None \<Rightarrow> 0
        | Some c \<Rightarrow> (if fo_forcing f \<or> c \<in> set (fo_ladder f) then 1 else 3) + (if aw_forced_overflow w then 0 else 1))"

definition walk_measure :: "attempt_walk \<Rightarrow> nat" where
  "walk_measure w =
     (case aw_failover w of
        Some f \<Rightarrow> pass_moves f w
      | None \<Rightarrow> position w + (if aw_last_failure w = None then (chances w + 1) * (2 * route_length w + 3) else 0))"

definition denied :: "attempt_walk \<Rightarrow> nat \<Rightarrow> bool" where
  "denied w d \<longleftrightarrow> (\<exists>stage. stage_for_depth (snapshot (walk_route w)) d = Inr stage
     \<and> stage_pool_id stage \<in> set (ir_denied_destination_pools (aw_entry w)))"

text \<open>While no failure is recorded, every shed depth has its record and lies in a pool the request may still charge.\<close>

definition walk_ok :: "walk_context \<Rightarrow> attempt_walk \<Rightarrow> bool" where
  "walk_ok wx w \<longleftrightarrow>
     (\<forall>d \<in> set (wx_ladder wx). d < route_length w)
     \<and> (aw_last_failure w = None \<longrightarrow>
          aw_failover w = None \<and> wx_redial_depth wx = None
          \<and> auth_priority_admission (snapshot_authorization (snapshot (walk_route w)))
              = auth_priority_admission (ir_authorization (aw_entry w))
          \<and> (\<forall>c. aw_candidate w = Some c \<longrightarrow> c < route_length w)
          \<and> (\<forall>d \<in> fst ` set (aw_policy_sheds w).
               d < route_length w \<and> dget (aw_shed_records w) d \<noteq> None \<and> \<not> denied w d)
          \<and> (aw_forced_overflow w \<longrightarrow> (\<exists>c \<in> fst ` set (aw_policy_sheds w). aw_candidate w = Some c)))"

lemmas walk_view = walk_ok_def walk_measure_def pass_moves_def position_def chances_def counted_def blocked_def denied_def

text \<open>The measure and the invariant read neither the worker nor the counters nor the clock.\<close>

lemma walk_view_frame [simp]:
  "walk_measure (w\<lparr>aw_worker := k\<rparr>) = walk_measure w" "walk_ok wx (w\<lparr>aw_worker := k\<rparr>) = walk_ok wx w"
  "denied (w\<lparr>aw_worker := k\<rparr>) d = denied w d"
  "walk_measure (release_claim wx' c w) = walk_measure w" "walk_ok wx (release_claim wx' c w) = walk_ok wx w"
  by (simp_all add: walk_view release_claim_def cong: option.case_cong if_cong)

lemma release_claim_fields [simp]:
  "aw_candidate (release_claim wx c w) = aw_candidate w" "aw_policy_sheds (release_claim wx c w) = aw_policy_sheds w"
  "aw_shed_records (release_claim wx c w) = aw_shed_records w" "aw_last_failure (release_claim wx c w) = aw_last_failure w"
  "aw_forced_overflow (release_claim wx c w) = aw_forced_overflow w" "aw_failover (release_claim wx c w) = aw_failover w"
  "aw_entry (release_claim wx c w) = aw_entry w"
  by (simp_all add: release_claim_def)

lemma spill_fields [simp]:
  "aw_policy_sheds (spill wx c w) = aw_policy_sheds w" "aw_shed_records (spill wx c w) = aw_shed_records w"
  "aw_last_failure (spill wx c w) = aw_last_failure w" "aw_forced_overflow (spill wx c w) = aw_forced_overflow w"
  "aw_entry (spill wx c w) = aw_entry w"
  by (simp_all add: spill_def split: prod.split)

lemma spill_dial:
  assumes "mono (wx_clock wx)" and "aw_failover w = None"
  shows "aw_failover (spill wx c w) = None" and "aw_candidate (spill wx c w) = Some d \<Longrightarrow> d \<in> set (wx_ladder wx) \<and> c < d"
proof -
  obtain r n h where cl: "claim_route_from (wx_clock wx) (wx_keys wx) (c + 1) (Some (wx_ladder wx)) (aw_clock w)
      (wk_health (aw_worker w)) = (r, n, h)" by (metis prod_cases3)
  then have s: "aw_failover (spill wx c w) = None" "aw_candidate (spill wx c w) = r"
    using assms(2) by (simp_all add: spill_def sideways_claim_def)
  show "aw_failover (spill wx c w) = None" by (rule s)
  show "aw_candidate (spill wx c w) = Some d \<Longrightarrow> d \<in> set (wx_ladder wx) \<and> c < d"
    using claim_route_gives_up(2) [OF assms(1) cl, of d] by (auto simp: s)
qed

lemma spill_pass:
  assumes "mono (wx_clock wx)" and "aw_failover w = Some f"
  obtains f' where "aw_failover (spill wx c w) = Some f'" "forces_left f' = forces_left f"
    "fo_forcing f \<Longrightarrow> aw_candidate (spill wx c w) = None \<and> fo_ladder f' = fo_ladder f"
    "\<not> fo_forcing f \<Longrightarrow> \<not> fo_forcing f' \<and> fo_ladder f' = filter (\<lambda>d. d \<noteq> c) (fo_ladder f)
       \<and> (\<forall>d. aw_candidate (spill wx c w) = Some d \<longrightarrow> d \<in> set (fo_ladder f'))"
proof -
  obtain r f' n h where s: "sideways (wx_clock wx) (wx_keys wx) c f (aw_clock w) (wk_health (aw_worker w)) = (r, f', n, h)"
    by (metis prod_cases4)
  then have eq: "aw_failover (spill wx c w) = Some f'" "aw_candidate (spill wx c w) = r"
    using assms(2) by (simp_all add: spill_def sideways_claim_def)
  have "fo_untried f' = fo_untried f \<and> fo_forced f' = fo_forced f"
    using s by (auto simp: sideways_def Let_def split: if_splits prod.splits)
  then have "forces_left f' = forces_left f" by (simp add: forces_left_def)
  moreover have "r = None \<and> fo_ladder f' = fo_ladder f" if "fo_forcing f" using s that by (auto simp: sideways_def)
  moreover have "\<not> fo_forcing f' \<and> fo_ladder f' = filter (\<lambda>d. d \<noteq> c) (fo_ladder f)
      \<and> (\<forall>d. r = Some d \<longrightarrow> d \<in> set (fo_ladder f'))" if "\<not> fo_forcing f"
    using s that claim_route_gives_up(2) [OF assms(1)]
    by (fastforce simp: sideways_def Let_def claim_candidates_Some split: if_splits prod.splits)
  ultimately show thesis using that eq by metis
qed

text \<open>Leaving a rung sideways always gets closer to the end.\<close>

lemma spill_pass_less:
  assumes "mono (wx_clock wx)" and "aw_failover w1 = Some f" and "aw_failover w = Some f" and "aw_candidate w = Some c"
  shows "walk_measure (spill wx c w1) < walk_measure w"
proof -
  obtain f' where f': "aw_failover (spill wx c w1) = Some f'" "forces_left f' = forces_left f"
    "fo_forcing f \<Longrightarrow> aw_candidate (spill wx c w1) = None \<and> fo_ladder f' = fo_ladder f"
    "\<not> fo_forcing f \<Longrightarrow> \<not> fo_forcing f' \<and> fo_ladder f' = filter (\<lambda>d. d \<noteq> c) (fo_ladder f)
       \<and> (\<forall>d. aw_candidate (spill wx c w1) = Some d \<longrightarrow> d \<in> set (fo_ladder f'))"
    using spill_pass [OF assms(1,2)] by metis
  define n where "n = length (filter (\<lambda>d. d \<noteq> c) (fo_ladder f))"
  have "n < length (fo_ladder f)" if "c \<in> set (fo_ladder f)"
    unfolding n_def using that by (intro length_filter_less) auto
  moreover have "n \<le> length (fo_ladder f)" by (simp add: n_def)
  moreover have "length (fo_ladder f') = n" if "\<not> fo_forcing f" using f'(4) that by (simp add: n_def)
  ultimately show ?thesis using f' assms(3,4)
    by (cases "fo_forcing f"; cases "aw_candidate (spill wx c w1)"; cases "c \<in> set (fo_ladder f)")
      (auto simp: walk_measure_def pass_moves_def)
qed


lemma chances_mono:
  assumes "walk_route w' = walk_route w" and "\<And>d. d < route_length w \<Longrightarrow> counted w' d \<Longrightarrow> counted w d"
  shows "chances w' \<le> chances w"
  unfolding chances_def assms(1) by (rule sum_mono2) (auto intro: assms(2))

lemma spill_position_less:
  assumes "mono (wx_clock wx)" and "\<forall>d \<in> set (wx_ladder wx). d < route_length w" and "aw_failover w1 = None"
    and "walk_route w1 = walk_route w" and "aw_candidate w = Some c"
  shows "position (spill wx c w1) < position w"
proof (cases "aw_candidate (spill wx c w1)")
  case (Some d)
  then have "c < d" "d < route_length w" using spill_dial(2) [OF assms(1,3)] assms(2) by auto
  moreover from this have "route_length w - d < route_length w - c" by simp
  ultimately show ?thesis using Some assms(4,5) by (auto simp: position_def)
qed (use assms(5) in \<open>simp add: position_def\<close>)

lemma spill_failed_less:
  assumes "mono (wx_clock wx)" and "walk_ok wx w" and "aw_failover w1 = aw_failover w"
    and "walk_route w1 = walk_route w" and "aw_candidate w = Some c" and "aw_last_failure w1 \<noteq> None"
  shows "walk_measure (spill wx c w1) < walk_measure w"
proof (cases "aw_failover w")
  case None
  then have "walk_measure (spill wx c w1) = position (spill wx c w1)"
    using spill_dial(1) [OF assms(1)] assms(3,6) by (simp add: walk_measure_def)
  also have "\<dots> < position w" using spill_position_less [OF assms(1) _ _ assms(4,5)] assms(2,3) None by (simp add: walk_ok_def)
  also have "\<dots> \<le> walk_measure w" using None by (simp add: walk_measure_def)
  finally show ?thesis .
qed (use spill_pass_less [OF assms(1) _ _ assms(5)] assms(3) in auto)

lemma spill_dial_less:
  assumes "mono (wx_clock wx)" and "walk_ok wx w" and "aw_failover w1 = None" "aw_failover w = None"
    and "walk_route w1 = walk_route w" and "aw_candidate w = Some c"
    and "aw_last_failure w1 = None" "aw_last_failure w = None" and "\<not> aw_forced_overflow w1"
    and "\<And>d. d \<noteq> c \<Longrightarrow> blocked w1 d = blocked w d" and "aw_forced_overflow w \<Longrightarrow> blocked w1 c"
  shows "walk_measure (spill wx c w1) < walk_measure w"
proof -
  have p: "position (spill wx c w1) < position w"
    using spill_position_less [OF assms(1) _ assms(3,5,6)] assms(2) by (simp add: walk_ok_def)
  have b: "blocked (spill wx c w1) d = blocked w1 d" for d by (simp add: blocked_def cong: option.case_cong)
  have "chances (spill wx c w1) \<le> chances w"
  proof (rule chances_mono)
    fix d assume d: "counted (spill wx c w1) d"
    then show "counted w d" using spill_dial(2) [OF assms(1,3), where c = c] assms(6,9-11)
      by (cases "aw_candidate (spill wx c w1)"; cases "d = c") (auto simp: counted_def b)
  qed (simp add: assms(5))
  with p show ?thesis using spill_dial(1) [OF assms(1,3)] assms(4,5,7,8)
    by (simp add: walk_measure_def add_less_le_mono)
qed

lemma tail_sum: "c < L \<Longrightarrow> (\<Sum>d \<in> {c<..<L}. 2 ^ (L - d)) + 2 = (2::nat) ^ (L - c)"
proof (induction rule: strict_inc_induct)
  case (step c)
  have "{c<..<L} = insert (Suc c) {Suc c<..<L} \<or> L = Suc c" using step(1) by auto
  moreover have "L - c = Suc (L - Suc c)" using step(1) by simp
  ultimately show ?case using step by auto
qed simp

lemma overflow_less:
  assumes "aw_candidate w = None" and "aw_failover w = None" and "aw_last_failure w = None" and "c < route_length w"
    and "\<not> blocked w c"
  shows "walk_measure (w\<lparr>aw_candidate := Some c, aw_forced_overflow := True\<rparr>) < walk_measure w"
proof -
  let ?L = "route_length w" and ?w = "w\<lparr>aw_candidate := Some c, aw_forced_overflow := True\<rparr>"
  let ?rest = "{d. d < ?L \<and> d \<noteq> c \<and> \<not> blocked w d}"
  have b: "blocked ?w d = blocked w d" for d by (simp add: blocked_def cong: option.case_cong)
  have e: "aw_entry ?w = aw_entry w" by simp
  have "chances ?w \<le> (\<Sum>d \<in> {c<..<?L} \<union> ?rest. 2 ^ (?L - d))"
    unfolding chances_def e by (rule sum_mono2) (auto simp: counted_def b)
  also have "\<dots> \<le> (\<Sum>d \<in> {c<..<?L}. 2 ^ (?L - d)) + (\<Sum>d \<in> ?rest. 2 ^ (?L - d))" by (simp add: sum_Un_nat)
  also have "\<dots> < 2 ^ (?L - c) + (\<Sum>d \<in> ?rest. 2 ^ (?L - d))" using tail_sum [OF assms(4)] by simp
  also have "\<dots> = chances w"
  proof -
    have "{d. d < ?L \<and> counted w d} = insert c ?rest" using assms(1,4,5) by (auto simp: counted_def)
    then show ?thesis by (simp add: chances_def)
  qed
  finally have c: "chances ?w < chances w" .
  have "position ?w < 2 * ?L + 3" by (simp add: position_def)
  moreover have "(chances ?w + 1) * (2 * ?L + 3) + (2 * ?L + 3) \<le> (chances w + 1) * (2 * ?L + 3)"
    using c mult_le_mono1 [of "chances ?w + 2" "chances w + 1" "2 * ?L + 3"] by (simp add: algebra_simps)
  ultimately show ?thesis using assms(2,3) by (simp add: walk_measure_def)
qed

lemma kept_less:
  assumes "aw_candidate w = Some c" "aw_candidate w1 = Some c" and "\<not> aw_forced_overflow w" and "aw_forced_overflow w1"
    and "walk_route w1 = walk_route w" and "aw_failover w1 = aw_failover w" and "aw_last_failure w1 = aw_last_failure w"
    and "\<And>d. d \<noteq> c \<Longrightarrow> blocked w1 d = blocked w d"
  shows "walk_measure w1 < walk_measure w"
proof (cases "aw_failover w")
  case None
  have "chances w1 \<le> chances w"
    by (rule chances_mono) (use assms in \<open>auto simp: counted_def\<close>)
  moreover have "position w1 < position w" using assms by (simp add: position_def)
  ultimately show ?thesis using None assms(5-7) by (simp add: walk_measure_def add_less_le_mono)
qed (use assms in \<open>simp add: walk_measure_def pass_moves_def\<close>)


section \<open>Every iteration gets closer to the end\<close>

lemma price_rung_dispatch:
  assumes "price_rung wx env c w = Inr (d, tier, n_out)"
  shows "dispatch d = dispatch (deployments (walk_route w) ! c)"
  using assms
  by (auto simp: price_rung_def Let_def priced_attempt_def deployment_priced_at_def deployment_priced_for_service_tier_def
      rbind_eq_Inr_iff)

lemma overflow_target_open:
  assumes "overflow_target route sheds records = Some t"
  shows "t \<in> fst ` set sheds" and "dget records t = Some s \<Longrightarrow> \<not> shed_overflow_ceiling s
    \<and> (auth_priority_admission (snapshot_authorization (snapshot route)) = 0 \<longrightarrow>
         \<not> shed_default_bound s \<and> \<not> authors_refuse (dispatch (deployments route ! t)))"
  using assms free_target_Some [of route records sheds t] priority_target_Some [of route records sheds t]
  by (auto simp: overflow_target_def split: if_splits)

lemma choose_target_cases:
  assumes "choose_target wx w = Inr (c, w1)"
  obtains (claimed) "aw_candidate w = Some c" "w1 = w"
  | (overflow) "aw_candidate w = None" "aw_last_failure w = None" "\<not> aw_forced_overflow w"
      "overflow_target (walk_route w) (aw_policy_sheds w) (aw_shed_records w) = Some c"
      "w1 = w\<lparr>aw_candidate := Some c, aw_forced_overflow := True\<rparr>"
  | (force) f f' n h where "aw_candidate w = None" "aw_failover w = Some f"
      "forced_target (wx_clock wx) (wx_keys wx) (aw_policy_sheds w) (aw_shed_records w) f (aw_clock w)
         (wk_health (aw_worker w)) = (Some c, f', n, h)"
      "w1 = w\<lparr>aw_failover := Some f', aw_clock := n, aw_worker := (aw_worker w)\<lparr>wk_health := h\<rparr>,
              aw_candidate := Some c, aw_forced_overflow := True\<rparr>"
proof (cases "aw_candidate w")
  case (Some d)
  then have "d = c" "w1 = w" using assms by (simp_all add: choose_target_def)
  with Some show thesis by (intro claimed) simp_all
next
  case None
  note body = assms [unfolded choose_target_def None option.case]
  show thesis
  proof (cases "aw_policy_sheds w \<noteq> [] \<and> aw_last_failure w = None \<and> \<not> aw_forced_overflow w")
    case True
    then have "overflow_target (walk_route w) (aw_policy_sheds w) (aw_shed_records w) = Some c"
      "w1 = w\<lparr>aw_candidate := Some c, aw_forced_overflow := True\<rparr>"
      using body by (simp_all split: option.splits if_splits)
    with True None show thesis by (intro overflow) simp_all
  next
    case False
    note body = body [unfolded if_not_P [OF False]]
    show thesis
    proof (cases "aw_failover w")
      case None
      then show thesis using body by (simp add: forced_failover_target_def Let_def)
    next
      case (Some f)
      obtain r f' n h where t: "forced_target (wx_clock wx) (wx_keys wx) (aw_policy_sheds w) (aw_shed_records w) f
          (aw_clock w) (wk_health (aw_worker w)) = (r, f', n, h)" by (metis prod_cases4)
      then have "r = Some c" "w1 = w\<lparr>aw_failover := Some f', aw_clock := n, aw_worker := (aw_worker w)\<lparr>wk_health := h\<rparr>,
              aw_candidate := Some c, aw_forced_overflow := True\<rparr>"
        using body Some by (auto simp: forced_failover_target_def Let_def split: option.splits)
      with t Some None force show thesis by metis
    qed
  qed
qed

lemma walk_ok_dial:
  assumes "walk_ok wx w" and "aw_last_failure w = None"
  shows "aw_failover w = None" and "wx_redial_depth wx = None"
    and "auth_priority_admission (snapshot_authorization (snapshot (walk_route w)))
      = auth_priority_admission (ir_authorization (aw_entry w))"
    and "d \<in> fst ` set (aw_policy_sheds w) \<Longrightarrow> d < route_length w \<and> dget (aw_shed_records w) d \<noteq> None \<and> \<not> denied w d"
    and "aw_candidate w = Some c \<Longrightarrow> c < route_length w"
    and "aw_candidate w = Some c \<Longrightarrow> aw_forced_overflow w \<Longrightarrow> \<not> denied w c"
proof -
  show d: "d \<in> fst ` set (aw_policy_sheds w) \<Longrightarrow> d < route_length w \<and> dget (aw_shed_records w) d \<noteq> None \<and> \<not> denied w d" for d
    using assms unfolding walk_ok_def by metis
  have "aw_forced_overflow w \<Longrightarrow> \<exists>c \<in> fst ` set (aw_policy_sheds w). aw_candidate w = Some c"
    using assms unfolding walk_ok_def by metis
  with d show "aw_candidate w = Some c \<Longrightarrow> aw_forced_overflow w \<Longrightarrow> \<not> denied w c" by (metis option.inject)
qed (use assms in \<open>unfold walk_ok_def, metis+\<close>)

lemma choose_target_closer:
  assumes clock: "mono (wx_clock wx)" and ok: "walk_ok wx w" and "choose_target wx w = Inr (c, w1)"
  shows "walk_ok wx w1" and "walk_measure w1 \<le> walk_measure w" and "aw_candidate w1 = Some c"
proof -
  have "walk_ok wx w1 \<and> walk_measure w1 \<le> walk_measure w \<and> aw_candidate w1 = Some c"
    using assms(3)
  proof (cases rule: choose_target_cases)
    case overflow
    note t = overflow_target_open [OF overflow(4)]
    have c: "c \<in> fst ` set (aw_policy_sheds w)" by (rule t(1))
    note dial = walk_ok_dial [OF ok overflow(2)]
    have "c < route_length w" "dget (aw_shed_records w) c \<noteq> None" using dial(4) [OF c] by simp_all
    moreover have "\<not> blocked w c" using t(2) calculation(2) dial(3) by (auto simp: blocked_def)
    moreover note dial(1)
    ultimately have "walk_measure w1 < walk_measure w" unfolding overflow(5)
      using overflow_less overflow(1,2) by blast
    moreover have "walk_ok wx w1"
      using ok overflow(2,5) c \<open>c < route_length w\<close> by (auto simp: walk_ok_def denied_def)
    ultimately show ?thesis by (simp add: overflow(5))
  next
    case (force f f' n h)
    note cs = forced_target_cases [OF force(3)]
    note some = force_loop_Some [OF clock cs(3) [OF cs(2) [OF refl]]]
    then have "forces_left f' < forces_left f" by (intro forces_left_less [OF cs(1), of c]) (auto simp: force_skips_def)
    moreover have "fo_ladder f' = fo_ladder f" using cs(1) by (simp add: forces_more_def)
    ultimately have "walk_measure w1 \<le> walk_measure w" using force some by (simp add: walk_measure_def pass_moves_def)
    moreover have "aw_last_failure w \<noteq> None" using ok force(2) by (auto simp: walk_ok_def)
    then have "walk_ok wx w1" using ok force(4) by (simp add: walk_ok_def)
    ultimately show ?thesis using force(4) by simp
  qed (use ok in simp)
  then show "walk_ok wx w1" "walk_measure w1 \<le> walk_measure w" "aw_candidate w1 = Some c" by simp_all
qed


lemma reserve_slot_cases:
  assumes "reserve_slot wx env c d reserved w = Inr (slot, w1)"
  obtains loads sticky k where
    "reserve_rung_slot (we_slot env) (aw_entry w) d reserved (aw_forced_overflow w)
       (aw_forced_overflow w \<and> Some c = wx_redial_depth wx)
       (case aw_failover w of None \<Rightarrow> False | Some f \<Rightarrow> fo_forcing f) (wk_loads (aw_worker w), wk_sticky (aw_worker w))
     = Inr (slot, loads, sticky)"
    "w1 = w\<lparr>aw_worker := (aw_worker w)\<lparr>wk_loads := loads, wk_sticky := sticky\<rparr>, aw_counters := k\<rparr>"
  using assms by (auto simp: reserve_slot_def Let_def rbind_eq_Inr_iff)

lemma visit_rung_cases:
  assumes "visit_rung wx env c w = v"
  obtains (unstaged) e where "v = Leave (Reply_Unhandled e) None w"
  | (skipped) "denied w c" "v = Go_On (spill wx c (release_claim wx c w))"
  | (capped) f where "\<not> denied w c" "v = Stop True (release_claim wx c (w\<lparr>aw_last_failure := f\<rparr>))"
  | (shed) d tier n_out s w1 where "\<not> denied w c" "price_rung wx env c w = Inr (d, tier, n_out)"
      "reserve_slot wx env c d (rq_reserved_input_tokens (wx_request wx) + n_out) w = Inr (Slot_Shed s, w1)"
      "v = shed_rung wx c s w1"
  | (admitted) d tier n_out slot ticket w1 where "\<not> denied w c" "price_rung wx env c w = Inr (d, tier, n_out)"
      "permits (ir_attempt_policy (aw_entry w)) (ir_total_attempts (aw_entry w)) (ir_attempt_counts (aw_entry w) ! c)"
      "reserve_slot wx env c d (rq_reserved_input_tokens (wx_request wx) + n_out) w = Inr (slot, w1)"
      "slot = (case ticket of None \<Rightarrow> No_Policy | Some t \<Rightarrow> Slot_Ticket t)"
      "v = start_rung wx env c d tier n_out ticket w1"
proof (cases "stage_for_depth (snapshot (walk_route w)) c")
  case (Inl e)
  then show thesis using assms by (intro unstaged [of e]) (simp add: visit_rung_def)
next
  case (Inr stage)
  then have d: "denied w c \<longleftrightarrow> stage_pool_id stage \<in> set (ir_denied_destination_pools (aw_entry w))" by (simp add: denied_def)
  note body = assms [unfolded visit_rung_def Inr sum.case, folded d]
  let ?p = "permits (ir_attempt_policy (aw_entry w)) (ir_total_attempts (aw_entry w)) (ir_attempt_counts (aw_entry w) ! c)"
  consider "denied w c" | "\<not> denied w c" "\<not> ?p" | "\<not> denied w c" "?p" by blast
  then show thesis
  proof cases
    case 1
    then show thesis using body by (intro skipped) simp_all
  next
    case 2
    then show thesis using body 
      by (intro capped [of "case aw_last_failure w of Some f \<Rightarrow> Some f | None \<Rightarrow> Some retry_limit_failure"]) simp_all
  next
    case 3
    note body = body [unfolded if_not_P [OF 3(1)], simplified 3(2) not_True_eq_False if_False]
    show thesis
    proof (cases "price_rung wx env c w")
      case (Inl e)
      then show thesis using body by (intro unstaged [of e]) simp
    next
      case (Inr priced)
      then obtain d tier n_out where p: "price_rung wx env c w = Inr (d, tier, n_out)" by (metis prod_cases3)
      note body = body [unfolded p sum.case prod.case]
      show thesis
      proof (cases "reserve_slot wx env c d (rq_reserved_input_tokens (wx_request wx) + n_out) w")
        case (Inl e)
        then show thesis using body by (intro unstaged [of e]) simp
      next
        case (Inr r)
        then obtain slot w1 where r: "reserve_slot wx env c d (rq_reserved_input_tokens (wx_request wx) + n_out) w
            = Inr (slot, w1)" by (metis prod.exhaust)
        note body = body [unfolded r sum.case prod.case]
        show thesis
        proof (cases slot)
          case No_Policy
          then show thesis using body by (intro admitted [OF 3(1) p 3(2) r, of None]) simp_all
        next
          case (Slot_Ticket t)
          then show thesis using body by (intro admitted [OF 3(1) p 3(2) r, of "Some t"]) simp_all
        next
          case (Slot_Shed s)
          then show thesis using body r by (intro shed [OF 3(1) p, of s w1]) simp_all
        qed
      qed
    qed
  qed
qed

lemma start_rung_Go_On:
  assumes "start_rung wx env c d tier n_out ticket w = Go_On w'"
  obtains f w1 where "w' = spill wx c w1" "aw_last_failure w1 = Some f" "aw_failover w1 = aw_failover w"
    "walk_route w1 = walk_route w"
  using assms
  by (auto simp: start_rung_def Let_def reservation_failed_def attempt_started_def budget_rejected_def leave_rung_def
      give_back_def split: sum.splits prod.splits ledger_verdict.splits option.splits if_splits)


text \<open>What a shed that goes on leaves, with the record it wrote.\<close>

lemma shed_rung_Go_On:
  assumes "shed_rung wx c s w = Go_On w'"
  obtains (left) w1 where "w' = spill wx c w1" "\<not> aw_forced_overflow w1" "aw_entry w1 = aw_entry w"
      "aw_failover w1 = aw_failover w" "aw_last_failure w1 = aw_last_failure w"
      "aw_shed_records w1 = dset c s (aw_shed_records w)"
      "aw_policy_sheds w1 = aw_policy_sheds w @ [(c, shed_reason_value (shed_reason_code s))]"
  | (kept) "aw_forced_overflow w'" "aw_entry w' = aw_entry w" "aw_candidate w' = aw_candidate w"
      "aw_failover w' = aw_failover w" "aw_last_failure w' = aw_last_failure w"
      "aw_shed_records w' = dset c s (aw_shed_records w)"
      "aw_policy_sheds w' = aw_policy_sheds w @ [(c, shed_reason_value (shed_reason_code s))]"
      "shed_fleet_refuse s \<or> (\<not> shed_fleet s
         \<and> shed_keeps_rung (walk_route w) c (wx_redial_depth wx) (aw_last_failure w) (shed_reason_code s))"
      "Some c = wx_redial_depth wx \<and> shed_reason_code s = Rate_Limit
       \<or> overflow_target (walk_route w) [(c, shed_reason_value (shed_reason_code s))] [(c, s)] \<noteq> None"
proof -
  define forced where "forced \<longleftrightarrow> \<not> wx_selected_first wx \<and> (shed_fleet_refuse s \<or> (\<not> shed_fleet s
       \<and> shed_keeps_rung (walk_route w) c (wx_redial_depth wx) (aw_last_failure w) (shed_reason_code s)))"
  define w1 where "w1 = release_claim wx c (w\<lparr>aw_policy_sheds := aw_policy_sheds w @ [(c, shed_reason_value (shed_reason_code s))],
       aw_shed_records := dset c s (aw_shed_records w), aw_forced_overflow := forced\<rparr>)"
  note body = assms [unfolded shed_rung_def Let_def, folded forced_def, folded w1_def]
  show thesis
  proof (cases forced)
    case True
    then have "w' = w1" "Some c = wx_redial_depth wx \<and> shed_reason_code s = Rate_Limit
       \<or> overflow_target (walk_route w) [(c, shed_reason_value (shed_reason_code s))] [(c, s)] \<noteq> None"
      using body by (simp_all split: if_splits)
    with True show thesis by (intro kept) (simp_all add: w1_def forced_def)
  next
    case False
    then have "w' = spill wx c w1" using body by simp
    with False show thesis by (intro left [of w1]) (simp_all add: w1_def)
  qed
qed

lemma blocked_record:
  assumes "aw_entry w1 = aw_entry w" and "aw_shed_records w1 = dset c s (aw_shed_records w)"
  shows "d \<noteq> c \<Longrightarrow> blocked w1 d = blocked w d"
    and "blocked w1 c \<longleftrightarrow> shed_overflow_ceiling s
      \<or> (auth_priority_admission (ir_authorization (aw_entry w)) = 0
         \<and> (shed_default_bound s \<or> authors_refuse (dispatch (deployments (walk_route w) ! c))))"
  using assms by (simp_all add: blocked_def cong: option.case_cong)

lemma denied_entry: "aw_entry v = aw_entry w \<Longrightarrow> denied v d = denied w d"
  by (simp add: denied_def)

lemma walk_ok_failed:
  assumes "walk_ok wx w" and "walk_route v = walk_route w" and "aw_last_failure v \<noteq> None"
  shows "walk_ok wx v"
  using assms unfolding walk_ok_def by metis

lemma walk_ok_shed:
  assumes ok: "walk_ok wx w" and none: "aw_last_failure w = None" and c: "aw_candidate w = Some c" "\<not> denied w c"
    and same: "aw_entry v = aw_entry w" "aw_last_failure v = aw_last_failure w" "aw_failover v = aw_failover w"
    and records: "aw_shed_records v = dset c s (aw_shed_records w)" "aw_policy_sheds v = aw_policy_sheds w @ [(c, x)]"
    and cand: "\<And>d. aw_candidate v = Some d \<Longrightarrow> d < route_length w" "aw_forced_overflow v \<Longrightarrow> aw_candidate v = Some c"
  shows "walk_ok wx v"
proof -
  note dial = walk_ok_dial [OF ok none]
  have "d < route_length w \<and> dget (aw_shed_records v) d \<noteq> None \<and> \<not> denied v d"
    if "d \<in> fst ` set (aw_policy_sheds v)" for d
    using that dial(4) [of d] dial(5) [OF c(1)] c(2) unfolding records denied_entry [OF same(1)] by auto
  moreover have "c \<in> fst ` set (aw_policy_sheds v)" by (simp add: records)
  moreover have "\<forall>d \<in> set (wx_ladder wx). d < route_length w" using ok by (simp add: walk_ok_def)
  ultimately show ?thesis using dial(1-3) same cand unfolding walk_ok_def same(1) by metis
qed

text \<open>A shed the walk keeps on its rung was not forced before.\<close>

lemma kept_was_unforced:
  assumes ok: "walk_ok wx w" and p: "price_rung wx env c w = Inr (d, tier, n_out)"
    and r: "reserve_slot wx env c d k w = Inr (Slot_Shed s, w1)"
    and keep: "shed_fleet_refuse s \<or> (\<not> shed_fleet s
      \<and> shed_keeps_rung (walk_route w) c (wx_redial_depth wx) (aw_last_failure w) (shed_reason_code s))"
    and go: "Some c = wx_redial_depth wx \<and> shed_reason_code s = Rate_Limit
      \<or> overflow_target (walk_route w) [(c, reason)] [(c, s)] \<noteq> None"
  shows "\<not> aw_forced_overflow w"
proof
  assume F: "aw_forced_overflow w"
  obtain loads sticky where "reserve_rung_slot (we_slot env) (aw_entry w) d k (aw_forced_overflow w)
       (aw_forced_overflow w \<and> Some c = wx_redial_depth wx)
       (case aw_failover w of None \<Rightarrow> False | Some f \<Rightarrow> fo_forcing f) (wk_loads (aw_worker w), wk_sticky (aw_worker w))
     = Inr (Slot_Shed s, loads, sticky)"
    by (rule reserve_slot_cases [OF r])
  with F have rs: "reserve_rung_slot (we_slot env) (aw_entry w) d k True (Some c = wx_redial_depth wx)
      (case aw_failover w of None \<Rightarrow> False | Some f \<Rightarrow> fo_forcing f) (wk_loads (aw_worker w), wk_sticky (aw_worker w))
      = Inr (Slot_Shed s, loads, sticky)"
    by simp
  have target: "\<not> shed_overflow_ceiling s \<and> (auth_priority_admission (snapshot_authorization (snapshot (walk_route w))) = 0 \<longrightarrow>
      \<not> shed_default_bound s \<and> \<not> authors_refuse (dispatch (deployments (walk_route w) ! c)))"
    if "overflow_target (walk_route w) [(c, reason)] [(c, s)] \<noteq> None"
    using that overflow_target_open [of "walk_route w" "[(c, reason)]" "[(c, s)]"] by (fastforce simp: dget_def)
  show False
  proof (cases "aw_last_failure w")
    case None
    note dial = walk_ok_dial [OF ok None]
    have "reserve_rung_slot (we_slot env) (aw_entry w) d k True False False (wk_loads (aw_worker w), wk_sticky (aw_worker w))
      = Inr (Slot_Shed s, loads, sticky)"
      using rs dial(1,2) by simp
    from forced_slot_shed [OF this] target go dial(2,3) show False by (auto simp: price_rung_dispatch [OF p])
  next
    case (Some f)
    have "\<not> shed_fleet_refuse s" using refusing_slot_shed [OF rs] target go by auto
    then have "Some c = wx_redial_depth wx" "shed_reason_code s = Rate_Limit" "\<not> shed_fleet s"
      using keep Some by (auto simp: shed_keeps_rung_def)
    with rs retried_slot_shed [of "we_slot env" "aw_entry w" d k True] show False by simp
  qed
qed

lemma shed_closer:
  assumes clock: "mono (wx_clock wx)" and ok: "walk_ok wx w" and c: "aw_candidate w = Some c" and "\<not> denied w c"
    and p: "price_rung wx env c w = Inr (d, tier, n_out)" and r: "reserve_slot wx env c d k w = Inr (Slot_Shed s, w1)"
    and go: "shed_rung wx c s w1 = Go_On w'"
  shows "walk_ok wx w' \<and> walk_measure w' < walk_measure w"
proof -
  obtain loads sticky k' where rs: "reserve_rung_slot (we_slot env) (aw_entry w) d k (aw_forced_overflow w)
       (aw_forced_overflow w \<and> Some c = wx_redial_depth wx)
       (case aw_failover w of None \<Rightarrow> False | Some f \<Rightarrow> fo_forcing f) (wk_loads (aw_worker w), wk_sticky (aw_worker w))
     = Inr (Slot_Shed s, loads, sticky)"
    and w1: "w1 = w\<lparr>aw_worker := (aw_worker w)\<lparr>wk_loads := loads, wk_sticky := sticky\<rparr>, aw_counters := k'\<rparr>"
    using reserve_slot_cases [OF r] by metis
  have same: "aw_entry w1 = aw_entry w" "aw_failover w1 = aw_failover w" "aw_last_failure w1 = aw_last_failure w"
    "aw_shed_records w1 = aw_shed_records w" "aw_policy_sheds w1 = aw_policy_sheds w" "aw_candidate w1 = aw_candidate w"
    by (simp_all add: w1)
  from go show ?thesis
  proof (cases rule: shed_rung_Go_On)
    case (left w2)
    note s2 = left(3-7) [unfolded same]
    note b = blocked_record [OF s2(1,4)]
    show ?thesis
    proof (cases "aw_last_failure w")
      case None
      note dial = walk_ok_dial [OF ok None]
      have "blocked w2 c" if "aw_forced_overflow w"
        using forced_slot_shed [of "we_slot env" "aw_entry w" d k] rs dial(1,2) that
        by (simp add: b(2) price_rung_dispatch [OF p])
      then have "walk_measure w' < walk_measure w"
        unfolding left(1) using None s2 left(2) dial(1) c b(1) by (intro spill_dial_less [OF clock ok]) simp_all
      moreover have "walk_ok wx w'"
      proof (rule walk_ok_shed [OF ok None c assms(4)])
        show "d < route_length w" if "aw_candidate w' = Some d" for d
          using that spill_dial(2) [OF clock, of w2 c d] s2 dial(1) left(1) ok by (simp add: walk_ok_def)
      qed (use s2 left(1,2) dial(1) spill_dial(1) [OF clock, of w2 c] in simp_all)
      ultimately show ?thesis by blast
    next
      case (Some f)
      then have "walk_measure w' < walk_measure w"
        unfolding left(1) using s2 c by (intro spill_failed_less [OF clock ok]) simp_all
      moreover have "walk_ok wx w'" by (rule walk_ok_failed [OF ok]) (use Some s2 left(1) in simp_all)
      ultimately show ?thesis by blast
    qed
  next
    case kept
    note s2 = kept(2-7) [unfolded same]
    note b = blocked_record [OF s2(1,5)]
    have F: "\<not> aw_forced_overflow w"
      by (rule kept_was_unforced [OF ok p r kept(8) [unfolded same]]) (use kept(9) same(1) in simp)
    then have "walk_measure w' < walk_measure w" using kept(1) s2 c b(1) by (intro kept_less [of w c]) simp_all
    moreover have "walk_ok wx w'"
    proof (cases "aw_last_failure w")
      case None
      show ?thesis using s2 c walk_ok_dial(5) [OF ok None] by (intro walk_ok_shed [OF ok None c assms(4)]) simp_all
    next
      case (Some f)
      then show ?thesis using s2 by (intro walk_ok_failed [OF ok]) simp_all
    qed
    ultimately show ?thesis by blast
  qed
qed


lemma visit_closer:
  assumes clock: "mono (wx_clock wx)" and ok: "walk_ok wx w" and c: "aw_candidate w = Some c"
    and go: "visit_rung wx env c w = Go_On w'"
  shows "walk_ok wx w' \<and> walk_measure w' < walk_measure w"
  using go
proof (cases rule: visit_rung_cases)
  case skipped
  then have w': "w' = spill wx c (release_claim wx c w)" by simp
  show ?thesis
  proof (cases "aw_last_failure w")
    case None
    note dial = walk_ok_dial [OF ok None]
    have F: "\<not> aw_forced_overflow w" using dial(6) [OF c] skipped(1) by blast
    have "blocked (release_claim wx c w) d = blocked w d" for d by (simp add: blocked_def cong: option.case_cong)
    then have "walk_measure w' < walk_measure w"
      unfolding w' using None F dial(1) c by (intro spill_dial_less [OF clock ok]) simp_all
    moreover have "d < route_length w" if "aw_candidate w' = Some d" for d
      using that spill_dial(2) [OF clock, of "release_claim wx c w" c d] dial(1) w' ok by (simp add: walk_ok_def)
    then have "walk_ok wx w'"
      using ok None F spill_dial(1) [OF clock, of "release_claim wx c w" c] dial(1)
      by (simp add: walk_ok_def w' denied_entry [of "spill wx c (release_claim wx c w)" w])
    ultimately show ?thesis by blast
  next
    case (Some f)
    then have "walk_measure w' < walk_measure w" unfolding w' using c by (intro spill_failed_less [OF clock ok]) simp_all
    moreover have "walk_ok wx w'" by (rule walk_ok_failed [OF ok]) (simp_all add: w' Some)
    ultimately show ?thesis by blast
  qed
next
  case (shed d tier n_out s w1)
  show ?thesis by (rule shed_closer [OF clock ok c shed(1-3)]) (use shed(4) in simp)
next
  case (admitted d tier n_out slot ticket w1)
  then obtain f w2 where l: "w' = spill wx c w2" "aw_last_failure w2 = Some f" "aw_failover w2 = aw_failover w1"
    "walk_route w2 = walk_route w1"
    using start_rung_Go_On by metis
  obtain loads sticky k where w1: "w1 = w\<lparr>aw_worker := (aw_worker w)\<lparr>wk_loads := loads, wk_sticky := sticky\<rparr>, aw_counters := k\<rparr>"
    by (rule reserve_slot_cases [OF admitted(4)])
  have "walk_measure w' < walk_measure w"
    unfolding l(1) by (rule spill_failed_less [OF clock ok _ _ c]) (simp_all add: l w1)
  moreover have "walk_ok wx w'" by (rule walk_ok_failed [OF ok]) (simp_all add: l w1)
  ultimately show ?thesis by blast
qed simp_all

lemma walk_step_closer:
  assumes clock: "mono (wx_clock wx)" and ok: "walk_ok wx w" and go: "walk_step wx env w = Go_On w'"
  shows "walk_ok wx w' \<and> walk_measure w' < walk_measure w"
proof -
  let ?w = "w\<lparr>aw_worker := we_interference env (aw_worker w)\<rparr>"
  obtain c w1 where t: "choose_target wx ?w = Inr (c, w1)" and v: "visit_rung wx env c w1 = Go_On w'"
    using go by (auto simp: walk_step_def Let_def split: if_splits sum.splits)
  have "walk_ok wx ?w" using ok by simp
  note t' = choose_target_closer [OF clock this t]
  from visit_closer [OF clock t'(1,3) v] t'(2) show ?thesis by simp
qed

lemma run_walk_ends:
  assumes "mono (wx_clock wx)" and "walk_ok wx w" and "walk_measure w < fuel"
  shows "\<exists>v. run_walk fuel wx envs i w = Some v"
  using assms(2,3)
proof (induction fuel arbitrary: i w)
  case (Suc fuel)
  show ?case
  proof (cases "walk_step wx (envs i) w")
    case (Go_On w1)
    from walk_step_closer [OF assms(1) Suc.prems(1) Go_On] Suc.prems(2) have "walk_ok wx w1" "walk_measure w1 < fuel" by auto
    from Suc.IH [OF this, of "Suc i"] Go_On show ?thesis by simp
  qed simp_all
qed simp

lemma run_walk_more_fuel: "run_walk fuel wx envs i w = Some v \<Longrightarrow> fuel \<le> fuel' \<Longrightarrow> run_walk fuel' wx envs i w = Some v"
proof (induction fuel arbitrary: fuel' i w)
  case (Suc fuel)
  then obtain m where m: "fuel' = Suc m" "fuel \<le> m" by (cases fuel') auto
  show ?case using Suc.prems(1) Suc.IH [OF _ m(2)] by (auto simp: m split: walk_verdict.splits)
qed simp

section \<open>The first state of a walk\<close>

text \<open>
  What the caller keeps: the depth the data plane names is one of the route, and the entry and its route carry the same
  admission level (\<open>tier_authorization\<close> changes only the fast flag).
\<close>

definition call_ok :: "start_call \<Rightarrow> inflight_request \<Rightarrow> bool" where
  "call_ok sc e \<longleftrightarrow> mono (sc_clock sc)
     \<and> (\<forall>d. st_current_depth (sc_argument sc) = Some d \<longrightarrow> d < length (deployments (ir_route e)))
     \<and> auth_priority_admission (snapshot_authorization (snapshot (ir_route e)))
         = auth_priority_admission (ir_authorization e)"

definition walk_bound :: "nat \<Rightarrow> nat" where
  "walk_bound n = 2 ^ (n + 1) * (2 * n + 3)"

lemma eligible_ladder_range: "d \<in> set (eligible_ladder route f) \<Longrightarrow> d < length (deployments route)"
  by (auto simp: eligible_ladder_def eligible_depths_def route_fallback_rules_def)

lemma deployments_nonempty [simp]: "deployments route \<noteq> []"
  by (simp add: deployments_def)

lemma initial_walk_fields [simp]:
  "aw_candidate (initial_walk c lf f n e tiers k cs) = c" "aw_policy_sheds (initial_walk c lf f n e tiers k cs) = []"
  "aw_shed_records (initial_walk c lf f n e tiers k cs) = []" "aw_last_failure (initial_walk c lf f n e tiers k cs) = lf"
  "aw_forced_overflow (initial_walk c lf f n e tiers k cs) = False" "aw_failover (initial_walk c lf f n e tiers k cs) = f"
  "aw_entry (initial_walk c lf f n e tiers k cs) = e" "aw_worker (initial_walk c lf f n e tiers k cs) = k"
  by (simp_all add: initial_walk_def)

lemma begin_failover_ok:
  assumes "call_ok sc e" and "begin_failover sc e tiers f d k counters = Inr (wx, w)"
  shows "walk_ok wx w" and "wx_clock wx = sc_clock sc" and "aw_entry w = e" and "aw_last_failure w \<noteq> None"
    and "aw_failover w = failover_begin e (Some f) (Some d)"
proof -
  obtain c disposition n h where wx: "wx_ladder wx = (if selected_first_dial e then [0] else eligible_ladder (ir_route e) (Some f))"
      "wx_clock wx = sc_clock sc"
    and w: "w = initial_walk c (Some f) (failover_begin e (Some f) (Some d)) n e tiers (k\<lparr>wk_health := h\<rparr>)
        (if disposition = Some THROTTLE_SURFACED_CACHE_PRESERVING
         then count_throttle_disposition THROTTLE_SURFACED_CACHE_PRESERVING counters else counters)
        \<lparr>aw_policy_sheds := (if disposition = Some THROTTLE_FAILOVER_COLD then [(d, ''throttle_failover_cold'')] else [])\<rparr>"
    using assms(2) by (auto simp: begin_failover_def Let_def rbind_eq_Inr_iff)
  have "i < length (deployments (ir_route e))" if "i \<in> set (wx_ladder wx)" for i
    using that wx(1) eligible_ladder_range by (auto split: if_splits)
  then show "walk_ok wx w" by (simp add: walk_ok_def w)
  show "wx_clock wx = sc_clock sc" "aw_entry w = e" "aw_last_failure w \<noteq> None"
    "aw_failover w = failover_begin e (Some f) (Some d)" by (simp_all add: wx w)
qed

lemma begin_dial_ok:
  assumes "call_ok sc e" and "begin_dial sc e tiers k counters = (wx, w)"
  shows "walk_ok wx w" and "wx_clock wx = sc_clock sc" and "aw_entry w = e" and "aw_failover w = None"
proof -
  let ?depth = "st_current_depth (sc_argument sc)"
  let ?repair = "st_reasoning_repair (sc_argument sc) \<and> ?depth \<noteq> None"
  let ?tool = "st_tool_search_round (sc_argument sc) \<and> ?depth \<noteq> None"
  let ?sel = "selected_first_dial e"
  let ?ladder = "if ?repair then [the ?depth] else if ?sel then [0] else eligible_ladder (ir_route e) (st_failure (sc_argument sc))"
  let ?claimed = "if ?sel then (case claim (key_at (health_keys e) 0) (sc_clock sc 0) (wk_health k) of
        (ok, h) \<Rightarrow> (if ok then Some 0 else None, 1, h))
      else claim_route_from (sc_clock sc) (health_keys e) (if ?tool \<or> ?repair then the ?depth else 0) (Some ?ladder) 0 (wk_health k)"
  obtain c n h where cl: "?claimed = (c, n, h)" by (metis prod_cases3)
  have ladder: "d < length (deployments (ir_route e))" if "d \<in> set ?ladder" for d
    using that assms(1) eligible_ladder_range by (auto simp: call_ok_def split: if_splits)
  have "mono (sc_clock sc)" using assms(1) by (simp add: call_ok_def)
  then have cand: "d < length (deployments (ir_route e))" if "c = Some d" for d
    using cl that claim_route_gives_up(2) [of "sc_clock sc" "health_keys e" _ "Some ?ladder" 0 "wk_health k" c n h d] ladder
    by (auto split: if_splits prod.splits)
  have wx: "wx_ladder wx = ?ladder" "wx_redial_depth wx = None" "wx_clock wx = sc_clock sc"
    and w: "w = initial_walk c None None n e tiers (k\<lparr>wk_health := h\<rparr>) counters"
    using assms(2) unfolding begin_dial_def Let_def cl by auto
  show "walk_ok wx w" using wx ladder cand assms(1) by (simp add: walk_ok_def w call_ok_def)
  show "wx_clock wx = sc_clock sc" "aw_entry w = e" "aw_failover w = None" by (simp_all add: wx w)
qed

lemma chances_le: "chances w < 2 ^ (route_length w + 1) - 1"
proof -
  have "chances w \<le> (\<Sum>d \<in> {..<route_length w}. 2 ^ (route_length w - d))"
    unfolding chances_def by (rule sum_mono2) auto
  also have "\<dots> + 2 = 2 ^ (route_length w + 1)"
  proof -
    have L: "0 < route_length w" by simp
    then have "{..<route_length w} = insert 0 {0<..<route_length w}" by auto
    then show ?thesis using tail_sum [OF L] by simp
  qed
  finally show ?thesis by simp
qed


lemma position_le: "position w \<le> 2 * route_length w + 2"
  by (auto simp: position_def split: option.split)

lemma dial_measure_less: "position w + (chances w + 1) * (2 * route_length w + 3) < walk_bound (route_length w)"
proof -
  let ?b = "2 * route_length w + 3"
  have "chances w + 2 \<le> 2 ^ (route_length w + 1)" using chances_le [of w] by simp
  then have "(chances w + 2) * ?b \<le> walk_bound (route_length w)" unfolding walk_bound_def by (rule mult_le_mono1)
  moreover have "(chances w + 2) * ?b = (chances w + 1) * ?b + ?b" by (simp add: algebra_simps)
  ultimately show ?thesis using position_le [of w] by linarith
qed

lemma walk_bound_large: "12 * n + 4 < walk_bound n"
proof -
  have "n + 1 \<le> 2 ^ n" by (induction n) simp_all
  then have "(2 * n + 2) * (2 * n + 3) \<le> walk_bound n" unfolding walk_bound_def by (intro mult_le_mono1) simp
  moreover have "12 * n + 4 < (2 * n + 2) * (2 * n + 3)" by (cases n) (simp_all add: algebra_simps)
  ultimately show ?thesis by linarith
qed

lemma pass_measure_less:
  assumes "failover_begin (aw_entry w) failure depth = Some f"
  shows "pass_moves f w < walk_bound (route_length w)"
proof -
  obtain g d where f: "fo_ladder f = fo_untried f"
    "fo_untried f = untried_depths (route_fallback_rules (walk_route w)) (Some g) (ir_attempt_counts (aw_entry w)) d True"
    by (rule failover_begin_Some [OF assms])
  have len: "length (fo_untried f) \<le> route_length w"
    unfolding f(2) by (rule order_trans [OF length_untried_depths]) (simp add: route_fallback_rules_def)
  have "forces_left f \<le> length (fo_untried f)"
    unfolding forces_left_def by (rule order_trans [OF card_mono card_length]) auto
  then have "pass_moves f w \<le> 12 * route_length w + 4"
    using len unfolding pass_moves_def f(1) by (auto split: option.split)
  with walk_bound_large [of "route_length w"] show ?thesis by linarith
qed

lemma begin_walk_ok:
  assumes "call_ok sc e" and "begin_walk sc e tiers k counters = Inr (wx, w)"
  shows "walk_ok wx w" and "mono (wx_clock wx)" and "walk_measure w < walk_bound (length (deployments (ir_route e)))"
    and "aw_entry w = e"
proof -
  have clock: "mono (sc_clock sc)" using assms(1) by (simp add: call_ok_def)
  have all: "walk_ok wx w \<and> mono (wx_clock wx) \<and> walk_measure w < walk_bound (length (deployments (ir_route e))) \<and> aw_entry w = e"
  proof (cases "st_failure (sc_argument sc) \<noteq> None \<and> st_current_depth (sc_argument sc) \<noteq> None")
    case True
    then obtain f d where "begin_failover sc e tiers f d k counters = Inr (wx, w)"
      using assms(2) by (auto simp: begin_walk_def)
    note b = begin_failover_ok [OF assms(1) this]
    have "walk_measure w < walk_bound (route_length w)"
    proof (cases "aw_failover w")
      case None
      then show ?thesis using b(4) position_le [of w] walk_bound_large [of "route_length w"] by (auto simp: walk_measure_def)
    next
      case (Some g)
      then show ?thesis using b(3,5) pass_measure_less [of w] by (simp add: walk_measure_def)
    qed
    then show ?thesis using b clock by simp
  next
    case False
    then have "begin_dial sc e tiers k counters = (wx, w)" using assms(2) by (auto simp: begin_walk_def split: option.splits)
    note b = begin_dial_ok [OF assms(1) this]
    have "walk_measure w < walk_bound (route_length w)"
      using b(4) dial_measure_less [of w] by (simp add: walk_measure_def)
    then show ?thesis using b clock by simp
  qed
  then show "walk_ok wx w" "mono (wx_clock wx)" "walk_measure w < walk_bound (length (deployments (ir_route e)))" "aw_entry w = e"
    by simp_all
qed

end
