(* ===== verification/Attempt_Gates.thy ===== *)
theory Attempt_Gates
  imports Attempt_Walk
begin

text \<open>
  What one call of \<open>_start_attempt\<close> (\<^verbatim>\<open>src/exp/runtime/gateway/native_accounting.py\<close>) leaves behind and lets through: the
  slots it reserved are given back unless an attempt was started on them, and an attempt it started passed the liveness,
  deadline, pool, attempt-limit and ledger gates. Both hold whatever other requests do to the worker between iterations.
\<close>

section \<open>Slots\<close>

abbreviation walk_loads :: "attempt_walk \<Rightarrow> rung_registry" where
  "walk_loads w \<equiv> wk_loads (aw_worker w)"

lemma walk_loads_frame [simp]:
  "walk_loads (release_claim wx c w) = walk_loads w" "walk_loads (spill wx c w) = walk_loads w"
  "walk_loads (refuse_saturated w) = walk_loads w"
  by (simp_all add: release_claim_def spill_def refuse_saturated_def count_refusal_def split: prod.split)

lemma choose_target_frame:
  "choose_target wx w = Inl w1 \<Longrightarrow> walk_loads w1 = walk_loads w \<and> aw_entry w1 = aw_entry w"
  "choose_target wx w = Inr (c, w1) \<Longrightarrow> walk_loads w1 = walk_loads w \<and> aw_entry w1 = aw_entry w"
  by (auto simp: choose_target_def Let_def refuse_saturated_def count_refusal_def
      split: option.splits if_splits prod.splits)

lemma release_ticket_tickets [simp]:
  "rr_tickets (release_ticket t now raises rr) = dpop t (rr_tickets rr)"
  by (simp add: release_ticket_def with_fleet_def release_locked_tickets)

lemma window_tickets [simp]:
  "rr_tickets (restamp_window t now rr) = rr_tickets rr" "rr_tickets (retract_window t rr) = rr_tickets rr"
  by (simp_all add: restamp_window_def retract_window_def put_rung_def Let_def split: option.splits prod.splits)

lemma reserve_tickets:
  "reserve t now a rr = (result, rr') \<Longrightarrow>
     rr_tickets rr' = (case result of Shed _ \<Rightarrow> rr_tickets rr
       | Ticket _ \<Rightarrow> dset t (ra_key a, ra_organization_id a) (rr_tickets rr))
     \<and> (\<forall>u. result = Ticket u \<longrightarrow> u = t)"
  by (auto simp: reserve_def Let_def record_ticket_def store_rung_def split: prod.splits option.splits)

lemma fleet_acquire_tickets:
  "fleet_acquire t lane v now wall sent rr = (r, rr') \<Longrightarrow>
     rr_tickets rr' = (if r = None then rr_tickets rr else dpop t (rr_tickets rr))"
  by (auto simp: fleet_acquire_def release_locked_tickets split: option.splits prod.splits)

text \<open>A reservation touches no ticket but its own, and one that was shed holds none.\<close>

lemma slot_tickets:
  assumes "reserve_rung_slot env entry d k force retry pass (loads, sticky) = Inr (slot, loads', sticky')"
    and "dget (rr_tickets loads) u = None"
  shows "dget (rr_tickets loads') u \<noteq> None \<Longrightarrow> slot = Slot_Ticket u"
  using assms(1)
proof (cases rule: reserve_rung_slot_cases)
  case unbounded
  then show "dget (rr_tickets loads') u \<noteq> None \<Longrightarrow> slot = Slot_Ticket u" using assms(2) by simp
next
  case (bounded fresh warm result loads1 slot1)
  note r = reserve_tickets [OF bounded(3)]
  show "dget (rr_tickets loads') u \<noteq> None \<Longrightarrow> slot = Slot_Ticket u"
    using bounded(4,5) r assms(2) fleet_acquire_tickets
    by (fastforce simp: fleet_slot_def tag_default_bound_def split: reservation.splits option.splits prod.splits if_splits)
qed

definition slots_free :: "(nat \<Rightarrow> walk_env) \<Rightarrow> rung_registry \<Rightarrow> bool" where
  "slots_free envs loads \<longleftrightarrow> (\<forall>j. dget (rr_tickets loads) (se_ticket (we_slot (envs j))) = None)"

text \<open>What an iteration may leave: no slot of the call, or the slot of the attempt it started.\<close>

fun slots_settled :: "(nat \<Rightarrow> walk_env) \<Rightarrow> walk_verdict \<Rightarrow> bool" where
  "slots_settled envs (Go_On w) = slots_free envs (walk_loads w)"
| "slots_settled envs (Stop active w) = slots_free envs (walk_loads w)"
| "slots_settled envs (Leave (Reply_Started a c pace) fin w) =
     (\<forall>j. dget (rr_tickets (walk_loads w)) (se_ticket (we_slot (envs j))) \<noteq> None
        \<longrightarrow> dget (rr_attempts (walk_loads w)) a = Some (se_ticket (we_slot (envs j))))"
| "slots_settled envs (Leave reply fin w) = slots_free envs (walk_loads w)"

lemma slots_settled_Leave:
  "slots_free envs (walk_loads w) \<Longrightarrow> slots_settled envs (Leave reply fin w)"
  by (cases reply) (auto simp: slots_free_def)

lemma give_back_frees:
  assumes "\<And>j. dget (rr_tickets (walk_loads w)) (se_ticket (we_slot (envs j))) \<noteq> None \<Longrightarrow> ticket = Some (se_ticket (we_slot (envs j)))"
  shows "slots_free envs (walk_loads (give_back wx env c ticket w))"
proof (cases ticket)
  case None
  then have "dget (rr_tickets (walk_loads w)) (se_ticket (we_slot (envs j))) = None" for j
    using assms [of j] by (metis option.distinct(1))
  with None show ?thesis by (simp add: slots_free_def give_back_def)
next
  case (Some t)
  have "dget (dpop t (rr_tickets (walk_loads w))) (se_ticket (we_slot (envs j))) = None" for j
    using assms [of j] Some by (cases "dget (rr_tickets (walk_loads w)) (se_ticket (we_slot (envs j)))") auto
  then show ?thesis using Some by (simp add: slots_free_def give_back_def)
qed

text \<open>
  The slot is held while the disclosure of the dispatch is computed, outside the \<open>try\<close> that would give it back. On a
  validated snapshot that never raises: the stage's first deployment is in the plan, and nothing is forced before a shed.
\<close>

lemma stage_ids_covered:
  assumes "require_stage_projection s = Inr s" and "stage_for_depth s depth = Inr stage"
  shows "hd (stage_deployment_ids stage) \<in> set (snapshot_deployment_ids s)"
proof -
  have depth: "depth < length (snapshot_deployment_ids s)" using assms(2) by (auto simp: stage_for_depth_def split: if_splits)
  show ?thesis
  proof (cases "model_stages s = []")
    case True
    moreover have "snapshot_deployment_ids s \<noteq> []" using depth by auto
    ultimately show ?thesis using assms(2) depth by (auto simp: stage_for_depth_def)
  next
    case False
    then have cover: "concat (map stage_deployment_ids (model_stages s)) = snapshot_deployment_ids s"
      using assms(1) by (auto simp: require_stage_projection_def split: if_splits)
    have "stage_walk (model_stages s) 0 depth = Inr stage" using assms(2) depth False by (simp add: stage_for_depth_def)
    with stage_walk_owner [of depth 0 "model_stages s"] depth cover have
      "stage \<in> set (model_stages s)" "stage_deployment_ids stage \<noteq> []" by auto
    then have "hd (stage_deployment_ids stage) \<in> set (concat (map stage_deployment_ids (model_stages s)))"
      using hd_in_set by fastforce
    then show ?thesis using cover by simp
  qed
qed

definition discloses :: "attempt_walk \<Rightarrow> bool" where
  "discloses w \<longleftrightarrow> (aw_forced_overflow w \<longrightarrow> aw_policy_sheds w \<noteq> [])
     \<and> require_stage_projection (snapshot (walk_route w)) = Inr (snapshot (walk_route w))"

lemma disclose_returns:
  assumes "discloses w" and "stage_for_depth (snapshot (walk_route w)) c = Inr stage"
  shows "\<exists>x n. disclose wx c w = Inr (x, n)"
proof -
  have "hd (stage_deployment_ids stage) \<in> set (snapshot_deployment_ids (snapshot (walk_route w)))"
    using stage_ids_covered assms by (auto simp: discloses_def)
  then have "\<exists>x. dispatch_disclosure (walk_route w) c (aw_policy_sheds w) (aw_forced_overflow w)
      (ir_sticky_preferred (aw_entry w)) (Some c = wx_redial_depth wx) = Inr x"
    using assms by (auto simp: dispatch_disclosure_def index_of_def discloses_def split: list.split)
  then show ?thesis by (auto simp: disclose_def Let_def)
qed

lemma choose_target_discloses:
  assumes "choose_target wx w = Inr (c, w1)" and "discloses w"
  shows "discloses w1"
  using assms(1)
proof (cases rule: choose_target_cases)
  case overflow
  then show ?thesis using overflow_target_open(1) [OF overflow(4)] assms(2) by (auto simp: discloses_def)
next
  case (force f f' n h)
  then have "aw_policy_sheds w \<noteq> []" by (auto simp: forced_target_def split: if_splits)
  then show ?thesis using force assms(2) by (simp add: discloses_def)
qed (use assms(2) in simp)

lemma reserve_slot_discloses:
  assumes "reserve_slot wx env c d k w = Inr (slot, w1)" and "discloses w"
  shows "discloses w1 \<and> walk_route w1 = walk_route w"
  by (rule reserve_slot_cases [OF assms(1)]) (use assms(2) in \<open>simp add: discloses_def\<close>)

lemma visit_rung_discloses:
  assumes "visit_rung wx env c w = Go_On w'" and ok: "discloses w"
  shows "discloses w'"
  using assms(1)
proof (cases rule: visit_rung_cases)
  case skipped
  then show ?thesis using ok by (simp add: discloses_def)
next
  case (shed d tier n_out s w1)
  then show ?thesis using reserve_slot_discloses [OF shed(3) ok] by (auto simp: shed_rung_def Let_def discloses_def split: if_splits)
next
  case (admitted d tier n_out slot ticket w1)
  from reserve_slot_discloses [OF admitted(4) ok] admitted(6) [symmetric] show ?thesis
    by (auto simp: start_rung_def Let_def reservation_failed_def attempt_started_def budget_rejected_def leave_rung_def
        give_back_def discloses_def split: sum.splits prod.splits ledger_verdict.splits option.splits if_splits)
qed simp_all

lemma start_rung_settled:
  assumes "\<And>j. dget (rr_tickets (walk_loads w)) (se_ticket (we_slot (envs j))) \<noteq> None \<Longrightarrow> ticket = Some (se_ticket (we_slot (envs j)))"
    and disclosed: "disclose wx c w = Inr (x, m)"
  shows "slots_settled envs (start_rung wx env c d tier n_out ticket w)"
proof -
  have free: "slots_free envs (walk_loads (give_back wx env c ticket (w\<lparr>aw_clock := n\<rparr>)))" for n
    by (rule give_back_frees) (use assms(1) in simp)
  have "slots_settled envs (budget_rejected wx c kind bd w1)" if "slots_free envs (walk_loads w1)" for kind bd w1
    using that by (auto simp: budget_rejected_def leave_rung_def split: sum.splits option.splits)
  moreover have "slots_settled envs (attempt_started wx env c d tier ticket a (w\<lparr>aw_clock := n\<rparr>))" for a n
  proof -
    have "dget (rr_attempts (bind t a loads)) a = Some t" if "dget (rr_tickets loads) t \<noteq> None" for t loads
      using that by (simp add: bind_def with_fleet_def)
    moreover have "rr_tickets (bind t a loads) = rr_tickets loads" for t loads by (simp add: bind_def with_fleet_def)
    ultimately show ?thesis using assms(1) by (fastforce simp: attempt_started_def Let_def split: option.splits)
  qed
  ultimately show ?thesis using free slots_settled_Leave disclosed
    by (auto simp: start_rung_def reservation_failed_def Let_def split: sum.splits prod.splits ledger_verdict.splits)
qed

lemma shed_rung_settled:
  assumes "slots_free envs (walk_loads w)"
  shows "slots_settled envs (shed_rung wx c s w)"
  using assms by (simp add: shed_rung_def Let_def)

lemma visit_settled:
  assumes "slots_free envs (walk_loads w)" and ok: "discloses w"
  shows "slots_settled envs (visit_rung wx env c w)"
proof (cases rule: visit_rung_cases [OF refl, of wx env c w, case_names unstaged skipped capped shed admitted])
  case (shed d tier n_out s w1)
  obtain loads sticky k where r: "reserve_rung_slot (we_slot env) (aw_entry w) d
      (rq_reserved_input_tokens (wx_request wx) + n_out) (aw_forced_overflow w)
      (aw_forced_overflow w \<and> Some c = wx_redial_depth wx)
      (case aw_failover w of None \<Rightarrow> False | Some f \<Rightarrow> fo_forcing f) (walk_loads w, wk_sticky (aw_worker w))
      = Inr (Slot_Shed s, loads, sticky)" and "walk_loads w1 = loads"
    by (rule reserve_slot_cases [OF shed(3)]) simp
  then have "slots_free envs (walk_loads w1)" using slot_tickets [OF r] assms(1) unfolding slots_free_def by blast
  then show ?thesis using shed(4) shed_rung_settled by simp
next
  case (admitted d tier n_out slot ticket w1)
  obtain loads sticky k where r: "reserve_rung_slot (we_slot env) (aw_entry w) d
      (rq_reserved_input_tokens (wx_request wx) + n_out) (aw_forced_overflow w)
      (aw_forced_overflow w \<and> Some c = wx_redial_depth wx)
      (case aw_failover w of None \<Rightarrow> False | Some f \<Rightarrow> fo_forcing f) (walk_loads w, wk_sticky (aw_worker w))
      = Inr (slot, loads, sticky)" and l: "walk_loads w1 = loads"
    by (rule reserve_slot_cases [OF admitted(4)]) simp
  have tickets: "ticket = Some (se_ticket (we_slot (envs j)))"
    if "dget (rr_tickets (walk_loads w1)) (se_ticket (we_slot (envs j))) \<noteq> None" for j
    using slot_tickets [OF r, of "se_ticket (we_slot (envs j))"] that l assms(1) admitted(5)
    by (auto simp: slots_free_def split: option.splits)
  note w1 = reserve_slot_discloses [OF admitted(4) ok]
  show ?thesis
  proof (cases "stage_for_depth (snapshot (walk_route w)) c")
    case (Inl e)
    then show ?thesis using assms(1) by (simp add: visit_rung_def)
  next
    case (Inr stage)
    then obtain x m where "disclose wx c w1 = Inr (x, m)" using disclose_returns w1 by metis
    then show ?thesis unfolding admitted(6) by (intro start_rung_settled tickets)
  qed
qed (use assms in simp_all)

text \<open>Other requests never hold a ticket of this call: tickets are fresh identifiers.\<close>

definition respects_tickets :: "(nat \<Rightarrow> walk_env) \<Rightarrow> bool" where
  "respects_tickets envs \<longleftrightarrow>
     (\<forall>i k. slots_free envs (wk_loads k) \<longrightarrow> slots_free envs (wk_loads (we_interference (envs i) k)))"

lemma walk_step_settled:
  assumes "slots_free envs (walk_loads w)" and "respects_tickets envs" and ok: "discloses w"
  shows "slots_settled envs (walk_step wx (envs i) w)"
    and "walk_step wx (envs i) w = Go_On w' \<Longrightarrow> discloses w'"
proof -
  let ?w = "w\<lparr>aw_worker := we_interference (envs i) (aw_worker w)\<rparr>"
  have free: "slots_free envs (walk_loads ?w)" using assms(1,2) by (simp add: respects_tickets_def)
  have ok': "discloses ?w" using ok by (simp add: discloses_def)
  then show "slots_settled envs (walk_step wx (envs i) w)"
    using free choose_target_frame [of wx ?w] choose_target_discloses [of wx ?w] visit_settled
    by (auto simp: walk_step_def Let_def split: sum.splits option.splits)
  show "walk_step wx (envs i) w = Go_On w' \<Longrightarrow> discloses w'"
    using ok' choose_target_discloses [of wx ?w] visit_rung_discloses
    by (fastforce simp: walk_step_def Let_def split: sum.splits option.splits if_splits)
qed

lemma run_walk_settled:
  assumes "respects_tickets envs" and "run_walk fuel wx envs i w = Some v" and "slots_free envs (walk_loads w)" and "discloses w"
  shows "slots_settled envs v"
  using assms(2-4)
proof (induction fuel arbitrary: i w)
  case (Suc fuel)
  from walk_step_settled [OF Suc.prems(2) assms(1) Suc.prems(3), of wx i] show ?case
    using Suc by (cases "walk_step wx (envs i) w") auto
qed simp

lemma begin_walk_frame:
  assumes "begin_walk sc e tiers k counters = Inr (wx, w)"
  shows "walk_loads w = wk_loads k" and "aw_entry w = e" and "wx_request wx = sc_request sc" and "\<not> aw_forced_overflow w"
  using assms
  by (auto simp: begin_walk_def begin_failover_def begin_dial_def initial_walk_def Let_def rbind_eq_Inr_iff
      split: option.splits prod.splits)


section \<open>Gates\<close>

text \<open>Until an attempt starts, the entry changes only in the pools the ledger denied.\<close>

definition same_request :: "inflight_request \<Rightarrow> inflight_request \<Rightarrow> bool" where
  "same_request e e' \<longleftrightarrow> (\<exists>pools. e' = e\<lparr>ir_denied_destination_pools := pools\<rparr>)"

lemma same_request_refl [simp]: "same_request e e"
  unfolding same_request_def by (rule exI [of _ "ir_denied_destination_pools e"]) simp

lemma same_request_trans: "same_request e e' \<Longrightarrow> same_request e' e'' \<Longrightarrow> same_request e e''"
  unfolding same_request_def by auto

lemma same_request_fields:
  assumes "same_request e e'"
  shows "ir_route e' = ir_route e" "ir_deadline e' = ir_deadline e" "ir_total_attempts e' = ir_total_attempts e"
    "ir_attempt_counts e' = ir_attempt_counts e" "ir_attempt_policy e' = ir_attempt_policy e"
    "ir_attempt_depths e' = ir_attempt_depths e"
  using assms by (auto simp: same_request_def)

text \<open>What starting an attempt takes, in the state \<open>w\<close> an iteration reached.\<close>

definition passed_gates :: "walk_context \<Rightarrow> walk_env \<Rightarrow> string \<Rightarrow> nat \<Rightarrow> inflight_request \<Rightarrow> attempt_start \<Rightarrow> bool" where
  "passed_gates wx env a c e args \<longleftrightarrow>
     we_active env \<and> we_monotonic env < ir_deadline e
     \<and> (\<exists>stage. stage_for_depth (snapshot (ir_route e)) c = Inr stage
          \<and> stage_pool_id stage \<notin> set (ir_denied_destination_pools e))
     \<and> permits (ir_attempt_policy e) (ir_total_attempts e) (ir_attempt_counts e ! c)
     \<and> as_depth args = c \<and> as_ordinal args = ir_total_attempts e
     \<and> tier_ceiling (rq_serving (wx_request wx)) (as_deployment args) (as_service_tier args) (as_reserved_input args)
          (as_reserved_output args) = Inr (as_maximum_cost args)
     \<and> we_ledger env args = Ledger_Started a"

lemma start_rung_started:
  assumes "start_rung wx env c d tier n_out ticket w = Leave (Reply_Started a c' pace) fin w'"
  obtains args where "c' = c" "as_depth args = c" "as_ordinal args = ir_total_attempts (aw_entry w)"
    "tier_ceiling (rq_serving (wx_request wx)) (as_deployment args) (as_service_tier args) (as_reserved_input args)
       (as_reserved_output args) = Inr (as_maximum_cost args)"
    "we_ledger env args = Ledger_Started a" "aw_entry w' = started_entry wx c a (aw_entry w)"
proof -
  obtain disclosed n where d: "disclose wx c w = Inr (disclosed, n)"
    using assms by (cases "disclose wx c w") (auto simp: start_rung_def split: prod.splits)
  obtain args where args: "start_arguments wx env c d tier n_out disclosed (w\<lparr>aw_clock := n\<rparr>) = Inr args"
    using assms by (cases "start_arguments wx env c d tier n_out disclosed (w\<lparr>aw_clock := n\<rparr>)")
      (auto simp: start_rung_def d Let_def reservation_failed_def)
  note body = assms [unfolded start_rung_def d sum.case prod.case Let_def args]
  have verdict: "we_ledger env args = Ledger_Started a" "c' = c" "aw_entry w' = started_entry wx c a (aw_entry w)"
    using body by (auto simp: attempt_started_def Let_def budget_rejected_def leave_rung_def reservation_failed_def
        split: ledger_verdict.splits sum.splits option.splits if_splits)
  from args have "as_depth args = c" "as_ordinal args = ir_total_attempts (aw_entry w)"
    "tier_ceiling (rq_serving (wx_request wx)) (as_deployment args) (as_service_tier args) (as_reserved_input args)
       (as_reserved_output args) = Inr (as_maximum_cost args)"
    by (auto simp: start_arguments_def Let_def rbind_eq_Inr_iff)
  with verdict that show thesis by blast
qed

lemma start_rung_same:
  assumes "start_rung wx env c d tier n_out ticket w = Go_On w'"
  shows "same_request (aw_entry w) (aw_entry w')"
proof -
  have "same_request e (e\<lparr>ir_denied_destination_pools := pools\<rparr>)" for e pools by (auto simp: same_request_def)
  then show ?thesis using assms
    by (auto simp: start_rung_def Let_def reservation_failed_def attempt_started_def budget_rejected_def leave_rung_def
        give_back_def split: sum.splits prod.splits ledger_verdict.splits option.splits if_splits)
qed

lemma visit_rung_started:
  assumes v: "visit_rung wx env c w = Leave (Reply_Started a c' pace) fin w'"
    and live: "we_active env" "we_monotonic env < ir_deadline (aw_entry w)"
  obtains args where "passed_gates wx env a c' (aw_entry w) args" "aw_entry w' = started_entry wx c' a (aw_entry w)"
  using v
proof (cases rule: visit_rung_cases)
  case (shed d tier n_out s w1)
  then show thesis by (simp add: shed_rung_def Let_def split: if_splits)
next
  case (admitted d tier n_out slot ticket w1)
  obtain args where g: "c' = c" "as_depth args = c" "as_ordinal args = ir_total_attempts (aw_entry w1)"
    "tier_ceiling (rq_serving (wx_request wx)) (as_deployment args) (as_service_tier args) (as_reserved_input args)
       (as_reserved_output args) = Inr (as_maximum_cost args)"
    "we_ledger env args = Ledger_Started a" "aw_entry w' = started_entry wx c a (aw_entry w1)"
    by (rule start_rung_started [OF admitted(6) [symmetric]])
  obtain stage where s: "stage_for_depth (snapshot (walk_route w)) c = Inr stage"
    using v by (cases "stage_for_depth (snapshot (walk_route w)) c") (simp_all add: visit_rung_def)
  have same: "aw_entry w1 = aw_entry w" by (rule reserve_slot_cases [OF admitted(4)]) simp
  have "passed_gates wx env a c' (aw_entry w) args"
    unfolding passed_gates_def using live g s admitted(1,3) same by (auto simp: denied_def)
  with g(1,6) same that show thesis by simp
qed simp_all

lemma visit_rung_same:
  assumes "visit_rung wx env c w = Go_On w'"
  shows "same_request (aw_entry w) (aw_entry w')"
  using assms
proof (cases rule: visit_rung_cases)
  case (shed d tier n_out s w1)
  have "aw_entry w1 = aw_entry w" by (rule reserve_slot_cases [OF shed(3)]) simp
  then show ?thesis using shed(4) by (auto simp: shed_rung_def Let_def split: if_splits)
next
  case (admitted d tier n_out slot ticket w1)
  have "aw_entry w1 = aw_entry w" by (rule reserve_slot_cases [OF admitted(4)]) simp
  then show ?thesis using start_rung_same [OF admitted(6) [symmetric]] by simp
qed simp_all

lemma run_walk_started:
  assumes "run_walk fuel wx envs i w = Some (Leave (Reply_Started a c pace) fin w')"
  shows "\<exists>j e' args. same_request (aw_entry w) e' \<and> passed_gates wx (envs j) a c e' args
    \<and> aw_entry w' = started_entry wx c a e'"
  using assms
proof (induction fuel arbitrary: i w)
  case (Suc fuel)
  let ?w = "w\<lparr>aw_worker := we_interference (envs i) (aw_worker w)\<rparr>"
  show ?case
  proof (cases "walk_step wx (envs i) w")
    case (Go_On w1)
    then obtain d w2 where "choose_target wx ?w = Inr (d, w2)" "visit_rung wx (envs i) d w2 = Go_On w1"
      by (auto simp: walk_step_def Let_def split: if_splits sum.splits)
    then have "same_request (aw_entry w) (aw_entry w1)"
      using choose_target_frame(2) [of wx ?w] visit_rung_same by fastforce
    with Suc.IH [of "Suc i" w1] Suc.prems Go_On show ?thesis using same_request_trans by (auto, blast)
  next
    case (Leave reply f w1)
    with Suc.prems have leave: "walk_step wx (envs i) w = Leave (Reply_Started a c pace) fin w'" by simp
    then obtain d w2 where t: "choose_target wx ?w = Inr (d, w2)"
      and v: "visit_rung wx (envs i) d w2 = Leave (Reply_Started a c pace) fin w'"
      and live: "we_active (envs i)" "we_monotonic (envs i) < ir_deadline (aw_entry w)"
      by (auto simp: walk_step_def Let_def split: if_splits sum.splits)
    have same: "aw_entry w2 = aw_entry w" using choose_target_frame(2) [OF t] by simp
    obtain args where "passed_gates wx (envs i) a c (aw_entry w2) args" "aw_entry w' = started_entry wx c a (aw_entry w2)"
      by (rule visit_rung_started [OF v]) (use live same in simp_all)
    with same show ?thesis by (metis same_request_refl)
  qed (use Suc.prems in simp)
qed simp

section \<open>Properties\<close>

text \<open>
  C18. Selecting and reserving a dispatch always returns, after a number of iterations that depends only on the length of
  the route: whatever the circuits, the admission registries, the budget ledger and the other requests of the worker do
  between two iterations, \<open>_start_attempt\<close> with enough fuel has one and the same outcome.
\<close>

theorem start_attempt_returns:
  assumes "call_ok sc e"
  shows "\<exists>out. \<forall>fuel \<ge> walk_bound (length (deployments (ir_route e))). start_attempt fuel sc e tiers k counters = Some out"
proof (cases "begin_walk sc e tiers k counters")
  case (Inl err)
  then show ?thesis by (auto simp: start_attempt_def split: option.splits)
next
  case (Inr start)
  obtain wx w where start: "start = (wx, w)" by fastforce
  note b = begin_walk_ok [OF assms Inr [unfolded start]]
  obtain v where "run_walk (walk_bound (length (deployments (ir_route e)))) wx (sc_envs sc) 0 w = Some v"
    using run_walk_ends [OF b(2,1,3)] by blast
  note v = run_walk_more_fuel [OF this]
  show ?thesis
    by (rule exI [of _ "the (start_attempt (walk_bound (length (deployments (ir_route e)))) sc e tiers k counters)"])
      (auto simp: start_attempt_def Inr start v split: option.splits)
qed

text \<open>
  C16. No slot leaks. For a request whose execution snapshot passed its validator, whatever happens on the ladder (sheds,
  fleet refusals, budget rejections, ledger errors, an exception, a cancelled request, a passed deadline), and whatever other
  requests do to the worker in between short of holding this call's fresh tickets, a slot that is still taken in the name of
  this call when it ends is the slot of the attempt it started, bound to that attempt so that its settlement releases it; a
  call that starts nothing leaves nothing behind.
\<close>

theorem slots_returned_or_started:
  assumes "respects_tickets (sc_envs sc)" and "slots_free (sc_envs sc) (wk_loads k)"
    and valid: "require_stage_projection (snapshot (ir_route e)) = Inr (snapshot (ir_route e))"
    and out: "start_attempt fuel sc e tiers k counters = Some out" and w: "so_walk out = Some w"
    and held: "dget (rr_tickets (wk_loads (aw_worker w))) (se_ticket (we_slot (sc_envs sc j))) \<noteq> None"
  shows "\<exists>a c pace. so_reply out = Reply_Started a c pace
    \<and> dget (rr_attempts (wk_loads (aw_worker w))) a = Some (se_ticket (we_slot (sc_envs sc j)))"
proof -
  obtain wx w0 v where b: "begin_walk sc e tiers k counters = Inr (wx, w0)"
    and v: "run_walk fuel wx (sc_envs sc) 0 w0 = Some v" "out = walk_outcome sc wx v"
    using out w by (auto simp: start_attempt_def early_outcome_def split: if_splits option.splits sum.splits)
  have "slots_settled (sc_envs sc) v"
    using run_walk_settled [OF assms(1) v(1)] begin_walk_frame [OF b] assms(2) valid by (simp add: discloses_def)
  then show ?thesis using v(2) w held
    by (cases "(sc_envs sc, v)" rule: slots_settled.cases) (auto simp: stopped_outcome_def Let_def slots_free_def)
qed

lemma start_attempt_passed:
  assumes out: "start_attempt fuel sc e tiers k counters = Some out"
    and started: "so_reply out = Reply_Started a c pace" and w: "so_walk out = Some w"
  obtains wx w0 j e' args where "begin_walk sc e tiers k counters = Inr (wx, w0)"
    "st_attempt_ordinal (sc_argument sc) = ir_total_attempts e" "same_request e e'"
    "passed_gates wx (sc_envs sc j) a c e' args" "aw_entry w = started_entry wx c a e'"
proof -
  obtain wx w0 v where b: "begin_walk sc e tiers k counters = Inr (wx, w0)"
    and v: "run_walk fuel wx (sc_envs sc) 0 w0 = Some v" "out = walk_outcome sc wx v"
    and ord: "st_attempt_ordinal (sc_argument sc) = ir_total_attempts e"
    using out w by (auto simp: start_attempt_def early_outcome_def split: if_splits option.splits sum.splits)
  obtain fin where "v = Leave (Reply_Started a c pace) fin w"
    using v(2) started w by (cases v) (auto simp: stopped_outcome_def Let_def)
  from run_walk_started [OF v(1) [unfolded this]] obtain j e' args where
    "same_request e e'" "passed_gates wx (sc_envs sc j) a c e' args" "aw_entry w = started_entry wx c a e'"
    using begin_walk_frame(2) [OF b] by auto
  with b ord show thesis by (rule that)
qed

text \<open>
  C17. Only permitted attempts start. An attempt that \<open>_start_attempt\<close> returns was reserved by an iteration in which the
  request was still active and before its deadline, at a rung whose pool the ledger had not denied, within the request's
  attempt limits, with the ordinal the caller expects; the ledger accepted exactly that reservation, at the ceiling of its
  deployment and tier; and the entry then counts this attempt, knows it as the active one and remembers its rung.
\<close>

theorem started_attempt_is_permitted:
  assumes out: "start_attempt fuel sc e tiers k counters = Some out"
    and started: "so_reply out = Reply_Started a c pace" and w: "so_walk out = Some w"
  shows "\<exists>i args. we_active (sc_envs sc i) \<and> we_monotonic (sc_envs sc i) < ir_deadline e
    \<and> (\<exists>stage. stage_for_depth (snapshot (ir_route e)) c = Inr stage
         \<and> stage_pool_id stage \<notin> set (ir_denied_destination_pools (aw_entry w)))
    \<and> permits (ir_attempt_policy e) (ir_total_attempts e) (ir_attempt_counts e ! c)
    \<and> we_ledger (sc_envs sc i) args = Ledger_Started a \<and> as_depth args = c
    \<and> as_ordinal args = st_attempt_ordinal (sc_argument sc)
    \<and> tier_ceiling (rq_serving (sc_request sc)) (as_deployment args) (as_service_tier args) (as_reserved_input args)
         (as_reserved_output args) = Inr (as_maximum_cost args)
    \<and> ir_total_attempts (aw_entry w) = ir_total_attempts e + 1
    \<and> ir_attempt_counts (aw_entry w) = bump c (ir_attempt_counts e)
    \<and> ir_active_attempt_id (aw_entry w) = Some a \<and> dget (ir_attempt_depths (aw_entry w)) a = Some c"
proof -
  obtain wx w0 j e' args where b: "begin_walk sc e tiers k counters = Inr (wx, w0)"
    and ord: "st_attempt_ordinal (sc_argument sc) = ir_total_attempts e"
    and s: "same_request e e'" "passed_gates wx (sc_envs sc j) a c e' args" "aw_entry w = started_entry wx c a e'"
    by (rule start_attempt_passed [OF out started w])
  then show ?thesis
    using same_request_fields [OF s(1)] begin_walk_frame(3) [OF b]
    by (intro exI [of _ j] exI [of _ args]) (auto simp: passed_gates_def started_entry_def)
qed

section \<open>A sample call\<close>

text \<open>A first dial on three bounded rungs: the budget of the first deployment is spent, the second starts.\<close>

definition sample_ledger :: "attempt_start \<Rightarrow> ledger_verdict" where
  "sample_ledger args = (if as_depth args = 0 then Ledger_Budget DEPLOYMENT None else Ledger_Started ''a1'')"

definition sample_walk_env :: "nat \<Rightarrow> walk_env" where
  "sample_walk_env i = \<lparr>we_active = True, we_monotonic = 5, we_interference = (\<lambda>k. k),
     we_wall = Aware 0,
     we_slot = sample_env (if i = 0 then ''t0'' else ''t1'') 5, we_ledger = sample_ledger, we_sticky_now = 5,
     we_release_now = 5, we_gate_raises = False\<rparr>"

definition sample_attempt_request :: attempt_request where
  "sample_attempt_request = \<lparr>rq_serving = Gateway_Request False False, rq_maximum_output_tokens = Some 100,
     rq_output_token_reservation = 0, rq_service_tier = None, rq_reserved_input_tokens = 10,
     rq_tier_forwarded_by_depth = [], rq_reserved_output_tokens_by_depth = [], rq_recovery_reason = None,
     rq_no_paid_prework = True\<rparr>"

definition sample_start_call :: start_call where
  "sample_start_call = \<lparr>sc_argument = \<lparr>st_attempt_ordinal = 0, st_failure = None, st_current_depth = None,
       st_throttle_backoff = False, st_tool_search_round = False, st_reasoning_repair = False\<rparr>,
     sc_request = sample_attempt_request, sc_recovery_host = False, sc_clock = sample_clock, sc_pending_abandon = None,
     sc_authority = None, sc_monotonic = 5, sc_loads_now = 5, sc_envs = sample_walk_env, sc_remaining_now = 5,
     sc_certified = False, sc_abandoned = False\<rparr>"

definition sample_first_entry :: inflight_request where
  "sample_first_entry = sample_entry\<lparr>ir_route := sample_route (Some sample_bounded), ir_attempt_counts := [0, 0, 0],
     ir_ordinary_attempt_counts := [0, 0, 0], ir_total_attempts := 0, ir_active_attempt_id := None,
     ir_attempt_depths := []\<rparr>"

definition zero_counters :: accounting_counters where
  "zero_counters = \<lparr>rung_admission_sheds = 0, rung_saturated_overflows = 0, rung_saturation_refusals = 0,
     rung_rate_limit_sheds = 0, rung_fresh_session_spills = 0, throttles_surfaced = 0, throttles_failed_over = 0,
     throttle_backoff_redials = 0, throttle_backoff_forced = 0\<rparr>"

lemma sample_call_ok: "call_ok sample_start_call sample_first_entry"
  using sample_clock_mono
  by (simp add: call_ok_def sample_start_call_def sample_first_entry_def sample_entry_def sample_route_def sample_snapshot_def)

lemma sample_call_runs:
  "\<exists>out w pace. start_attempt 3 sample_start_call sample_first_entry [] default_worker zero_counters = Some out
     \<and> so_reply out = Reply_Started ''a1'' 1 pace \<and> so_walk out = Some w
     \<and> map fst (rr_tickets (wk_loads (aw_worker w))) = [''t1'']"
proof -
  have "(case start_attempt 3 sample_start_call sample_first_entry [] default_worker zero_counters of
      None \<Rightarrow> False
    | Some out \<Rightarrow> (case so_reply out of Reply_Started a c pace \<Rightarrow> a = ''a1'' \<and> c = 1 | _ \<Rightarrow> False)
        \<and> (case so_walk out of None \<Rightarrow> False | Some w \<Rightarrow> map fst (rr_tickets (wk_loads (aw_worker w))) = [''t1'']))"
    by code_simp
  then show ?thesis by (auto split: option.splits start_reply.splits)
qed

theorem start_attempt_returns_witness:
  "call_ok sample_start_call sample_first_entry
   \<and> (\<exists>out. start_attempt 144 sample_start_call sample_first_entry [] default_worker zero_counters = Some out)"
proof -
  have "length (deployments (ir_route sample_first_entry)) = 3"
    by (simp add: sample_first_entry_def sample_route_def deployments_def)
  then have "walk_bound (length (deployments (ir_route sample_first_entry))) = 144" by (simp add: walk_bound_def)
  with start_attempt_returns [OF sample_call_ok, of "[]" default_worker zero_counters] sample_call_ok
  show ?thesis by auto
qed

theorem slots_returned_or_started_witness:
  "\<exists>out w. start_attempt 3 sample_start_call sample_first_entry [] default_worker zero_counters = Some out
    \<and> so_walk out = Some w \<and> dget (rr_tickets (wk_loads (aw_worker w))) ''t1'' \<noteq> None
    \<and> dget (rr_attempts (wk_loads (aw_worker w))) ''a1'' = Some ''t1''"
proof -
  have envs: "sc_envs sample_start_call = sample_walk_env" by (simp add: sample_start_call_def)
  have r: "respects_tickets (sc_envs sample_start_call)" by (simp add: respects_tickets_def envs sample_walk_env_def)
  have f: "slots_free (sc_envs sample_start_call) (wk_loads default_worker)"
    by (simp add: slots_free_def default_worker_def default_rung_registry_def dget_def)
  obtain out w pace where o: "start_attempt 3 sample_start_call sample_first_entry [] default_worker zero_counters = Some out"
    "so_reply out = Reply_Started ''a1'' 1 pace" "so_walk out = Some w"
    "map fst (rr_tickets (wk_loads (aw_worker w))) = [''t1'']"
    using sample_call_runs by (elim exE conjE) (rule that)
  have t: "se_ticket (we_slot (sc_envs sample_start_call 1)) = ''t1''"
    by (simp add: envs sample_walk_env_def sample_env_def)
  have held: "dget (rr_tickets (wk_loads (aw_worker w))) ''t1'' \<noteq> None"
    using o(4) by (auto simp: dget_def map_eq_Cons_conv)
  have "\<exists>a c pace. so_reply out = Reply_Started a c pace
      \<and> dget (rr_attempts (wk_loads (aw_worker w))) a = Some (se_ticket (we_slot (sc_envs sample_start_call 1)))"
    by (rule slots_returned_or_started [OF r f _ o(1,3)])
      (use held t in \<open>simp_all add: sample_first_entry_def sample_route_def require_stage_projection_def sample_snapshot_def sample_stage_def\<close>)
  then have "dget (rr_attempts (wk_loads (aw_worker w))) ''a1'' = Some ''t1''" using o(2) t by simp
  with o held show ?thesis by blast
qed

theorem started_attempt_is_permitted_witness:
  "\<exists>out w. start_attempt 3 sample_start_call sample_first_entry [] default_worker zero_counters = Some out
    \<and> so_walk out = Some w \<and> ir_attempt_counts (aw_entry w) = [0, 1, 0] \<and> ir_total_attempts (aw_entry w) = 1"
proof -
  obtain out w pace where o: "start_attempt 3 sample_start_call sample_first_entry [] default_worker zero_counters = Some out"
    "so_reply out = Reply_Started ''a1'' 1 pace" "so_walk out = Some w"
    using sample_call_runs by blast
  have "bump 1 (ir_attempt_counts sample_first_entry) = [0, 1, 0]" "ir_total_attempts sample_first_entry = 0"
    by (simp_all add: sample_first_entry_def bump_def)
  with started_attempt_is_permitted [OF o] o show ?thesis by auto
qed

end
