(* ===== verification/Budget_Accounts.thy ===== *)
theory Budget_Accounts
  imports Budgets
begin

text \<open>
  What the monthly budgets promise: the materialised counters of every limit are the exact sums of its
  charge rows under every sequence of transactions, admission never takes a limit past its cap,
  settlement moves each charge once, and no counter leaves the signed 64-bit range.
\<close>

section \<open>The invariant\<close>

text \<open>What one charge row contributes to the reserved, settled and unknown counters of its limit.\<close>

definition open_reserved :: "charge_row \<Rightarrow> int" where
  "open_reserved c = (if c_settled c = None then or0 (c_reserved c) else 0)"

definition settled_part :: "charge_row \<Rightarrow> int" where
  "settled_part c = or0 (c_settled c)"

definition unknown_part :: "charge_row \<Rightarrow> int" where
  "unknown_part c = (if unknown_charge c then 1 else 0)"

definition charge_sum :: "(charge_row \<Rightarrow> int) \<Rightarrow> string \<Rightarrow> charge_row list \<Rightarrow> int" where
  "charge_sum g bid cs = (\<Sum>c \<leftarrow> cs. if c_budget_id c = bid then g c else 0)"

definition counters_ok :: "charge_row list \<Rightarrow> budget_row \<Rightarrow> bool" where
  "counters_ok cs b \<longleftrightarrow>
     reserved_nano_usd b = charge_sum open_reserved (budget_id b) cs
     \<and> settled_nano_usd b = charge_sum settled_part (budget_id b) cs
     \<and> unknown_cost_attempts b = charge_sum unknown_part (budget_id b) cs"

definition charge_ok :: "charge_row \<Rightarrow> bool" where
  "charge_ok c \<longleftrightarrow> opt_ge 0 (c_reserved c) \<and> opt_ge 0 (c_settled c)"

definition budget_fits :: "budget_row \<Rightarrow> bool" where
  "budget_fits b \<longleftrightarrow> 0 \<le> limit_nano_usd b \<and> limit_nano_usd b \<le> MAXIMUM_NANO_USD
     \<and> reserved_nano_usd b \<le> MAXIMUM_NANO_USD \<and> settled_nano_usd b \<le> MAXIMUM_NANO_USD"

definition attempts_ok :: "attempt_record list \<Rightarrow> bool" where
  "attempts_ok as \<longleftrightarrow> distinct (map a_attempt_id as)
     \<and> (\<forall>a \<in> set as. opt_ge 0 (a_budget_reserved a) \<and> opt_ge 0 (a_budget_settled a)
          \<and> opt_ge 0 (a_estimated_cost a))"

definition budget_inv :: "budget_db \<Rightarrow> bool" where
  "budget_inv db \<longleftrightarrow>
     distinct (map budget_id (budgets db)) \<and> distinct (map charge_key (charges db))
     \<and> (\<forall>c \<in> set (charges db). c_budget_id c \<in> budget_id ` set (budgets db) \<and> charge_ok c)
     \<and> (\<forall>b \<in> set (budgets db). counters_ok (charges db) b \<and> budget_fits b)
     \<and> attempts_ok (attempts db)"

section \<open>Sums over charges\<close>

lemma charge_sum_append: "charge_sum g bid (cs @ ds) = charge_sum g bid cs + charge_sum g bid ds"
  by (simp add: charge_sum_def)

lemma charge_sum_Nil [simp]: "charge_sum g bid [] = 0"
  by (simp add: charge_sum_def)

lemma charge_sum_absent: "(\<And>c. c \<in> set cs \<Longrightarrow> c_budget_id c \<noteq> bid) \<Longrightarrow> charge_sum g bid cs = 0"
  by (induction cs) (auto simp: charge_sum_def)

lemma charge_sum_nonneg:
  "(\<And>c. c \<in> set cs \<Longrightarrow> 0 \<le> g c) \<Longrightarrow> 0 \<le> charge_sum g bid cs"
  unfolding charge_sum_def by (intro sum_list_nonneg) auto

lemma charge_sum_ge_member:
  assumes "c \<in> set cs" and "c_budget_id c = bid" and "\<And>c. c \<in> set cs \<Longrightarrow> 0 \<le> g c"
  shows "g c \<le> charge_sum g bid cs"
proof -
  let ?g = "\<lambda>c. if c_budget_id c = bid then g c else 0"
  have "?g c \<le> sum_list (map ?g cs)"
    using assms by (intro member_le_sum_list) auto
  then show ?thesis using assms(2) by (simp add: charge_sum_def)
qed

lemma charge_parts_nonneg:
  "charge_ok c \<Longrightarrow> 0 \<le> open_reserved c" "charge_ok c \<Longrightarrow> 0 \<le> settled_part c" "0 \<le> unknown_part c"
  by (auto simp: charge_ok_def open_reserved_def settled_part_def unknown_part_def or0_nonneg)

text \<open>Settling the one open charge with a given key moves its contribution.\<close>

lemma charge_sum_update:
  assumes "distinct (map charge_key cs)" and "c \<in> set cs" and "Q c"
    and "\<And>x. c_budget_id (f x) = c_budget_id x"
  shows "charge_sum g bid (update_where (\<lambda>x. charge_key x = charge_key c \<and> Q x) f cs)
    = charge_sum g bid cs + (if c_budget_id c = bid then g (f c) - g c else 0)"
  unfolding charge_sum_def
  by (subst sum_list_update_key [where key = charge_key and r = c and Q = Q, OF assms(1-3)]) (simp add: assms(4))

lemma budget_inv_nonneg:
  assumes "budget_inv db" and "b \<in> set (budgets db)"
  shows "0 \<le> reserved_nano_usd b" "0 \<le> settled_nano_usd b" "0 \<le> unknown_cost_attempts b"
  using assms charge_parts_nonneg
  by (auto simp: budget_inv_def counters_ok_def intro!: charge_sum_nonneg)

lemma budget_invD:
  assumes "budget_inv db"
  shows "distinct (map budget_id (budgets db))" "distinct (map charge_key (charges db))"
    "\<And>c. c \<in> set (charges db) \<Longrightarrow> c_budget_id c \<in> budget_id ` set (budgets db) \<and> charge_ok c"
    "\<And>b. b \<in> set (budgets db) \<Longrightarrow> counters_ok (charges db) b \<and> budget_fits b"
    "attempts_ok (attempts db)"
  using assms by (auto simp: budget_inv_def)

text \<open>A transaction that keeps the limits and attempts of \<open>db\<close> in place and re-establishes the sums.\<close>

lemma budget_invI:
  assumes "distinct (map budget_id (budgets db))" and "attempts_ok (attempts db)"
    and "map budget_id (budgets db') = map budget_id (budgets db)"
    and "distinct (map charge_key (charges db'))"
    and "\<And>c. c \<in> set (charges db') \<Longrightarrow> c_budget_id c \<in> budget_id ` set (budgets db) \<and> charge_ok c"
    and "\<And>b. b \<in> set (budgets db') \<Longrightarrow> counters_ok (charges db') b \<and> budget_fits b"
    and "attempts db' = attempts db"
  shows "budget_inv db'"
proof -
  have "budget_id ` set (budgets db') = budget_id ` set (budgets db)"
    using assms(3) by (metis set_map)
  then show ?thesis unfolding budget_inv_def using assms by auto
qed

section \<open>Reservation\<close>

definition reserve_budget :: "int option \<Rightarrow> budget_row \<Rightarrow> budget_row" where
  "reserve_budget maximum b =
     (case maximum of None \<Rightarrow> b\<lparr>unknown_cost_attempts := unknown_cost_attempts b + 1\<rparr>
      | Some cost \<Rightarrow> b\<lparr>reserved_nano_usd := reserved_nano_usd b + cost\<rparr>)"

definition reserve_charge :: "string \<Rightarrow> int option \<Rightarrow> string \<Rightarrow> charge_row" where
  "reserve_charge attempt maximum bid =
     \<lparr>c_budget_id = bid, c_attempt_id = attempt, c_reserved = maximum, c_settled = None\<rparr>"

lemma reserve_budget_fields [simp]:
  "budget_id (reserve_budget m b) = budget_id b"
  "limit_nano_usd (reserve_budget m b) = limit_nano_usd b"
  "settled_nano_usd (reserve_budget m b) = settled_nano_usd b"
  "reserved_nano_usd (reserve_budget m b) = reserved_nano_usd b + or0 m"
  "unknown_cost_attempts (reserve_budget m b) = unknown_cost_attempts b + (if m = None then 1 else 0)"
  by (auto simp: reserve_budget_def split: option.splits)

lemma reserve_charge_fields [simp]:
  "c_budget_id (reserve_charge a m bid) = bid" "charge_key (reserve_charge a m bid) = (bid, a)"
  "charge_ok (reserve_charge a m bid) = opt_ge 0 m"
  "open_reserved (reserve_charge a m bid) = or0 m" "settled_part (reserve_charge a m bid) = 0"
  "unknown_part (reserve_charge a m bid) = (if m = None then 1 else 0)"
  by (simp_all add: reserve_charge_def charge_key_def charge_ok_def open_reserved_def settled_part_def
      unknown_part_def unknown_charge_def)

lemma reserve_row_eq:
  "reserve_row attempt maximum bid db =
     insert_charge (reserve_charge attempt maximum bid) (update_budget bid (reserve_budget maximum) db)"
  by (cases maximum) (simp_all add: reserve_row_def reserve_charge_def reserve_budget_def [abs_def])

lemma update_where_or:
  "(\<And>r. P r \<Longrightarrow> \<not> Q (f r)) \<Longrightarrow>
   update_where Q f (update_where P f rs) = update_where (\<lambda>r. P r \<or> Q r) f rs"
  by (auto simp: update_where_def)

text \<open>The second loop in closed form: a primary-key clash, or one charge and one counter update per limit.\<close>

lemma reserve_rows:
  assumes "distinct ids"
  shows "rfold (reserve_row attempt m) ids db =
    (if \<exists>bid \<in> set ids. (bid, attempt) \<in> charge_key ` set (charges db)
     then Inl (IntegrityError ''UNIQUE constraint failed: gateway_attempt_budget_charges'')
     else Inr (db\<lparr>budgets := update_where (\<lambda>b. budget_id b \<in> set ids) (reserve_budget m) (budgets db),
                  charges := charges db @ map (reserve_charge attempt m) ids\<rparr>))"
  using assms
proof (induction ids arbitrary: db)
  case Nil
  show ?case by (cases db) (simp add: update_where_def)
next
  case (Cons bid ids)
  let ?db = "db\<lparr>budgets := update_where (\<lambda>b. budget_id b = bid) (reserve_budget m) (budgets db),
                charges := charges db @ [reserve_charge attempt m bid]\<rparr>"
  have row: "reserve_row attempt m bid db =
    (if (bid, attempt) \<in> charge_key ` set (charges db)
     then Inl (IntegrityError ''UNIQUE constraint failed: gateway_attempt_budget_charges'') else Inr ?db)"
    by (simp add: reserve_row_eq insert_charge_def update_budget_def)
  have upd: "update_where (\<lambda>b. budget_id b \<in> set ids) (reserve_budget m)
      (update_where (\<lambda>b. budget_id b = bid) (reserve_budget m) (budgets db))
    = update_where (\<lambda>b. budget_id b \<in> set (bid # ids)) (reserve_budget m) (budgets db)"
    using Cons.prems by (subst update_where_or) auto
  have "\<forall>x \<in> set ids. (x, attempt) \<noteq> (bid, attempt)" using Cons.prems by auto
  with Cons show ?case unfolding rfold.simps row by (auto simp: upd)
qed

lemma select_applicable_set [simp]: "set (select_applicable a bs) = {b \<in> set bs. applicable a b}"
  by (simp add: select_applicable_def)

lemma select_applicable_distinct:
  assumes "distinct (map budget_id bs)"
  shows "distinct (map budget_id (select_applicable a bs))"
  using assms by (auto simp: select_applicable_def distinct_map intro: inj_on_subset)

lemma first_refusal_None: "first_refusal a bs = None \<longleftrightarrow> (\<forall>b \<in> set bs. row_refusal (arg_maximum_cost a) b = None)"
  by (induction bs) (auto split: option.splits)

text \<open>A limit that does not refuse has room for the whole reservation, or the reservation is free.\<close>

lemma row_refusal_room:
  assumes "row_refusal (Some cost) b = None" and "0 \<le> cost"
  shows "cost = 0 \<or> reserved_nano_usd b + cost + settled_nano_usd b \<le> limit_nano_usd b"
  using assms by (auto simp: row_refusal_def Let_def split: if_splits)

text \<open>The effect of an admitted reservation.\<close>

lemma require_attempt_budget_Inr:
  assumes "require_attempt_budget a db = Inr db'" and "distinct (map budget_id (budgets db))"
  defines "ids \<equiv> map budget_id (select_applicable a (budgets db))"
  shows "db' = db\<lparr>budgets := update_where (\<lambda>b. budget_id b \<in> set ids) (reserve_budget (arg_maximum_cost a)) (budgets db),
                  charges := charges db @ map (reserve_charge (arg_attempt_id a) (arg_maximum_cost a)) ids\<rparr>"
    and "\<forall>bid \<in> set ids. (bid, arg_attempt_id a) \<notin> charge_key ` set (charges db)"
    and "\<forall>b \<in> set (budgets db). applicable a b \<longrightarrow> row_refusal (arg_maximum_cost a) b = None"
  using assms(1) reserve_rows [OF select_applicable_distinct [OF assms(2), of a]]
  by (auto simp: require_attempt_budget_def Let_def ids_def first_refusal_None split: option.splits sum.splits if_splits)

lemma map_charge_sum:
  "distinct ids \<Longrightarrow> charge_sum g bid (map (reserve_charge a m) ids)
    = (if bid \<in> set ids then g (reserve_charge a m bid) else 0)"
  by (induction ids) (auto simp: charge_sum_def)

lemma reserve_counters:
  "counters_ok cs b \<Longrightarrow> distinct ids \<Longrightarrow>
   counters_ok (cs @ map (reserve_charge a m) ids) (if budget_id b \<in> set ids then reserve_budget m b else b)"
  by (simp add: counters_ok_def charge_sum_append map_charge_sum)

lemma reserve_fits:
  assumes "budget_fits b" and "0 \<le> settled_nano_usd b" and "row_refusal m b = None" and "opt_ge 0 m"
  shows "budget_fits (reserve_budget m b)"
proof (cases m)
  case None
  with assms(1) show ?thesis by (simp add: budget_fits_def)
next
  case (Some c)
  with assms have "c = 0 \<or> reserved_nano_usd b + c + settled_nano_usd b \<le> limit_nano_usd b"
    by (intro row_refusal_room) auto
  with assms(1,2) Some show ?thesis by (auto simp: budget_fits_def)
qed

lemma require_attempt_budget_inv:
  assumes inv: "budget_inv db" and req: "require_attempt_budget a db = Inr db'"
    and cost: "opt_ge 0 (arg_maximum_cost a)"
  shows "budget_inv db'"
proof (rule budget_invI)
  let ?m = "arg_maximum_cost a" and ?ids = "map budget_id (select_applicable a (budgets db))"
  let ?f = "\<lambda>b. if budget_id b \<in> set ?ids then reserve_budget ?m b else b"
  note d = budget_invD [OF inv]
  note eff = require_attempt_budget_Inr [OF req d(1)]
  have dids: "distinct ?ids" by (rule select_applicable_distinct [OF d(1)])
  have b': "budgets db' = map ?f (budgets db)" by (simp add: eff(1) update_where_def)
  have c': "charges db' = charges db @ map (reserve_charge (arg_attempt_id a) ?m) ?ids" by (simp add: eff(1))
  have same: "budget_id (?f b) = budget_id b" for b by simp
  show ids': "map budget_id (budgets db') = map budget_id (budgets db)"
    unfolding b' map_map comp_def same ..
  show "distinct (map charge_key (charges db'))"
    using d(2) dids eff(2) by (auto simp: c' distinct_map inj_on_def)
  show "c_budget_id c \<in> budget_id ` set (budgets db) \<and> charge_ok c" if "c \<in> set (charges db')" for c
    using that d(3) cost by (auto simp: c')
  show "counters_ok (charges db') b \<and> budget_fits b" if b: "b \<in> set (budgets db')" for b
  proof -
    from b obtain b0 where b0: "b0 \<in> set (budgets db)" "b = ?f b0" by (auto simp: b')
    have "budget_fits (?f b0)"
    proof (cases "budget_id b0 \<in> set ?ids")
      case True
      then have "applicable a b0" using distinct_key_eq [OF d(1)] b0(1) by fastforce
      with True d(4) [OF b0(1)] budget_inv_nonneg(2) [OF inv b0(1)] eff(3) b0(1) cost show ?thesis
        by (simp only: if_True) (intro reserve_fits, auto)
    qed (use d(4) [OF b0(1)] in simp)
    moreover have "counters_ok (charges db') (?f b0)"
      unfolding c' using d(4) [OF b0(1)] by (intro reserve_counters dids) blast
    ultimately show ?thesis by (simp only: b0(2))
  qed
  show "attempts db' = attempts db" by (simp add: eff(1))
qed (use budget_invD [OF inv] in auto)

section \<open>Settlement\<close>

definition settle_row_of :: "charge_row \<Rightarrow> budget_row \<Rightarrow> settle_row" where
  "settle_row_of c b = \<lparr>sr_budget_id = c_budget_id c, sr_reserved = c_reserved c, sr_settled = c_settled c,
     sr_budget_settled = settled_nano_usd b\<rparr>"

lemma open_charge_eq:
  "c_settled c = None \<Longrightarrow> c_attempt_id c = attempt \<Longrightarrow>
   open_charge (c_budget_id c) attempt = (\<lambda>x. charge_key x = charge_key c \<and> c_settled x = None)"
  by (auto simp: open_charge_def charge_key_def)

lemma settle_update_fields [simp]:
  "budget_id (settle_update r v b) = budget_id b"
  "limit_nano_usd (settle_update r v b) = limit_nano_usd b"
  "settled_nano_usd (settle_update r v b) = settled_nano_usd b + v"
  "reserved_nano_usd (settle_update r v b) = reserved_nano_usd b - or0 (sr_reserved r)"
  "unknown_cost_attempts (settle_update r v b) = unknown_cost_attempts b - (if sr_reserved r = None then 1 else 0)"
  by (auto simp: settle_update_def split: option.splits)

text \<open>Consistent counters never fail the guarded update of an open charge.\<close>

lemma settle_guard_holds:
  assumes inv: "budget_inv db" and c: "c \<in> set (charges db)" "c_settled c = None"
    and b: "b \<in> set (budgets db)" "budget_id b = c_budget_id c"
  shows "settle_guard (settle_row_of c b) b"
proof -
  note d = budget_invD [OF inv]
  have cnt: "counters_ok (charges db) b" using d(4) b(1) by blast
  have ge: "g c \<le> charge_sum g (budget_id b) (charges db)"
    if "\<And>c. charge_ok c \<Longrightarrow> 0 \<le> g c" for g
    using c(1) b(2) d(3) that by (intro charge_sum_ge_member) auto
  from cnt ge [of open_reserved] ge [of unknown_part] charge_parts_nonneg c(2) b(2) show ?thesis
    by (auto simp: settle_guard_def settle_row_of_def counters_ok_def open_reserved_def unknown_part_def
        unknown_charge_def split: option.splits)
qed

lemma settle_guard_only:
  assumes "distinct (map budget_id bs)" and "b \<in> set bs" and "settle_guard r b" and "x \<in> set bs"
  shows "settle_guard r x \<longleftrightarrow> x = b"
  using assms distinct_key_eq [OF assms(1)] by (auto simp: settle_guard_def)

text \<open>One settled charge: its effect, and that the sums are kept.\<close>

definition settle_effect :: "string \<Rightarrow> settle_row \<Rightarrow> int \<Rightarrow> budget_db \<Rightarrow> budget_db" where
  "settle_effect attempt r v db =
     db\<lparr>budgets := update_where (settle_guard r) (settle_update r v) (budgets db),
        charges := update_where (open_charge (sr_budget_id r) attempt) (\<lambda>c. c\<lparr>c_settled := Some v\<rparr>) (charges db)\<rparr>"

lemma settle_one_open:
  assumes inv: "budget_inv db" and c: "c \<in> set (charges db)" "c_settled c = None" "c_attempt_id c = attempt"
    and b: "b \<in> set (budgets db)" "budget_id b = c_budget_id c"
  shows "settle_one attempt (Some v) (settle_row_of c b) db =
    (if settled_nano_usd b + v > MAXIMUM_NANO_USD
     then Inl (ValueError ''settled monthly gateway cost exceeds SQLite integer capacity'')
     else Inr (settle_effect attempt (settle_row_of c b) v db))"
proof -
  note d = budget_invD [OF inv]
  have "rowcount (settle_guard (settle_row_of c b)) (budgets db) = 1"
  proof -
    have "filter (settle_guard (settle_row_of c b)) (budgets db)
        = filter (\<lambda>x. budget_id x = budget_id b \<and> settle_guard (settle_row_of c b) x) (budgets db)"
      using b(2) by (intro filter_cong) (auto simp: settle_guard_def settle_row_of_def)
    then show ?thesis
      unfolding rowcount_def
      using rowcount_key [where Q = "settle_guard (settle_row_of c b)", OF d(1) b(1) settle_guard_holds [OF inv c(1,2) b]]
      by (simp only: rowcount_def)
  qed
  moreover have "rowcount (open_charge (c_budget_id c) attempt) (charges db) = 1"
    unfolding open_charge_eq [OF c(2,3)] by (rule rowcount_key [where Q = "\<lambda>x. c_settled x = None", OF d(2) c(1,2)])
  ultimately show ?thesis using c(2) by (simp add: settle_one_def settle_row_of_def settle_effect_def)
qed

lemma settle_effect_counters:
  assumes inv: "budget_inv db" and c: "c \<in> set (charges db)" "c_settled c = None" "c_attempt_id c = attempt"
    and b: "b \<in> set (budgets db)" "budget_id b = c_budget_id c" and x: "x \<in> set (budgets db)"
  shows "counters_ok (charges (settle_effect attempt (settle_row_of c b) v db))
    (if settle_guard (settle_row_of c b) x then settle_update (settle_row_of c b) v x else x)"
proof -
  note d = budget_invD [OF inv]
  let ?r = "settle_row_of c b"
  have id: "sr_budget_id ?r = c_budget_id c" "sr_reserved ?r = c_reserved c" by (simp_all add: settle_row_of_def)
  have cs: "charges (settle_effect attempt ?r v db)
      = update_where (\<lambda>y. charge_key y = charge_key c \<and> c_settled y = None) (\<lambda>y. y\<lparr>c_settled := Some v\<rparr>) (charges db)"
    by (simp add: settle_effect_def id open_charge_eq [OF c(2,3)])
  have sum: "charge_sum g bid (charges (settle_effect attempt ?r v db))
      = charge_sum g bid (charges db) + (if c_budget_id c = bid then g (c\<lparr>c_settled := Some v\<rparr>) - g c else 0)" for g bid
    unfolding cs by (rule charge_sum_update [where Q = "\<lambda>y. c_settled y = None", OF d(2) c(1,2)]) simp
  have guard: "settle_guard ?r x \<longleftrightarrow> x = b"
    by (rule settle_guard_only [OF d(1) b(1) settle_guard_holds [OF inv c(1,2) b] x])
  have other: "x \<noteq> b \<Longrightarrow> c_budget_id c \<noteq> budget_id x"
    using distinct_key_eq [OF d(1) b(1) x] b(2) by metis
  have cnt: "counters_ok (charges db) x" using d(4) x by blast
  show ?thesis
  proof (cases "x = b")
    case True
    with cnt b(2) c(2) settle_guard_holds [OF inv c(1,2) b] show ?thesis
      unfolding counters_ok_def sum
      by (simp add: id open_reserved_def settled_part_def unknown_part_def unknown_charge_def)
  next
    case False
    with cnt other show ?thesis unfolding counters_ok_def sum by (simp add: guard)
  qed
qed

lemma settle_effect_inv:
  assumes inv: "budget_inv db" and c: "c \<in> set (charges db)" "c_settled c = None" "c_attempt_id c = attempt"
    and b: "b \<in> set (budgets db)" "budget_id b = c_budget_id c"
    and v: "0 \<le> v" "settled_nano_usd b + v \<le> MAXIMUM_NANO_USD"
  shows "budget_inv (settle_effect attempt (settle_row_of c b) v db)"
proof (rule budget_invI [OF budget_invD(1) [OF inv] budget_invD(5) [OF inv]])
  note d = budget_invD [OF inv]
  let ?r = "settle_row_of c b" and ?db = "settle_effect attempt (settle_row_of c b) v db"
  show "map budget_id (budgets ?db) = map budget_id (budgets db)"
    by (simp add: settle_effect_def map_update_where)
  show "distinct (map charge_key (charges ?db))"
    using d(2) by (simp add: settle_effect_def map_update_where charge_key_def [abs_def])
  show "c_budget_id c' \<in> budget_id ` set (budgets db) \<and> charge_ok c'" if "c' \<in> set (charges ?db)" for c'
  proof -
    from that obtain c0 where "c0 \<in> set (charges db)" "c' = c0 \<or> c' = c0\<lparr>c_settled := Some v\<rparr>"
      by (auto simp: settle_effect_def set_update_where)
    with d(3) [of c0] v(1) show ?thesis by (auto simp: charge_ok_def)
  qed
  show "counters_ok (charges ?db) x' \<and> budget_fits x'" if x': "x' \<in> set (budgets ?db)" for x'
  proof -
    let ?f = "\<lambda>x. if settle_guard ?r x then settle_update ?r v x else x"
    from x' obtain x where x: "x \<in> set (budgets db)" "x' = ?f x"
      by (auto simp: settle_effect_def update_where_def)
    have "settle_guard ?r x \<longleftrightarrow> x = b"
      by (rule settle_guard_only [OF d(1) b(1) settle_guard_holds [OF inv c(1,2) b] x(1)])
    moreover have "0 \<le> or0 (sr_reserved ?r)"
      using d(3) [OF c(1)] by (simp add: settle_row_of_def charge_ok_def or0_nonneg)
    ultimately have "budget_fits (?f x)" using d(4) [OF x(1)] v(2) by (auto simp: budget_fits_def)
    with settle_effect_counters [OF inv c b x(1)] show ?thesis by (simp only: x(2))
  qed
  show "attempts ?db = attempts db" by (simp add: settle_effect_def)
qed

text \<open>The rows still to settle agree with the tables, one per limit, and cover every open charge.\<close>

definition settle_ready :: "string \<Rightarrow> settle_row list \<Rightarrow> budget_db \<Rightarrow> bool" where
  "settle_ready attempt rs db \<longleftrightarrow>
     distinct (map sr_budget_id rs)
     \<and> (\<forall>r \<in> set rs. \<exists>c \<in> set (charges db). \<exists>b \<in> set (budgets db).
          c_attempt_id c = attempt \<and> budget_id b = c_budget_id c \<and> r = settle_row_of c b)
     \<and> (\<forall>c \<in> set (charges db). c_attempt_id c = attempt \<and> c_settled c = None \<longrightarrow>
          c_budget_id c \<in> sr_budget_id ` set rs)"

lemma settle_effect_keeps:
  assumes inv: "budget_inv db" and c: "c \<in> set (charges db)" "c_settled c = None" "c_attempt_id c = attempt"
    and b: "b \<in> set (budgets db)" "budget_id b = c_budget_id c"
    and ready: "settle_ready attempt (settle_row_of c b # rs) db"
  shows "settle_ready attempt rs (settle_effect attempt (settle_row_of c b) v db)"
proof -
  let ?r = "settle_row_of c b" and ?db = "settle_effect attempt (settle_row_of c b) v db"
  have rid: "sr_budget_id ?r = c_budget_id c" by (simp add: settle_row_of_def)
  have cs: "x \<in> set (charges ?db)" if "x \<in> set (charges db)" "c_budget_id x \<noteq> c_budget_id c" for x
    using that by (simp add: settle_effect_def set_update_where open_charge_def charge_key_def rid)
  have bs: "x \<in> set (budgets ?db)" if "x \<in> set (budgets db)" "budget_id x \<noteq> c_budget_id c" for x
    using that by (simp add: settle_effect_def set_update_where settle_guard_def rid)
  have "\<exists>c' \<in> set (charges ?db). \<exists>b' \<in> set (budgets ?db).
      c_attempt_id c' = attempt \<and> budget_id b' = c_budget_id c' \<and> r' = settle_row_of c' b'" if r': "r' \<in> set rs" for r'
  proof -
    from ready r' obtain c' b' where w: "c' \<in> set (charges db)" "b' \<in> set (budgets db)" "c_attempt_id c' = attempt"
        "budget_id b' = c_budget_id c'" "r' = settle_row_of c' b'"
      by (force simp: settle_ready_def)
    moreover have "c_budget_id c' \<noteq> c_budget_id c"
      using ready r' w(5) by (force simp: settle_ready_def settle_row_of_def)
    ultimately show ?thesis using cs [of c'] bs [of b'] by metis
  qed
  moreover have "c_budget_id c' \<in> sr_budget_id ` set rs"
    if c': "c' \<in> set (charges ?db)" "c_attempt_id c' = attempt" "c_settled c' = None" for c'
  proof -
    from c'(1) obtain c0 where c0: "c0 \<in> set (charges db)"
        "c' = (if open_charge (c_budget_id c) attempt c0 then c0\<lparr>c_settled := Some v\<rparr> else c0)"
      by (auto simp: settle_effect_def update_where_def rid)
    with c'(3) have "c' = c0" "\<not> open_charge (c_budget_id c) attempt c0" by (auto split: if_splits)
    with c0(1) c'(2,3) have "c' \<in> set (charges db)" "c_budget_id c' \<noteq> c_budget_id c"
      by (simp_all add: open_charge_def charge_key_def)
    with ready c'(2,3) show ?thesis by (simp add: settle_ready_def rid) blast
  qed
  ultimately show ?thesis using ready by (simp add: settle_ready_def)
qed

text \<open>The whole loop: it finishes with consistent counters and no open charge, or stops at the capacity check.\<close>

lemma settle_loop:
  assumes "budget_inv db" and "settle_ready attempt rs db" and v: "0 \<le> v"
  shows "case rfold (settle_one attempt (Some v)) rs db of
      Inl e \<Rightarrow> e = ValueError ''settled monthly gateway cost exceeds SQLite integer capacity''
    | Inr db' \<Rightarrow> budget_inv db' \<and> settle_ready attempt [] db'"
  using assms(1,2)
proof (induction rs arbitrary: db)
  case Nil
  then show ?case by simp
next
  case (Cons r rs)
  from Cons.prems(2) obtain c b where w: "c \<in> set (charges db)" "b \<in> set (budgets db)" "c_attempt_id c = attempt"
      "budget_id b = c_budget_id c" and r: "r = settle_row_of c b"
    by (force simp: settle_ready_def)
  show ?case
  proof (cases "c_settled c")
    case None
    note w' = w(1) None w(3) w(2,4)
    show ?thesis
    proof (cases "settled_nano_usd b + v > MAXIMUM_NANO_USD")
      case True
      then show ?thesis by (simp add: r settle_one_open [OF Cons.prems(1) w'])
    next
      case False
      with Cons.IH [OF settle_effect_inv [OF Cons.prems(1) w' v] settle_effect_keeps [OF Cons.prems(1) w']]
        Cons.prems(2) show ?thesis
        by (simp add: r settle_one_open [OF Cons.prems(1) w'])
    qed
  next
    case (Some s)
    have "settle_ready attempt rs db"
    proof -
      have "c_budget_id c' \<noteq> c_budget_id c"
        if "c' \<in> set (charges db)" "c_attempt_id c' = attempt" "c_settled c' = None" for c'
        using that Some w(1,3) distinct_key_eq [OF budget_invD(2) [OF Cons.prems(1)], of c c']
        by (auto simp: charge_key_def)
      moreover have "sr_budget_id r = c_budget_id c" by (simp add: r settle_row_of_def)
      ultimately show ?thesis using Cons.prems(2) by (auto simp: settle_ready_def)
    qed
    with Cons.IH [OF Cons.prems(1)] Some show ?thesis by (simp add: r settle_one_def settle_row_of_def)
  qed
qed

lemma settle_rows_ready:
  assumes inv: "budget_inv db"
  shows "settle_ready attempt (settle_rows attempt db) db"
proof -
  note d = budget_invD [OF inv]
  define cs where "cs = filter (\<lambda>c. c_attempt_id c = attempt) (charges db)"
  have one: "\<exists>b. filter (\<lambda>b. budget_id b = c_budget_id c) (budgets db) = [b]
      \<and> b \<in> set (budgets db) \<and> budget_id b = c_budget_id c" if c: "c \<in> set (charges db)" for c
  proof -
    from d(3) [OF c] obtain b where b: "b \<in> set (budgets db)" "budget_id b = c_budget_id c" by auto
    have "length (filter (\<lambda>x. budget_id x = budget_id b \<and> True) (budgets db)) = 1"
      using rowcount_key [OF d(1) b(1), of "\<lambda>_. True"] by (simp add: rowcount_def)
    then obtain y where y: "filter (\<lambda>x. budget_id x = c_budget_id c) (budgets db) = [y]"
      by (auto simp: b(2) length_Suc_conv)
    moreover have "b \<in> set [y]" unfolding y [symmetric] using b by simp
    ultimately show ?thesis using b by auto
  qed
  define the_b where "the_b c = hd (filter (\<lambda>b. budget_id b = c_budget_id c) (budgets db))" for c :: charge_row
  have rows: "settle_rows attempt db = map (\<lambda>c. settle_row_of c (the_b c)) cs"
    unfolding settle_rows_def cs_def [symmetric]
  proof -
    have "set cs \<subseteq> set (charges db)" by (auto simp: cs_def)
    then show "concat (map (\<lambda>c. map (\<lambda>b. \<lparr>sr_budget_id = c_budget_id c, sr_reserved = c_reserved c,
        sr_settled = c_settled c, sr_budget_settled = settled_nano_usd b\<rparr>)
        (filter (\<lambda>b. budget_id b = c_budget_id c) (budgets db))) cs) = map (\<lambda>c. settle_row_of c (the_b c)) cs"
      by (induction cs) (use one in \<open>force simp: the_b_def settle_row_of_def\<close>)+
  qed
  have b: "the_b c \<in> set (budgets db) \<and> budget_id (the_b c) = c_budget_id c" if "c \<in> set (charges db)" for c
    using one [OF that] by (auto simp: the_b_def)
  have "distinct (map charge_key cs)" using d(2) by (simp add: cs_def distinct_map_filter)
  then have "distinct (map c_budget_id cs)"
    by (auto simp: distinct_map cs_def inj_on_def charge_key_def)
  then have "distinct (map sr_budget_id (settle_rows attempt db))"
    by (simp add: rows comp_def settle_row_of_def)
  moreover have "sr_budget_id (settle_row_of c x) = c_budget_id c" for c x by (simp add: settle_row_of_def)
  ultimately show ?thesis
    using b by (fastforce simp: settle_ready_def rows cs_def image_iff)
qed

lemma settle_attempt_budgets_cases:
  assumes "budget_inv db" and "opt_ge 0 amount"
  shows "case settle_attempt_budgets attempt amount db of
      Inl e \<Rightarrow> e = ValueError ''settled monthly gateway cost exceeds SQLite integer capacity''
    | Inr db' \<Rightarrow> budget_inv db' \<and> (amount = None \<longrightarrow> db' = db) \<and> (amount \<noteq> None \<longrightarrow> settle_ready attempt [] db')"
proof (cases amount)
  case None
  have "rfold (settle_one attempt None) rs db = Inr db" for rs
    by (induction rs) (auto simp: settle_one_def split: option.splits)
  with None assms(1) show ?thesis by (simp add: settle_attempt_budgets_def)
next
  case (Some v)
  with assms settle_loop [OF assms(1) settle_rows_ready [OF assms(1), of attempt], of v] show ?thesis
    by (simp add: settle_attempt_budgets_def split: sum.splits)
qed

text \<open>With no open charge left, settling again changes nothing.\<close>

lemma settle_again:
  assumes inv: "budget_inv db" and ready: "settle_ready attempt [] db"
  shows "settle_attempt_budgets attempt amount db = Inr db"
proof -
  have closed: "sr_settled r \<noteq> None" if "r \<in> set (settle_rows attempt db)" for r
    using that ready by (auto simp: settle_rows_def settle_ready_def)
  have "rfold (settle_one attempt amount) rs db = Inr db" if "\<And>r. r \<in> set rs \<Longrightarrow> sr_settled r \<noteq> None" for rs
    using that
  proof (induction rs)
    case (Cons r rs)
    from Cons.prems [of r] have "settle_one attempt amount r db = Inr db" by (auto simp: settle_one_def)
    with Cons show ?case by simp
  qed simp
  with closed show ?thesis by (simp add: settle_attempt_budgets_def)
qed

section \<open>Reconciliation\<close>

abbreviation assigned :: "int \<Rightarrow> charge_row \<Rightarrow> charge_row" where
  "assigned v \<equiv> (\<lambda>c. c\<lparr>c_settled := Some v\<rparr>)"

lemma assign_loop:
  assumes "distinct (map charge_key (charges db))" and "distinct atts"
    and "\<forall>att \<in> set atts. \<exists>c \<in> set (charges db). charge_key c = (bid, att) \<and> unknown_charge c"
  shows "rfold (assign_charge bid v) atts db = Inr (db\<lparr>charges := update_where
      (\<lambda>c. c_budget_id c = bid \<and> c_attempt_id c \<in> set atts \<and> unknown_charge c) (assigned v) (charges db)\<rparr>)"
  using assms
proof (induction atts arbitrary: db)
  case Nil
  show ?case by (cases db) (simp add: update_where_def)
next
  case (Cons att atts)
  let ?P = "unknown_charge_of bid att"
  let ?db = "db\<lparr>charges := update_where ?P (assigned v) (charges db)\<rparr>"
  from Cons.prems(3) obtain c where c: "c \<in> set (charges db)" "charge_key c = (bid, att)" "unknown_charge c" by auto
  have "rowcount ?P (charges db) = 1"
    using rowcount_key [where Q = unknown_charge, OF Cons.prems(1) c(1,3)]
    by (simp add: unknown_charge_of_def [abs_def] c(2))
  then have one: "assign_charge bid v att db = Inr ?db" by (simp add: assign_charge_def)
  have "distinct (map charge_key (charges ?db))"
    using Cons.prems(1) by (simp add: map_update_where charge_key_def [abs_def])
  moreover have "\<forall>a \<in> set atts. \<exists>c \<in> set (charges ?db). charge_key c = (bid, a) \<and> unknown_charge c"
  proof
    fix a assume a: "a \<in> set atts"
    with Cons.prems(3) obtain c' where c': "c' \<in> set (charges db)" "charge_key c' = (bid, a)" "unknown_charge c'" by auto
    moreover have "\<not> ?P c'" using a Cons.prems(2) c'(2) by (auto simp: unknown_charge_of_def)
    ultimately show "\<exists>c \<in> set (charges ?db). charge_key c = (bid, a) \<and> unknown_charge c"
      by (auto simp: set_update_where)
  qed
  ultimately have IH: "rfold (assign_charge bid v) atts ?db = Inr (?db\<lparr>charges := update_where
      (\<lambda>c. c_budget_id c = bid \<and> c_attempt_id c \<in> set atts \<and> unknown_charge c) (assigned v) (charges ?db)\<rparr>)"
    using Cons.prems(2) by (intro Cons.IH) auto
  have "update_where (\<lambda>c. c_budget_id c = bid \<and> c_attempt_id c \<in> set atts \<and> unknown_charge c) (assigned v)
      (update_where ?P (assigned v) (charges db))
    = update_where (\<lambda>c. c_budget_id c = bid \<and> c_attempt_id c \<in> set (att # atts) \<and> unknown_charge c)
        (assigned v) (charges db)"
    by (subst update_where_or) (auto simp: unknown_charge_def unknown_charge_of_def charge_key_def update_where_def)
  with one IH show ?case by simp
qed

text \<open>What settling every unknown charge of one limit does to the sums of all limits.\<close>

lemma assigned_sums:
  fixes cs :: "charge_row list" and bid :: string
  defines "cs' v \<equiv> update_where (\<lambda>c. c_budget_id c = bid \<and> unknown_charge c) (assigned v) cs"
  shows "charge_sum open_reserved x (cs' v) = charge_sum open_reserved x cs"
    and "charge_sum settled_part x (cs' v) = charge_sum settled_part x cs
      + (if x = bid then v * charge_sum unknown_part bid cs else 0)"
    and "charge_sum unknown_part x (cs' v) = (if x = bid then 0 else charge_sum unknown_part x cs)"
  unfolding cs'_def
  by (induction cs) (auto simp: update_where_def charge_sum_def open_reserved_def settled_part_def unknown_part_def
      unknown_charge_def distrib_left)

lemma count_unknown:
  "int (length (filter (\<lambda>c. c_budget_id c = bid \<and> unknown_charge c) cs)) = charge_sum unknown_part bid cs"
  by (induction cs) (auto simp: charge_sum_def unknown_part_def)

lemma unknown_attempts_length:
  "int (length (unknown_attempts bid db)) = charge_sum unknown_part bid (charges db)"
  by (simp add: unknown_attempts_def count_unknown)

lemma unknown_attempts_distinct:
  "distinct (map charge_key (charges db)) \<Longrightarrow> distinct (unknown_attempts bid db)"
  by (auto simp: unknown_attempts_def distinct_map inj_on_def charge_key_def)

lemma unknown_attempts_assign:
  assumes "distinct (map charge_key (charges db))"
  shows "rfold (assign_charge bid v) (unknown_attempts bid db) db = Inr (db\<lparr>charges :=
      update_where (\<lambda>c. c_budget_id c = bid \<and> unknown_charge c) (assigned v) (charges db)\<rparr>)"
proof -
  have "update_where (\<lambda>c. c_budget_id c = bid \<and> c_attempt_id c \<in> set (unknown_attempts bid db) \<and> unknown_charge c)
      (assigned v) (charges db) = update_where (\<lambda>c. c_budget_id c = bid \<and> unknown_charge c) (assigned v) (charges db)"
    unfolding update_where_def by (intro map_cong) (auto simp: unknown_attempts_def)
  moreover have "\<forall>att \<in> set (unknown_attempts bid db). \<exists>c \<in> set (charges db). charge_key c = (bid, att) \<and> unknown_charge c"
    by (auto simp: unknown_attempts_def charge_key_def)
  ultimately show ?thesis
    using assign_loop [OF assms unknown_attempts_distinct [OF assms]] by simp
qed

lemma reconcile_inv:
  assumes inv: "budget_inv db" and ok: "reconcile_unknown_costs storage_key org period scope v db = Inr (n, bal, db')"
  shows "budget_inv db'"
proof -
  note d = budget_invD [OF inv]
  from ok obtain start b where v: "0 \<le> v"
    and b: "scope_budget org start (storage_key scope) db = Some b"
    and n: "int (length (unknown_attempts (budget_id b) db)) = unknown_cost_attempts b"
    and step: "db' = db \<or> settled_nano_usd b + v * unknown_cost_attempts b \<le> MAXIMUM_NANO_USD \<and>
      reconcile_update (budget_id b) (unknown_cost_attempts b) (v * unknown_cost_attempts b) (db\<lparr>charges :=
      update_where (\<lambda>c. c_budget_id c = budget_id b \<and> unknown_charge c) (assigned v) (charges db)\<rparr>) = Inr db'"
    unfolding reconcile_unknown_costs_def
    by (auto simp: rbind_eq_Inr_iff Let_def unknown_attempts_assign [OF d(2)] split: if_splits option.splits)
  have bin: "b \<in> set (budgets db)" using b by (auto simp: scope_budget_def find_Some_iff)
  show ?thesis
  proof (cases "db' = db")
    case True
    with inv show ?thesis by simp
  next
    case False
    let ?cs = "update_where (\<lambda>c. c_budget_id c = budget_id b \<and> unknown_charge c) (assigned v) (charges db)"
    let ?g = "\<lambda>x. budget_id x = budget_id b \<and> unknown_cost_attempts x \<ge> unknown_cost_attempts b"
    let ?f = "\<lambda>x. x\<lparr>unknown_cost_attempts := unknown_cost_attempts x - unknown_cost_attempts b,
        settled_nano_usd := settled_nano_usd x + v * unknown_cost_attempts b\<rparr>"
    from False step have cap: "settled_nano_usd b + v * unknown_cost_attempts b \<le> MAXIMUM_NANO_USD"
      and db': "db' = db\<lparr>charges := ?cs, budgets := update_where ?g ?f (budgets db)\<rparr>"
      by (auto simp: reconcile_update_def Let_def split: if_splits)
    show ?thesis
    proof (rule budget_invI [OF d(1,5)])
      show "map budget_id (budgets db') = map budget_id (budgets db)" by (simp add: db' map_update_where)
      show "distinct (map charge_key (charges db'))"
        using d(2) by (simp add: db' map_update_where charge_key_def [abs_def])
      show "c_budget_id c \<in> budget_id ` set (budgets db) \<and> charge_ok c" if "c \<in> set (charges db')" for c
      proof -
        from that obtain c0 where "c0 \<in> set (charges db)" "c = c0 \<or> c = assigned v c0"
          by (auto simp: db' set_update_where)
        with d(3) [of c0] v show ?thesis by (auto simp: charge_ok_def)
      qed
      show "counters_ok (charges db') x' \<and> budget_fits x'" if "x' \<in> set (budgets db')" for x'
      proof -
        from that obtain x where x: "x \<in> set (budgets db)" "x' = (if ?g x then ?f x else x)"
          by (auto simp: db' update_where_def)
        have eq: "budget_id x = budget_id b \<longleftrightarrow> x = b" using distinct_key_eq [OF d(1) x(1) bin] by auto
        have cnt: "counters_ok (charges db) x" "budget_fits x" using d(4) [OF x(1)] by auto
        have unk: "unknown_cost_attempts b = charge_sum unknown_part (budget_id b) (charges db)"
          using d(4) [OF bin] by (simp add: counters_ok_def)
        show ?thesis
        proof (cases "x = b")
          case True
          with cnt unk cap x(2) show ?thesis by (simp add: db' counters_ok_def assigned_sums budget_fits_def)
        next
          case False
          with cnt eq x(2) show ?thesis by (simp add: db' counters_ok_def assigned_sums)
        qed
      qed
      show "attempts db' = attempts db" by (simp add: db')
    qed
  qed
qed

section \<open>Setting a limit\<close>

definition totals_fit :: "backfill_totals \<Rightarrow> bool" where
  "totals_fit tot \<longleftrightarrow> bf_reserved tot \<le> MAXIMUM_NANO_USD \<and> bf_settled tot \<le> MAXIMUM_NANO_USD"

definition add_totals :: "string \<Rightarrow> charge_row list \<Rightarrow> backfill_totals \<Rightarrow> backfill_totals" where
  "add_totals bid cs tot = \<lparr>bf_reserved = bf_reserved tot + charge_sum open_reserved bid cs,
     bf_settled = bf_settled tot + charge_sum settled_part bid cs,
     bf_unknown = bf_unknown tot + charge_sum unknown_part bid cs\<rparr>"

lemma add_totals_Cons: "add_totals bid (c # cs) tot = add_totals bid cs (add_totals bid [c] tot)"
  by (simp add: add_totals_def charge_sum_def)

lemma backfill_charge_fields [simp]:
  "c_budget_id (backfill_charge bid a) = bid" "charge_key (backfill_charge bid a) = (bid, a_attempt_id a)"
  by (simp_all add: backfill_charge_def charge_key_def Let_def)

text \<open>One backfilled attempt: its charge and its share of the totals, refused past the column's range.\<close>

lemma backfill_one_eq:
  "backfill_one bid a (tot, db) =
     (if \<not> totals_fit (add_totals bid [backfill_charge bid a] tot)
      then Inl (ValueError ''historical monthly gateway cost exceeds SQLite integer capacity'')
      else rbind (insert_charge (backfill_charge bid a) db)
        (\<lambda>db'. Inr (add_totals bid [backfill_charge bid a] tot, db')))"
proof -
  have "charge_sum open_reserved bid [backfill_charge bid a] = or0 (c_reserved (backfill_charge bid a))"
    by (simp add: charge_sum_def open_reserved_def backfill_charge_def Let_def)
  moreover have "charge_sum settled_part bid [backfill_charge bid a] = or0 (c_settled (backfill_charge bid a))"
    "charge_sum unknown_part bid [backfill_charge bid a] = (if unknown_charge (backfill_charge bid a) then 1 else 0)"
    by (simp_all add: charge_sum_def settled_part_def unknown_part_def)
  ultimately show ?thesis
    by (auto simp: backfill_one_def add_totals_def totals_fit_def Let_def)
qed

lemma backfill_loop:
  assumes "rfold (backfill_one bid) as (tot, db) = Inr (tot', db')"
    and "distinct (map charge_key (charges db))" and "totals_fit tot"
  shows "db' = db\<lparr>charges := charges db @ map (backfill_charge bid) as\<rparr>
    \<and> tot' = add_totals bid (map (backfill_charge bid) as) tot
    \<and> distinct (map charge_key (charges db')) \<and> totals_fit tot'"
  using assms
proof (induction as arbitrary: tot db)
  case Nil
  then show ?case by (auto simp: add_totals_def)
next
  case (Cons a as)
  let ?c = "backfill_charge bid a" and ?t = "add_totals bid [backfill_charge bid a] tot"
  from Cons.prems(1) obtain s where s: "backfill_one bid a (tot, db) = Inr s"
      and rest': "rfold (backfill_one bid) as s = Inr (tot', db')"
    by (auto simp: rbind_eq_Inr_iff)
  from s have fit: "totals_fit ?t" and fresh: "charge_key ?c \<notin> charge_key ` set (charges db)"
      and s': "s = (?t, db\<lparr>charges := charges db @ [?c]\<rparr>)"
    unfolding backfill_one_eq insert_charge_def by (auto split: if_splits)
  note rest = rest' [unfolded s']
  have "distinct (map charge_key (charges (db\<lparr>charges := charges db @ [?c]\<rparr>)))"
    using Cons.prems(2) fresh by simp
  note ih = Cons.IH [OF rest this fit]
  have "db' = db\<lparr>charges := charges db @ map (backfill_charge bid) (a # as)\<rparr>" using ih by simp
  moreover have "tot' = add_totals bid (map (backfill_charge bid) (a # as)) tot"
    using ih add_totals_Cons [of bid ?c "map (backfill_charge bid) as" tot] by simp
  ultimately show ?case using ih by blast
qed

lemma find_appended: "\<forall>x \<in> set xs. \<not> P x \<Longrightarrow> P y \<Longrightarrow> find P (xs @ [y]) = Some y"
  by (induction xs) auto

lemma backfill_charge_ok:
  assumes "attempts_ok as" and "a \<in> set as"
  shows "charge_ok (backfill_charge bid a)"
  using assms by (auto simp: attempts_ok_def charge_ok_def backfill_charge_def historical_settlement_def Let_def
      split: option.splits)

text \<open>A freshly inserted limit has no charges yet; the backfill gives it exactly its historical ones.\<close>

lemma backfill_new_budget_inv:
  assumes inv: "budget_inv db" and new: "insert_budget nb db = Inr db1"
    and nb: "reserved_nano_usd nb = 0" "settled_nano_usd nb = 0" "unknown_cost_attempts nb = 0"
      "0 \<le> limit_nano_usd nb" "limit_nano_usd nb \<le> MAXIMUM_NANO_USD"
    and bf: "backfill_budget (budget_id nb) db1 = Inr db2"
  shows "budget_inv db2"
proof -
  note d = budget_invD [OF inv]
  let ?bid = "budget_id nb"
  have fresh: "?bid \<notin> budget_id ` set (budgets db)" and db1: "db1 = db\<lparr>budgets := budgets db @ [nb]\<rparr>"
    using new by (auto simp: insert_budget_def split: if_splits)
  have find: "find (\<lambda>b. budget_id b = ?bid) (budgets db1) = Some nb"
    unfolding db1 using fresh by (auto intro!: find_appended simp: image_iff)
  let ?as = "sort_key a_attempt_id (filter (attempt_scope_predicate nb) (attempts db))"
  let ?z = "\<lparr>bf_reserved = 0, bf_settled = 0, bf_unknown = 0\<rparr>"
  let ?cs = "map (backfill_charge ?bid) ?as"
  from bf find obtain tot dbx where loop: "rfold (backfill_one ?bid) ?as (?z, db1) = Inr (tot, dbx)"
    and db2: "db2 = update_budget ?bid (\<lambda>b. b\<lparr>reserved_nano_usd := bf_reserved tot,
        settled_nano_usd := bf_settled tot, unknown_cost_attempts := bf_unknown tot\<rparr>) dbx"
    by (auto simp: backfill_budget_def rbind_eq_Inr_iff db1)
  have z: "totals_fit ?z" by (simp add: totals_fit_def MAXIMUM_NANO_USD_def)
  have dc: "distinct (map charge_key (charges db1))" using d(2) by (simp add: db1)
  note r = backfill_loop [OF loop dc z]
  have cs2: "charges db2 = charges db @ ?cs" using r by (simp add: db2 update_budget_def db1)
  have noc: "charge_sum g ?bid (charges db) = 0" for g
    using d(3) fresh by (intro charge_sum_absent) metis
  have other: "charge_sum g x ?cs = 0" if "x \<noteq> ?bid" for g x
    using that by (intro charge_sum_absent) auto
  have bs2: "budgets db2 = budgets db @ [nb\<lparr>reserved_nano_usd := bf_reserved tot,
        settled_nano_usd := bf_settled tot, unknown_cost_attempts := bf_unknown tot\<rparr>]"
    using r fresh by (auto simp: db2 update_budget_def db1 update_where_def image_iff intro!: map_idI)
  have tot: "tot = add_totals ?bid ?cs ?z" "totals_fit tot" using r by auto
  have chg: "c_budget_id c \<in> budget_id ` set (budgets db2) \<and> charge_ok c" if "c \<in> set (charges db2)" for c
    using that d(3) backfill_charge_ok [OF d(5)] by (auto simp: cs2 bs2)
  have cnt: "counters_ok (charges db2) b \<and> budget_fits b" if b: "b \<in> set (budgets db2)" for b
  proof (cases "b \<in> set (budgets db)")
    case True
    with fresh have "budget_id b \<noteq> ?bid" by (metis image_eqI)
    with d(4) [OF True] show ?thesis by (simp add: counters_ok_def cs2 charge_sum_append other)
  next
    case False
    with b nb(4,5) tot show ?thesis
      by (auto simp: bs2 counters_ok_def cs2 charge_sum_append noc add_totals_def budget_fits_def totals_fit_def)
  qed
  have "distinct (map budget_id (budgets db2))" using d(1) fresh by (simp add: bs2)
  moreover have "distinct (map charge_key (charges db2))"
  proof -
    have "distinct (map charge_key (charges dbx))" using r by blast
    then show ?thesis by (simp add: db2 update_budget_def)
  qed
  moreover have "attempts db2 = attempts db" using r by (simp add: db2 update_budget_def db1)
  ultimately show ?thesis using chg cnt d(5) by (simp add: budget_inv_def)
qed

lemma update_limit_inv:
  assumes inv: "budget_inv db" and l: "0 \<le> l" "l \<le> MAXIMUM_NANO_USD"
  shows "budget_inv (update_budget bid (\<lambda>b. b\<lparr>limit_nano_usd := l, strict_unknown_cost := s, updated_at := t\<rparr>) db)"
proof (rule budget_invI [OF budget_invD(1,5) [OF inv]])
  note d = budget_invD [OF inv]
  let ?f = "\<lambda>b :: budget_row. b\<lparr>limit_nano_usd := l, strict_unknown_cost := s, updated_at := t\<rparr>"
  let ?db = "update_budget bid ?f db"
  show "map budget_id (budgets ?db) = map budget_id (budgets db)" by (simp add: update_budget_def map_update_where)
  show "distinct (map charge_key (charges ?db))" using d(2) by (simp add: update_budget_def)
  show "c_budget_id c \<in> budget_id ` set (budgets db) \<and> charge_ok c" if "c \<in> set (charges ?db)" for c
    using that d(3) by (simp add: update_budget_def)
  show "counters_ok (charges ?db) b \<and> budget_fits b" if "b \<in> set (budgets ?db)" for b
  proof -
    from that obtain b0 where "b0 \<in> set (budgets db)" "b = b0 \<or> b = ?f b0"
      by (auto simp: update_budget_def set_update_where)
    with d(4) [of b0] l show ?thesis by (auto simp: update_budget_def counters_ok_def budget_fits_def)
  qed
  show "attempts ?db = attempts db" by (simp add: update_budget_def)
qed

lemma set_limit_inv:
  assumes inv: "budget_inv db" and ok: "set_limit storage_key make_id target a db = Inr (changed, limit, db')"
  shows "budget_inv db'"
proof -
  from ok obtain start revision where l: "0 \<le> sl_limit a" "sl_limit a \<le> MAXIMUM_NANO_USD"
    and tr: "set_limit_transaction (make_id (sl_organization_id a) start (storage_key (sl_scope a))) start
      (storage_key (sl_scope a)) revision a db = Inr (changed, limit, db')"
    by (auto simp: set_limit_def rbind_eq_Inr_iff Let_def split: if_splits)
  show ?thesis
  proof (cases "scope_budget (sl_organization_id a) start (storage_key (sl_scope a)) db")
    case None
    let ?bid = "make_id (sl_organization_id a) start (storage_key (sl_scope a))"
    let ?nb = "new_budget ?bid start (storage_key (sl_scope a)) a"
    from None tr obtain db1 where new: "insert_budget ?nb db = Inr db1"
        and bf: "backfill_budget (budget_id ?nb) db1 = Inr db'"
      by (auto simp: set_limit_transaction_def rbind_eq_Inr_iff new_budget_def)
    show ?thesis
      by (rule backfill_new_budget_inv [OF inv new _ _ _ _ _ bf]) (use l in \<open>simp_all add: new_budget_def\<close>)
  next
    case (Some b)
    have "db' = db \<or> db' = update_budget (make_id (sl_organization_id a) start (storage_key (sl_scope a)))
        (\<lambda>b. b\<lparr>limit_nano_usd := sl_limit a, strict_unknown_cost := sl_strict a, updated_at := sl_now a\<rparr>) db"
      using tr unfolding set_limit_transaction_def Some Let_def option.case rbind_eq_Inr_iff
      by (auto simp: rbind_eq_Inr_iff split: if_splits)
    with inv update_limit_inv [OF inv l] show ?thesis by auto
  qed
qed

section \<open>The budget tables as a component\<close>

datatype budget_op =
    Require_Attempt attempt_budget_args
  | Settle_Attempt string "int option"
  | Reconcile_Unknown string string budget_scope int
  | Set_Limit set_limit_args
  | Ledger_Write "attempt_record list"

text \<open>Each operation is one transaction; \<open>Ledger_Write\<close> is the ledger changing its attempt rows.\<close>

definition budget_step ::
    "(budget_scope \<Rightarrow> string) \<Rightarrow> (string \<Rightarrow> string \<Rightarrow> string \<Rightarrow> string) \<Rightarrow>
     (budget_alias_revision \<Rightarrow> string \<Rightarrow> string option \<Rightarrow> py_error + unit) \<Rightarrow> budget_op \<Rightarrow> budget_db \<Rightarrow> budget_db" where
  "budget_step storage_key make_id target op db =
     (case op of
        Require_Attempt a \<Rightarrow> transact (require_attempt_budget a) db
      | Settle_Attempt attempt amount \<Rightarrow> transact (settle_attempt_budgets attempt amount) db
      | Reconcile_Unknown org period scope v \<Rightarrow>
          (case reconcile_unknown_costs storage_key org period scope v db of Inl _ \<Rightarrow> db | Inr (_, _, db') \<Rightarrow> db')
      | Set_Limit a \<Rightarrow> (case set_limit storage_key make_id target a db of Inl _ \<Rightarrow> db | Inr (_, _, db') \<Rightarrow> db')
      | Ledger_Write as \<Rightarrow> db\<lparr>attempts := as\<rparr>)"

definition budget_admissible :: "budget_op \<Rightarrow> bool" where
  "budget_admissible op =
     (case op of
        Require_Attempt a \<Rightarrow> opt_ge 0 (arg_maximum_cost a)
      | Settle_Attempt _ amount \<Rightarrow> opt_ge 0 amount
      | Ledger_Write as \<Rightarrow> attempts_ok as
      | _ \<Rightarrow> True)"

definition empty_budgets :: "budget_db \<Rightarrow> budget_db" where
  "empty_budgets db = db\<lparr>budgets := [], charges := [], attempts := []\<rparr>"

lemma budget_step_inv:
  assumes "budget_inv db" and "budget_admissible op"
  shows "budget_inv (budget_step storage_key make_id target op db)"
proof (cases op)
  case (Require_Attempt a)
  with assms show ?thesis
    by (auto simp: budget_step_def budget_admissible_def transact_def split: sum.splits intro: require_attempt_budget_inv)
next
  case (Settle_Attempt attempt amount)
  with assms settle_attempt_budgets_cases [OF assms(1), of amount attempt] show ?thesis
    by (auto simp: budget_step_def budget_admissible_def transact_def split: sum.splits)
next
  case (Reconcile_Unknown org period scope v)
  with assms show ?thesis by (auto simp: budget_step_def split: sum.splits intro: reconcile_inv)
next
  case (Set_Limit a)
  with assms show ?thesis by (auto simp: budget_step_def split: sum.splits intro: set_limit_inv)
next
  case (Ledger_Write as)
  with assms show ?thesis by (simp add: budget_step_def budget_admissible_def budget_inv_def)
qed

interpretation budget_tables: component "budget_step storage_key make_id target" budget_admissible
    "empty_budgets db" budget_inv
  for storage_key make_id target db
proof
  show "budget_inv (empty_budgets db)"
    by (simp add: empty_budgets_def budget_inv_def attempts_ok_def)
qed (rule budget_step_inv)

section \<open>Sample tables\<close>

definition team_scope :: budget_scope where
  "team_scope = \<lparr>kind = TEAM, identity_id = None, alias_id = None, pool_id = None, scope_deployment_id = None\<rparr>"

definition sample_db :: budget_db where
  "sample_db = \<lparr>organizations = [(''o'', True)], identities = [], aliases = [], budgets = [], charges = [],
     attempts = []\<rparr>"

definition sample_limit :: "int \<Rightarrow> bool \<Rightarrow> set_limit_args" where
  "sample_limit n strict = \<lparr>sl_organization_id = ''o'', sl_period = ''2026-01'', sl_scope = team_scope,
     sl_limit = n, sl_replace = False, sl_strict = strict, sl_now = ''t''\<rparr>"

definition sample_attempt :: "string \<Rightarrow> int option \<Rightarrow> attempt_budget_args" where
  "sample_attempt a m = \<lparr>arg_organization_id = ''o'', arg_identity_id = ''i'', arg_alias_id = ''l'',
     arg_pool_id = ''p'', arg_deployment_id = ''d'', arg_attempt_id = a,
     arg_period_start = ''2026-01-01T00:00:00+00:00'', arg_maximum_cost = m, arg_root_pool_id = None,
     arg_request_id = Some ''r'', arg_alias_revision_id = Some ''v''\<rparr>"

definition sample_run :: "budget_op list \<Rightarrow> budget_db" where
  "sample_run ops = fold (budget_step scope_label (\<lambda>a b c. c) (\<lambda>_ _ _. Inr ())) ops (empty_budgets sample_db)"

definition sample_ops :: "budget_op list" where
  "sample_ops = [Set_Limit (sample_limit 1000 False), Require_Attempt (sample_attempt ''a1'' (Some 600)),
     Require_Attempt (sample_attempt ''a2'' (Some 600)), Require_Attempt (sample_attempt ''a3'' None)]"

lemma sample_run_reachable:
  "list_all budget_admissible ops \<Longrightarrow>
   reachable (budget_step scope_label (\<lambda>a b c. c) (\<lambda>_ _ _. Inr ())) budget_admissible (empty_budgets sample_db)
     (sample_run ops)"
  unfolding sample_run_def by (rule reachable_fold)

lemma sample_ops_admissible: "list_all budget_admissible sample_ops"
  by code_simp

lemma sample_run_inv: "list_all budget_admissible ops \<Longrightarrow> budget_inv (sample_run ops)"
  unfolding sample_run_def by (rule budget_tables.inv_fold)

section \<open>Properties\<close>

text \<open>
  The materialised counters are exact: in every state reachable by any sequence of reservations,
  settlements, reconciliations, limit changes (with their historical backfill) and ledger writes, each
  limit's reserved, settled and unknown counters equal the sums over its charge rows of the open
  reservations, the settled amounts and the unresolved unknown-cost charges, and all of them stay within
  zero and the signed 64-bit maximum.
\<close>

lemma budget_counters_exact:
  assumes "reachable (budget_step storage_key make_id target) budget_admissible (empty_budgets db0) db"
    and "b \<in> set (budgets db)"
  shows "reserved_nano_usd b = (\<Sum>c \<leftarrow> charges db. if c_budget_id c = budget_id b \<and> c_settled c = None
        then or0 (c_reserved c) else 0)
    \<and> settled_nano_usd b = (\<Sum>c \<leftarrow> charges db. if c_budget_id c = budget_id b then or0 (c_settled c) else 0)
    \<and> unknown_cost_attempts b = int (length (filter (\<lambda>c. c_budget_id c = budget_id b
        \<and> c_reserved c = None \<and> c_settled c = None) (charges db)))
    \<and> 0 \<le> reserved_nano_usd b \<and> reserved_nano_usd b \<le> MAXIMUM_NANO_USD
    \<and> 0 \<le> settled_nano_usd b \<and> settled_nano_usd b \<le> MAXIMUM_NANO_USD"
proof -
  have inv: "budget_inv db" by (rule budget_tables.reachable_inv [OF assms(1)])
  note k = budget_invD(4) [OF inv assms(2)]
  have "(\<Sum>c \<leftarrow> charges db. if c_budget_id c = budget_id b \<and> c_settled c = None then or0 (c_reserved c) else 0)
      = charge_sum open_reserved (budget_id b) (charges db)"
    unfolding charge_sum_def open_reserved_def by (intro arg_cong [where f = sum_list] map_cong) auto
  moreover have "int (length (filter (\<lambda>c. c_budget_id c = budget_id b \<and> c_reserved c = None \<and> c_settled c = None)
      (charges db))) = charge_sum unknown_part (budget_id b) (charges db)"
    using count_unknown [of "budget_id b" "charges db"] by (simp add: unknown_charge_def)
  moreover have "(\<Sum>c \<leftarrow> charges db. if c_budget_id c = budget_id b then or0 (c_settled c) else 0)
      = charge_sum settled_part (budget_id b) (charges db)"
    unfolding charge_sum_def settled_part_def ..
  ultimately show ?thesis using k budget_inv_nonneg [OF inv assms(2)] by (simp add: counters_ok_def budget_fits_def)
qed



text \<open>
  A reservation is refused exactly when an applicable limit refuses it, and request-wide refusals win:
  if any team, identity or root-pool limit refuses, the rejection names a request-wide limit with its
  own reason and binding, never a destination pool or deployment limit, whatever the order of scope keys.
\<close>

lemma request_wide_refusal_first:
  assumes "b \<in> set (budgets db)" and "applicable a b" and "row_refusal (arg_maximum_cost a) b \<noteq> None"
  shows "\<exists>b' reason. require_attempt_budget a db
      = Inl (Budget_Reservation_Rejected (kind (b_scope b')) (refusal_binding a b') reason)
    \<and> b' \<in> set (budgets db) \<and> applicable a b' \<and> row_refusal (arg_maximum_cost a) b' = Some reason
    \<and> (request_wide a b' \<or> \<not> request_wide a b)"
proof -
  let ?rows = "select_applicable a (budgets db)"
  define k where "k b = (if request_wide a b then 0 else (1 :: nat))" for b
  have sorted: "sorted (map k ?rows)" by (simp add: select_applicable_def k_def [abs_def])
  have first: "\<exists>b' reason. first_refusal a rs
      = Some (Budget_Reservation_Rejected (kind (b_scope b')) (refusal_binding a b') reason)
    \<and> b' \<in> set rs \<and> row_refusal (arg_maximum_cost a) b' = Some reason \<and> k b' \<le> k b"
    if "sorted (map k rs)" "b \<in> set rs" for rs
    using that
  proof (induction rs)
    case (Cons x rs)
    show ?case
    proof (cases "row_refusal (arg_maximum_cost a) x")
      case None
      with Cons.prems assms(3) have "sorted (map k rs)" "b \<in> set rs" by auto
      from Cons.IH [OF this] None show ?thesis by auto
    next
      case (Some reason)
      with Cons.prems have "k x \<le> k b" by auto
      with Some show ?thesis by (intro exI [of _ x] exI [of _ reason]) simp
    qed
  qed simp
  from first [OF sorted] assms(1,2) obtain b' reason where r:
    "first_refusal a ?rows = Some (Budget_Reservation_Rejected (kind (b_scope b')) (refusal_binding a b') reason)"
    "b' \<in> set ?rows" "row_refusal (arg_maximum_cost a) b' = Some reason" and "k b' \<le> k b"
    by auto
  then have "request_wide a b' \<or> \<not> request_wide a b" by (auto simp: k_def split: if_splits)
  with r show ?thesis
    by (intro exI [of _ b'] exI [of _ reason]) (simp add: require_attempt_budget_def Let_def)
qed

text \<open>
  C13. A strict limit fails closed: while an applicable strict limit has an unresolved unknown-cost charge
  every reservation is refused, and it refuses every reservation without a known maximum cost; an applicable
  limit that is not strict never refuses an unpriced reservation by itself.
\<close>

theorem strict_limit_fails_closed:
  assumes "b \<in> set (budgets db)" and "applicable a b"
  shows "(strict_unknown_cost b \<and> (unknown_cost_attempts b \<noteq> 0 \<or> arg_maximum_cost a = None)
      \<longrightarrow> (\<exists>k binding reason. require_attempt_budget a db = Inl (Budget_Reservation_Rejected k binding reason)))
    \<and> (\<not> strict_unknown_cost b \<longrightarrow> row_refusal None b = None)"
proof -
  have "first_refusal a (select_applicable a (budgets db)) \<noteq> None"
    if "row_refusal (arg_maximum_cost a) b \<noteq> None"
    using assms that by (auto simp: first_refusal_None)
  moreover have "\<exists>k binding reason. f = Budget_Reservation_Rejected k binding reason"
    if "first_refusal a rs = Some f" for f rs
    using that by (induction rs) (auto split: option.splits)
  ultimately show ?thesis
    by (fastforce simp: require_attempt_budget_def row_refusal_def Let_def split: option.splits if_splits)
qed

theorem strict_limit_fails_closed_witness:
  "\<exists>k binding reason. require_attempt_budget (sample_attempt ''a1'' None)
     (sample_run [Set_Limit (sample_limit 1000 True)]) = Inl (Budget_Reservation_Rejected k binding reason)"
proof -
  let ?db = "sample_run [Set_Limit (sample_limit 1000 True)]" and ?a = "sample_attempt ''a1'' None"
  have "hd (budgets ?db) \<in> set (budgets ?db) \<and> applicable ?a (hd (budgets ?db))
      \<and> strict_unknown_cost (hd (budgets ?db)) \<and> arg_maximum_cost ?a = None"
    by code_simp
  with strict_limit_fails_closed [of "hd (budgets ?db)" ?db ?a] show ?thesis by simp
qed

text \<open>
  C12. Settlement moves each charge once and never finds its own counters inconsistent: from a state with
  exact counters, settling an attempt at a known amount either raises the capacity \<open>ValueError\<close> or
  succeeds with exact counters, every charge of the attempt then carries a settled amount, and
  settling the attempt again, at any amount, changes nothing. The two internal \<open>RuntimeError\<close>s are unreachable.
\<close>

theorem settlement_once:
  assumes "budget_inv db" and "0 \<le> v"
  shows "settle_attempt_budgets attempt (Some v) db
      = Inl (ValueError ''settled monthly gateway cost exceeds SQLite integer capacity'')
    \<or> (\<exists>db'. settle_attempt_budgets attempt (Some v) db = Inr db' \<and> budget_inv db'
        \<and> filter (\<lambda>c. c_attempt_id c = attempt \<and> c_settled c = None) (charges db') = []
        \<and> (\<forall>again. settle_attempt_budgets attempt again db' = Inr db'))"
  using settle_attempt_budgets_cases [OF assms(1), of "Some v" attempt] assms(2) settle_again
  by (cases "settle_attempt_budgets attempt (Some v) db") (auto simp: settle_ready_def filter_empty_conv)

theorem settlement_once_witness:
  "\<exists>db'. settle_attempt_budgets ''a1'' (Some 550) (sample_run sample_ops) = Inr db'
    \<and> settle_attempt_budgets ''a1'' (Some 7) db' = Inr db'"
proof -
  have "\<not> isl (settle_attempt_budgets ''a1'' (Some 550) (sample_run sample_ops))" by code_simp
  then show ?thesis
    using settlement_once [OF sample_run_inv [OF sample_ops_admissible], of 550 "''a1''"] by auto
qed

text \<open>
  Reconciliation resolves every unknown-cost attempt of one limit: from a state with exact counters it
  never finds them inconsistent; when the limit exists and the total fits the ledger column, it
  returns the number of unknown-cost attempts, moves that many times the assigned cost to the settled counter,
  leaves the reserved counter alone and the unknown counter at zero.
\<close>

lemma reconciliation_resolves_unknown:
  assumes inv: "budget_inv db" and v: "0 \<le> v" "v \<le> MAXIMUM_NANO_USD"
    and start: "budget_period_start period = Inr start"
    and b: "scope_budget org start (storage_key scope) db = Some b"
    and fits: "settled_nano_usd b + v * unknown_cost_attempts b \<le> MAXIMUM_NANO_USD"
  shows "\<exists>bal db'. reconcile_unknown_costs storage_key org period scope v db
      = Inr (unknown_cost_attempts b, bal, db')
    \<and> mr_unknown_cost_attempts bal = 0
    \<and> mr_settled bal = settled_nano_usd b + v * unknown_cost_attempts b
    \<and> mr_reserved bal = reserved_nano_usd b"
proof -
  note d = budget_invD [OF inv]
  have bin: "b \<in> set (budgets db)" using b by (auto simp: scope_budget_def find_Some_iff)
  let ?n = "unknown_cost_attempts b"
  have n: "int (length (unknown_attempts (budget_id b) db)) = ?n"
    using d(4) [OF bin] by (simp add: unknown_attempts_length counters_ok_def)
  let ?db1 = "db\<lparr>charges := update_where (\<lambda>c. c_budget_id c = budget_id b \<and> unknown_charge c) (assigned v) (charges db)\<rparr>"
  let ?g = "\<lambda>x. budget_id x = budget_id b \<and> unknown_cost_attempts x \<ge> ?n"
  let ?f = "\<lambda>x. x\<lparr>unknown_cost_attempts := unknown_cost_attempts x - ?n, settled_nano_usd := settled_nano_usd x + v * ?n\<rparr>"
  let ?db2 = "?db1\<lparr>budgets := update_where ?g ?f (budgets db)\<rparr>"
  have "rowcount ?g (budgets db) = 1"
    using rowcount_key [where Q = "\<lambda>x. unknown_cost_attempts x \<ge> ?n", OF d(1) bin] by simp
  then have upd: "reconcile_update (budget_id b) ?n (v * ?n) ?db1 = Inr ?db2"
    by (simp add: reconcile_update_def Let_def)
  have ids: "map budget_id (budgets ?db2) = map budget_id (budgets db)" by (simp add: map_update_where)
  have "?f b \<in> ?f ` {r \<in> set (budgets db). ?g r}" using bin by (intro imageI) simp
  then have "?f b \<in> set (update_where ?g ?f (budgets db))" unfolding set_update_where by (rule UnI2)
  moreover have "budgets ?db2 = update_where ?g ?f (budgets db)" by simp
  ultimately have "?f b \<in> set (budgets ?db2)" by (rule subst [OF sym, rotated])
  then have read: "read_budget (budget_id b) ?db2 = Inr (?f b)"
    using find_by_key [where key = budget_id and r = "?f b" and rs = "budgets ?db2"] d(1) ids
    by (simp add: read_budget_def)
  show ?thesis
  proof (cases "unknown_attempts (budget_id b) db = []")
    case True
    with n have "?n = 0" by simp
    with True v start b show ?thesis
      by (simp add: reconcile_unknown_costs_def remaining_from_row_def Let_def)
  next
    case False
    then show ?thesis
      using v start b n fits upd read
      by (simp add: reconcile_unknown_costs_def unknown_attempts_assign [OF d(2)] Let_def not_less
          remaining_from_row_def)
  qed
qed

text \<open>
  C14. The historical backfill of a new limit and live admission agree on scope: an attempt recorded with an
  organisation, identity, alias, pool, deployment, period and accepted root pool falls under a limit's backfill
  predicate exactly when a reservation with the same values is applicable to that limit.
\<close>

theorem backfill_scope_agrees_with_admission:
  assumes "require_scope_shape (b_scope b) = Inr (b_scope b)"
    and "a_organization_id r = arg_organization_id a" and "a_period_start r = arg_period_start a"
    and "a_identity_id r = arg_identity_id a" and "a_alias_id r = arg_alias_id a"
    and "a_pool_id r = Some (arg_pool_id a)" and "a_revision_pool_id r = Some (effective_root a)"
    and "a_deployment_id r = arg_deployment_id a"
  shows "attempt_scope_predicate b r = applicable a b"
  using assms
  by (cases "kind (b_scope b)")
    (auto simp: attempt_scope_predicate_def applicable_def require_scope_shape_def Let_def split: if_splits)

definition sample_record :: attempt_record where
  "sample_record = \<lparr>a_attempt_id = ''a1'', a_organization_id = ''o'', a_period_start = ''2026-01-01T00:00:00+00:00'',
     a_identity_id = ''i'', a_alias_id = ''l'', a_pool_id = Some ''p'', a_revision_pool_id = Some ''p'',
     a_deployment_id = ''d'', a_budget_reserved = Some 5, a_budget_settled = None, a_estimated_cost = None,
     a_input_tokens = None, a_output_tokens = None\<rparr>"

theorem backfill_scope_agrees_with_admission_witness:
  "attempt_scope_predicate (hd (budgets (sample_run sample_ops))) sample_record"
proof -
  let ?b = "hd (budgets (sample_run sample_ops))" and ?a = "sample_attempt ''a1'' (Some 5)"
  have "require_scope_shape (b_scope ?b) = Inr (b_scope ?b)" and app: "applicable ?a ?b" by code_simp+
  then have "attempt_scope_predicate ?b sample_record = applicable ?a ?b"
    by (intro backfill_scope_agrees_with_admission)
      (simp_all add: sample_record_def sample_attempt_def effective_root_def)
  with app show ?thesis by simp
qed

text \<open>
  C15. A stored budget month reads back as authored: an accepted period has seven characters, its bucket start is
  the 25-character text the schema requires, the first seven characters of the bucket give the period back
  (as \<open>_limit_from_row\<close> reads it), and two accepted periods share a bucket only when they are equal.
\<close>

theorem budget_period_round_trip:
  assumes "budget_period_start period = Inr start"
  shows "take 7 start = period \<and> drop 7 start = ''-01T00:00:00+00:00'' \<and> length start = 25
    \<and> (budget_period_start other = Inr start \<longrightarrow> other = period)"
proof -
  have len: "length p = 7 \<and> s = p @ ''-01T00:00:00+00:00''" if "budget_period_start p = Inr s" for p s
    using that by (auto simp: budget_period_start_def canonical_period_def split: option.splits if_splits)
  from len [OF assms] len [of other start] show ?thesis by auto
qed

theorem budget_period_round_trip_witness:
  "budget_period_start ''2026-01'' = Inr ''2026-01-01T00:00:00+00:00'' \<and> take 7 ''2026-01-01T00:00:00+00:00'' = ''2026-01''"
proof -
  have p: "budget_period_start ''2026-01'' = Inr ''2026-01-01T00:00:00+00:00''" by code_simp
  with budget_period_round_trip [OF p] show ?thesis by blast
qed

end
