(* ===== verification/Ledger.thy ===== *)
theory Ledger
  imports Start_Attempt Budget_Accounts
begin

text \<open>
  The durable attempt ledger: \<^verbatim>\<open>src/exp/runtime/gateway/ledger.py\<close>, \<^verbatim>\<open>ledger_reconciliation.py\<close>,
  \<^verbatim>\<open>ledger_requests.py\<close> and the replay of a tier receipt of \<^verbatim>\<open>ledger_service_tiers.py\<close>. Every operation is one
  SQLite transaction: a function from the tables to an error or the new tables. A table is the list of its rows, in rowid
  order. Instants are microseconds; the clock, the fresh attempt identifier and the verdict of the model-chain preflight are
  arguments. Caller-attribution columns and the pricing provenance are stored and never read, and are left out. So are the
  foreign keys and the checks on hash lengths and enumerations, which the types of the arguments already carry.
\<close>

section \<open>Rows\<close>

record request_row =
  q_request_id :: string
  q_organization_id :: string
  q_identity_id :: string
  q_key_id :: string
  q_alias_id :: string
  q_alias_revision_id :: string
  q_api_surface :: string
  q_canonical_request_sha256 :: string
  q_caller_operation_sha256 :: "string option"
  q_accepted_at :: int
  q_deadline_at :: int
  q_terminal_state :: "string option"
  q_terminal_at :: "int option"
  q_failed_without_effects :: bool
  q_web_search_requests :: int

record token_columns =
  tk_input :: "int option"
  tk_cached :: "int option"
  tk_written :: "int option"
  tk_written_1h :: "int option"
  tk_output :: "int option"
  tk_reasoning :: "int option"

definition no_tokens :: token_columns where
  "no_tokens = \<lparr>tk_input = None, tk_cached = None, tk_written = None, tk_written_1h = None, tk_output = None,
     tk_reasoning = None\<rparr>"

definition usage_columns :: "gateway_usage option \<Rightarrow> token_columns" where
  "usage_columns usage =
     (case usage of
        None \<Rightarrow> no_tokens
      | Some u \<Rightarrow> \<lparr>tk_input = gu_input_tokens u, tk_cached = gu_cached_input_tokens u,
          tk_written = gu_cache_creation_input_tokens u, tk_written_1h = gu_cache_creation_1h_input_tokens u,
          tk_output = gu_output_tokens u, tk_reasoning = gu_reasoning_tokens u\<rparr>)"

text \<open>The rate-limit headers harvested on an attempt.\<close>

record rate_limits =
  rl_retry_after_seconds :: "int option"
  rl_limit_requests :: "int option"
  rl_remaining_requests :: "int option"
  rl_limit_tokens :: "int option"
  rl_remaining_tokens :: "int option"

definition no_rate_limits :: rate_limits where
  "no_rate_limits = \<lparr>rl_retry_after_seconds = None, rl_limit_requests = None, rl_remaining_requests = None,
     rl_limit_tokens = None, rl_remaining_tokens = None\<rparr>"

text \<open>\<open>t_tier\<close> holds the tier columns, the frozen rates, the reservation and the surface of the parent request.\<close>

record ledger_attempt =
  t_attempt_id :: string
  t_request_id :: string
  t_organization_id :: string
  t_attempt_ordinal :: int
  t_route_depth :: nat
  t_deployment_id :: string
  t_provider :: string
  t_exact_model_id :: string
  t_pool_id :: string
  t_catalog_sha256 :: string
  t_billing_source :: billing_source
  t_route_reason :: "string option"
  t_fallback_reason :: "string option"
  t_dispatch_reason :: "string option"
  t_preferred_deployment_id :: "string option"
  t_tier :: tier_row
  t_state :: string
  t_started_at :: int
  t_budget_period_start :: string
  t_terminal_at :: "int option"
  t_first_token_at :: "int option"
  t_failure_class :: "string option"
  t_failure_message :: "string option"
  t_tokens :: token_columns
  t_usage_source :: "string option"
  t_estimated_cost :: "int option"
  t_counterfactual_cost :: "int option"
  t_budget_settled :: "int option"
  t_rate_limits :: rate_limits
  t_upstream_provider :: "string option"
  t_billed :: "(billed_unit_kind \<times> string \<times> int \<times> int option) option"
  t_accounting_recovery :: bool

abbreviation t_prices :: "ledger_attempt \<Rightarrow> attempt_row" where
  "t_prices t \<equiv> tier_prices (t_tier t)"

abbreviation t_reserved :: "ledger_attempt \<Rightarrow> int option" where
  "t_reserved t \<equiv> row_budget_reserved_nano_usd (t_prices t)"

text \<open>Of \<open>alias_revisions\<close>, the columns the ledger joins: organization, revision, alias and, for a direct one, its pool.\<close>

record ledger_db =
  db_alias_revisions :: "(string \<times> string \<times> string \<times> string option) list"
  db_requests :: "request_row list"
  db_attempts :: "ledger_attempt list"
  db_tables :: budget_db

definition request_of :: "ledger_db \<Rightarrow> string \<Rightarrow> request_row option" where
  "request_of db rid = find (\<lambda>q. q_request_id q = rid) (db_requests db)"

definition attempt_of :: "ledger_db \<Rightarrow> string \<Rightarrow> ledger_attempt option" where
  "attempt_of db aid = find (\<lambda>t. t_attempt_id t = aid) (db_attempts db)"

definition no_dispatch :: "ledger_db \<Rightarrow> string \<Rightarrow> bool" where
  "no_dispatch db rid \<longleftrightarrow> \<not> list_ex (\<lambda>t. t_request_id t = rid) (db_attempts db)"

definition revision_of :: "ledger_db \<Rightarrow> string \<Rightarrow> string \<Rightarrow> (string \<times> string option) option" where
  "revision_of db org revision =
     map_option (\<lambda>(_, _, alias, pool). (alias, pool)) (find (\<lambda>(o', r, _). o' = org \<and> r = revision) (db_alias_revisions db))"

section \<open>The budget tables of the same database\<close>

text \<open>What \<open>budgets.py\<close> reads of an attempt: its row joined with the request and that request's alias revision.\<close>

definition attempt_view :: "ledger_db \<Rightarrow> ledger_attempt \<Rightarrow> attempt_record" where
  "attempt_view db t =
     (let q = request_of db (t_request_id t)
      in \<lparr>a_attempt_id = t_attempt_id t, a_organization_id = t_organization_id t, a_period_start = t_budget_period_start t,
          a_identity_id = (case q of None \<Rightarrow> [] | Some r \<Rightarrow> q_identity_id r),
          a_alias_id = (case q of None \<Rightarrow> [] | Some r \<Rightarrow> q_alias_id r), a_pool_id = Some (t_pool_id t),
          a_revision_pool_id = (case q of None \<Rightarrow> None
            | Some r \<Rightarrow> Option.bind (revision_of db (q_organization_id r) (q_alias_revision_id r)) snd),
          a_deployment_id = t_deployment_id t, a_budget_reserved = t_reserved t, a_budget_settled = t_budget_settled t,
          a_estimated_cost = t_estimated_cost t, a_input_tokens = tk_input (t_tokens t),
          a_output_tokens = tk_output (t_tokens t)\<rparr>)"

text \<open>The attempt rows live in \<open>db_attempts\<close>: the budget tables see them through the view, and never write them.\<close>

definition budget_view :: "ledger_db \<Rightarrow> budget_db" where
  "budget_view db = (db_tables db)\<lparr>attempts := map (attempt_view db) (db_attempts db)\<rparr>"

definition with_budgets :: "(budget_db \<Rightarrow> 'e + budget_db) \<Rightarrow> ledger_db \<Rightarrow> 'e + ledger_db" where
  "with_budgets f db =
     rbind (f (budget_view db)) (\<lambda>tables. Inr (db\<lparr>db_tables := tables\<lparr>attempts := attempts (db_tables db)\<rparr>\<rparr>))"

section \<open>Writes under the schema\<close>

text \<open>The CHECK constraints on the columns an attempt write may change; rates come from validated cards.\<close>

definition attempt_checks :: "ledger_attempt \<Rightarrow> bool" where
  "attempt_checks t \<longleftrightarrow> 0 \<le> t_attempt_ordinal t
     \<and> list_all (opt_ge 0) [tk_input (t_tokens t), tk_cached (t_tokens t), tk_written (t_tokens t),
          tk_written_1h (t_tokens t), tk_output (t_tokens t), tk_reasoning (t_tokens t), t_estimated_cost t,
          t_reserved t, t_budget_settled t]
     \<and> (case t_billed t of None \<Rightarrow> True | Some (_, _, n, r) \<Rightarrow> 0 \<le> n \<and> opt_ge 0 r)"

definition update_attempt :: "string \<Rightarrow> (ledger_attempt \<Rightarrow> ledger_attempt) \<Rightarrow> ledger_db \<Rightarrow> py_error + ledger_db" where
  "update_attempt aid f db =
     (if \<forall>t \<in> set (db_attempts db). t_attempt_id t = aid \<longrightarrow> attempt_checks (f t)
      then Inr (db\<lparr>db_attempts := update_where (\<lambda>t. t_attempt_id t = aid) f (db_attempts db)\<rparr>)
      else Inl (IntegrityError ''CHECK constraint failed: gateway_attempts''))"

definition insert_attempt :: "ledger_attempt \<Rightarrow> ledger_db \<Rightarrow> py_error + ledger_db" where
  "insert_attempt t db =
     (if list_ex (\<lambda>u. t_attempt_id u = t_attempt_id t
           \<or> (t_request_id u = t_request_id t \<and> t_attempt_ordinal u = t_attempt_ordinal t)) (db_attempts db)
        then Inl (IntegrityError ''UNIQUE constraint failed: gateway_attempts'')
      else if \<not> attempt_checks t then Inl (IntegrityError ''CHECK constraint failed: gateway_attempts'')
      else Inr (db\<lparr>db_attempts := db_attempts db @ [t]\<rparr>))"

definition insert_request :: "request_row \<Rightarrow> ledger_db \<Rightarrow> py_error + ledger_db" where
  "insert_request q db =
     (if list_ex (\<lambda>r. q_request_id r = q_request_id q) (db_requests db)
        then Inl (IntegrityError ''UNIQUE constraint failed: gateway_requests.request_id'')
      else Inr (db\<lparr>db_requests := db_requests db @ [q]\<rparr>))"

definition end_request :: "string \<Rightarrow> (request_row \<Rightarrow> request_row) \<Rightarrow> ledger_db \<Rightarrow> ledger_db" where
  "end_request rid f db = db\<lparr>db_requests :=
     update_where (\<lambda>q. q_request_id q = rid \<and> q_terminal_state q = None) f (db_requests db)\<rparr>"

section \<open>Accepting a request\<close>

definition same_operation :: "authorization_snapshot \<Rightarrow> request_row \<Rightarrow> bool" where
  "same_operation auth q \<longleftrightarrow> q_organization_id q = auth_organization_id auth \<and> q_identity_id q = auth_identity_id auth
     \<and> q_alias_revision_id q = auth_alias_revision_id auth \<and> q_api_surface q = auth_surface auth
     \<and> q_caller_operation_sha256 q = auth_caller_operation_sha256 auth"

text \<open>A request that left no effect a repetition could duplicate.\<close>

definition replayable :: "ledger_db \<Rightarrow> request_row \<Rightarrow> bool" where
  "replayable db q \<longleftrightarrow> q_terminal_state q \<in> {Some ''expired_before_dispatch'', Some ''unknown_after_crash''}
     \<or> (q_terminal_state q = Some ''failed'' \<and> q_failed_without_effects q \<and> no_dispatch db (q_request_id q))"

definition require_operation :: "authorization_snapshot \<Rightarrow> ledger_db \<Rightarrow> py_error + unit" where
  "require_operation auth db =
     (if auth_caller_operation_sha256 auth = None then Inr ()
      else case find (same_operation auth) (rev (db_requests db)) of
             None \<Rightarrow> Inr ()
           | Some prior \<Rightarrow>
               if q_canonical_request_sha256 prior \<noteq> auth_canonical_request_sha256 auth
                 then Inl (IdempotencyConflictError ''caller operation key was reused with different request content'')
               else if \<not> replayable db prior
                 then Inl (IdempotencyReplayUnavailableError
                   ''matching keyed request exists but durable content replay is unavailable'')
               else Inr ())"

text \<open>\<open>time_left\<close> is the rest of the request's deadline on the monotonic clock.\<close>

definition apply_accept_request ::
    "py_error option \<Rightarrow> int \<Rightarrow> int \<Rightarrow> authorization_snapshot \<Rightarrow> ledger_db \<Rightarrow> py_error + ledger_db" where
  "apply_accept_request authority now time_left auth db =
     (case authority of
        Some e \<Rightarrow> Inl e
      | None \<Rightarrow>
          rbind (require_operation auth db) (\<lambda>_.
          case revision_of db (auth_organization_id auth) (auth_alias_revision_id auth) of
            None \<Rightarrow> Inl (GatewayLedgerError ''authorized alias revision is not present in the ledger'')
          | Some (alias, _) \<Rightarrow>
              insert_request
                \<lparr>q_request_id = auth_request_id auth, q_organization_id = auth_organization_id auth,
                 q_identity_id = auth_identity_id auth, q_key_id = auth_virtual_key_id auth, q_alias_id = alias,
                 q_alias_revision_id = auth_alias_revision_id auth, q_api_surface = auth_surface auth,
                 q_canonical_request_sha256 = auth_canonical_request_sha256 auth,
                 q_caller_operation_sha256 = auth_caller_operation_sha256 auth, q_accepted_at = now,
                 q_deadline_at = now + max 0 time_left, q_terminal_state = None, q_terminal_at = None,
                 q_failed_without_effects = False, q_web_search_requests = 0\<rparr> db))"


section \<open>Starting an attempt\<close>

definition display_safe :: "string option \<Rightarrow> bool" where
  "display_safe value =
     (case value of None \<Rightarrow> True | Some s \<Rightarrow> length s \<le> 512 \<and> list_all (\<lambda>c. 32 \<le> (of_char c :: nat)) s)"

text \<open>The plan checks: the deployment is the one the snapshot placed at this depth, of the stage's exact model.\<close>

definition require_plan :: "execution_snapshot \<Rightarrow> attempt_start \<Rightarrow> py_error + model_execution_stage" where
  "require_plan snap a =
     (let d = as_deployment a
      in if \<not> list_all display_safe [Some (as_route_reason a), as_fallback_reason a, as_dispatch_reason a]
           then Inl (GatewayLedgerError ''route context must be a short display-safe code'')
         else if deployment_id d \<notin> set (snapshot_deployment_ids snap)
           then Inl (GatewayLedgerError ''attempt deployment is absent from the execution snapshot'')
         else rbind (stage_for_depth snap (as_depth a)) (\<lambda>stage.
           if deployment_id d \<noteq> snapshot_deployment_ids snap ! as_depth a \<or> deployment_id d \<notin> set (stage_deployment_ids stage)
             then Inl (GatewayLedgerError ''attempt deployment differs from its authorized stage cursor'')
           else if exact_model_id d \<noteq> stage_exact_model_id stage
             then Inl (GatewayLedgerError ''attempt deployment changes the selected stage exact model'')
           else if map_option deployment_id (as_preferred a) = Some (deployment_id d)
             then Inl (GatewayLedgerError ''a preferred rung disclosure requires a divergent rung'')
           else if \<not> (case as_maximum_cost a of None \<Rightarrow> True | Some m \<Rightarrow> 0 \<le> m \<and> m \<le> MAXIMUM_NANO_USD)
             then Inl (GatewayLedgerError ''maximum attempt cost must fit a nonnegative SQLite integer'')
           else Inr stage))"

definition require_open_request :: "authorization_snapshot \<Rightarrow> ledger_db \<Rightarrow> py_error + request_row" where
  "require_open_request auth db =
     (case request_of db (auth_request_id auth) of
        None \<Rightarrow> Inl (GatewayLedgerError ''attempt request was not durably accepted'')
      | Some q \<Rightarrow>
          if q_organization_id q \<noteq> auth_organization_id auth \<or> q_identity_id q \<noteq> auth_identity_id auth
             \<or> q_alias_revision_id q \<noteq> auth_alias_revision_id auth
            then Inl (GatewayLedgerError ''attempt authority differs from accepted request'')
          else if q_terminal_state q \<noteq> None then Inl (GatewayLedgerError ''attempt request is already terminal'')
          else Inr q)"

definition dispatched_row ::
    "string \<Rightarrow> int \<Rightarrow> string \<Rightarrow> execution_snapshot \<Rightarrow> model_execution_stage \<Rightarrow> request_row \<Rightarrow> attempt_start \<Rightarrow> ledger_attempt" where
  "dispatched_row aid now period_start snap stage q a =
     (let auth = snapshot_authorization snap; d = as_deployment a
      in \<lparr>t_attempt_id = aid, t_request_id = auth_request_id auth, t_organization_id = auth_organization_id auth,
          t_attempt_ordinal = as_ordinal a, t_route_depth = as_depth a, t_deployment_id = deployment_id d,
          t_provider = provider d, t_exact_model_id = stage_exact_model_id stage, t_pool_id = stage_pool_id stage,
          t_catalog_sha256 = auth_catalog_sha256 auth, t_billing_source = dep_billing_source d,
          t_route_reason = Some (as_route_reason a), t_fallback_reason = as_fallback_reason a,
          t_dispatch_reason = as_dispatch_reason a,
          t_preferred_deployment_id = map_option deployment_id (as_preferred a),
          t_tier = record_tier_admission (as_service_tier a)
            \<lparr>service_tier_admission_col = None, service_tier_settlement_col = None,
             tier_prices = insert_attempt_prices (prices d) (map_option prices (as_preferred a)) (q_api_surface q)
               (as_maximum_cost a)\<rparr>,
          t_state = ''dispatched'', t_started_at = now, t_budget_period_start = period_start, t_terminal_at = None,
          t_first_token_at = None, t_failure_class = None, t_failure_message = None, t_tokens = no_tokens,
          t_usage_source = None, t_estimated_cost = None, t_counterfactual_cost = None, t_budget_settled = None,
          t_rate_limits = no_rate_limits, t_upstream_provider = None, t_billed = None, t_accounting_recovery = False\<rparr>)"

definition raised :: "py_error + 'a \<Rightarrow> budget_failure + 'a" where
  "raised r = (case r of Inl e \<Rightarrow> Inl (Budget_Error e) | Inr a \<Rightarrow> Inr a)"

definition attempt_charge :: "string \<Rightarrow> string \<Rightarrow> execution_snapshot \<Rightarrow> model_execution_stage \<Rightarrow> request_row \<Rightarrow> attempt_start
    \<Rightarrow> attempt_budget_args" where
  "attempt_charge aid period_start snap stage q a =
     (let auth = snapshot_authorization snap
      in \<lparr>arg_organization_id = auth_organization_id auth, arg_identity_id = q_identity_id q, arg_alias_id = q_alias_id q,
          arg_pool_id = stage_pool_id stage, arg_deployment_id = deployment_id (as_deployment a), arg_attempt_id = aid,
          arg_period_start = period_start, arg_maximum_cost = as_maximum_cost a,
          arg_root_pool_id = Some (snapshot_pool_id snap), arg_request_id = Some (auth_request_id auth),
          arg_alias_revision_id = Some (auth_alias_revision_id auth)\<rparr>)"

text \<open>\<open>period\<close> is \<open>current_budget_period(now)\<close>.\<close>

definition apply_start_attempt ::
    "py_error option \<Rightarrow> string \<Rightarrow> int \<Rightarrow> string \<Rightarrow> execution_snapshot \<Rightarrow> attempt_start \<Rightarrow> ledger_db
      \<Rightarrow> budget_failure + string \<times> ledger_db" where
  "apply_start_attempt authority aid now period snap a db =
     (case authority of
        Some e \<Rightarrow> Inl (Budget_Error e)
      | None \<Rightarrow>
          rbind (raised (require_plan snap a)) (\<lambda>stage.
          rbind (raised (budget_period_start period)) (\<lambda>period_start.
          rbind (raised (require_open_request (snapshot_authorization snap) db)) (\<lambda>q.
          rbind (raised (insert_attempt (dispatched_row aid now period_start snap stage q a) db)) (\<lambda>db1.
          rbind (with_budgets (require_attempt_budget (attempt_charge aid period_start snap stage q a)) db1) (\<lambda>db2.
            Inr (aid, db2)))))))"

section \<open>Replacing a settled amount\<close>

definition charge_rows :: "string \<Rightarrow> budget_db \<Rightarrow> (charge_row \<times> budget_row) list" where
  "charge_rows aid tables =
     concat (map (\<lambda>c. map (Pair c) (filter (\<lambda>b. budget_id b = c_budget_id c) (budgets tables)))
                 (filter (\<lambda>c. c_attempt_id c = aid) (charges tables)))"

text \<open>One allocation: an amount other than the one to replace belongs to its operator and stays.\<close>

definition replace_charge ::
    "string \<Rightarrow> int option \<Rightarrow> int option \<Rightarrow> charge_row \<times> budget_row \<Rightarrow> budget_db \<Rightarrow> py_error + budget_db" where
  "replace_charge aid previous settled = (\<lambda>(c, b) tables.
     case c_settled c of
       None \<Rightarrow> Inr tables
     | Some old \<Rightarrow>
         if previous = None \<or> Some old \<noteq> previous \<or> Some old = settled then Inr tables
         else
           (let total = settled_nano_usd b - old + or0 settled;
                held = (if settled = None then c_reserved c else Some 0);
                reserved = reserved_nano_usd b + or0 held;
                unknown = unknown_cost_attempts b + (if held = None then 1 else 0)
            in if \<not> (0 \<le> total \<and> total \<le> MAXIMUM_NANO_USD) \<or> \<not> (0 \<le> reserved \<and> reserved \<le> MAXIMUM_NANO_USD)
                 then Inl (GatewayLedgerError ''reconciled monthly gateway cost exceeds SQLite integer capacity'')
               else if rowcount (\<lambda>x. budget_id x = budget_id b \<and> settled_nano_usd x \<ge> old) (budgets tables) \<noteq> 1
                 then Inl (GatewayLedgerError ''monthly budget counters are inconsistent'')
               else Inr (tables\<lparr>budgets := update_where (\<lambda>x. budget_id x = budget_id b \<and> settled_nano_usd x \<ge> old)
                        (\<lambda>x. x\<lparr>settled_nano_usd := total, reserved_nano_usd := reserved, unknown_cost_attempts := unknown\<rparr>)
                        (budgets tables),
                      charges := update_where (\<lambda>x. charge_key x = (budget_id b, aid)) (\<lambda>x. x\<lparr>c_settled := settled\<rparr>)
                        (charges tables)\<rparr>)))"

definition replace_budget_charges :: "string \<Rightarrow> int option \<Rightarrow> int option \<Rightarrow> budget_db \<Rightarrow> py_error + budget_db" where
  "replace_budget_charges aid previous settled tables =
     rbind (rfold (replace_charge aid previous settled) (charge_rows aid tables) tables)
       (settle_attempt_budgets aid settled)"

section \<open>Settling an attempt\<close>

record finish_args =
  fa_attempt_id :: string
  fa_terminal :: "gateway_event option"
  fa_failure :: "gateway_failure option"
  fa_finalize_request :: bool
  fa_first_token_at :: "int option"
  fa_rate_limits :: rate_limits
  fa_upstream_provider :: "string option"
  fa_service_tier :: "service_tier_settlement option"

definition guardrail_denied :: "gateway_failure option \<Rightarrow> bool" where
  "guardrail_denied f = (case f of None \<Rightarrow> False | Some g \<Rightarrow> dget (safe_details g) ''input_guardrail_denied'' = Some True)"

definition releases_reservation :: "gateway_event option \<Rightarrow> bool" where
  "releases_reservation terminal = (case terminal of None \<Rightarrow> False | Some e \<Rightarrow> accounting_release_reservation e)"

text \<open>The provider cost of a meter and what it charges, by the frozen rates or by the tier receipt.\<close>

definition settled_cost ::
    "attempt_row \<Rightarrow> service_tier_settlement option \<Rightarrow> gateway_usage option \<Rightarrow> gateway_event option
      \<Rightarrow> py_error + int option \<times> int option" where
  "settled_cost row tier usage terminal =
     (case tier of
        None \<Rightarrow> rbind (observed_usage_cost row usage terminal) (\<lambda>cost.
                rbind (budget_settlement_nano_usd row cost usage terminal) (\<lambda>settled. Inr (cost, settled)))
      | Some s \<Rightarrow> rbind (tier_usage_cost s usage terminal) (\<lambda>cost. Inr (cost, cost)))"

definition counterfactual_cost :: "ledger_attempt \<Rightarrow> gateway_usage option \<Rightarrow> py_error + int option" where
  "counterfactual_cost t usage =
     (if t_preferred_deployment_id t = None then Inr None else frozen_usage_cost (t_prices t) usage Preferred)"

definition record_recovery :: "string \<Rightarrow> gateway_event option \<Rightarrow> ledger_db \<Rightarrow> py_error + ledger_db" where
  "record_recovery aid terminal db =
     (case terminal of
        None \<Rightarrow> Inr db
      | Some e \<Rightarrow>
          if \<not> accounting_recovery e then Inr db
          else if event_usage e \<noteq> None \<or> event_failure e = None
            then Inl (GatewayLedgerError ''accounting recovery requires an unmetered failure'')
          else update_attempt aid (\<lambda>t. t\<lparr>t_accounting_recovery := True\<rparr>) db)"

text \<open>The first settlement of a dispatched attempt.\<close>

definition finish_dispatched ::
    "int \<Rightarrow> finish_args \<Rightarrow> string \<Rightarrow> string option \<Rightarrow> string option \<Rightarrow> gateway_usage option \<Rightarrow> ledger_attempt \<Rightarrow> ledger_db
      \<Rightarrow> py_error + ledger_db" where
  "finish_dispatched now a state class_value message usage t db =
     rbind (settle_tier (fa_service_tier a) (t_tier t)) (\<lambda>(tier, columns).
     rbind (settled_cost (t_prices t) tier usage (fa_terminal a)) (\<lambda>(cost, charged).
     rbind (counterfactual_cost t usage) (\<lambda>counterfactual.
     let settled = (if guardrail_denied (fa_failure a) \<or> releases_reservation (fa_terminal a) then Some 0 else charged);
         estimated = (case fa_terminal a of None \<Rightarrow> False | Some e \<Rightarrow> usage_estimated e)
     in rbind (update_attempt (fa_attempt_id a) (\<lambda>r. r\<lparr>t_tier := columns, t_state := state, t_terminal_at := Some now,
              t_first_token_at := fa_first_token_at a, t_failure_class := class_value,
              t_failure_message := message, t_tokens := usage_columns usage,
              t_usage_source := Some (usage_source_label usage estimated), t_estimated_cost := cost,
              t_counterfactual_cost := counterfactual, t_budget_settled := settled, t_rate_limits := fa_rate_limits a,
              t_upstream_provider := fa_upstream_provider a, t_billed := billed_unit_columns (t_prices t) usage\<rparr>) db) (\<lambda>db1.
        rbind (record_recovery (fa_attempt_id a) (fa_terminal a) db1) (\<lambda>db2.
        rbind (with_budgets (settle_attempt_budgets (fa_attempt_id a) settled) db2) (\<lambda>db3.
          Inr (if fa_finalize_request a \<and> state \<in> {''completed'', ''failed'', ''cancelled'', ''incomplete''}
               then end_request (t_request_id t) (\<lambda>q. q\<lparr>q_terminal_state := Some state, q_terminal_at := Some now\<rparr>) db3
               else db3)))))))"

section \<open>Late evidence\<close>

definition replay_conflict :: py_error where
  "replay_conflict = GatewayLedgerError
     ''attempt settlement replay differs from durable accounting evidence (durable usage or cost)''"

definition receipt_differs :: py_error where
  "receipt_differs = GatewayLedgerError ''service-tier receipt differs from the settled tier''"

text \<open>A provider's own complete meter: both token totals, or units alone.\<close>

definition complete_meter :: "gateway_event option \<Rightarrow> gateway_usage option \<Rightarrow> bool" where
  "complete_meter terminal usage =
     (case (terminal, usage) of
        (Some e, Some u) \<Rightarrow> \<not> usage_estimated e \<and> \<not> usage_incomplete_due_to_disconnect e
          \<and> (has_token_counts u \<or> (gu_billed_units u \<noteq> None \<and> usage_columns usage = no_tokens))
      | _ \<Rightarrow> False)"

definition prior_tier :: "ledger_attempt \<Rightarrow> service_tier_settlement option" where
  "prior_tier t = service_tier_settlement_col (t_tier t)"

definition confirmed :: "service_tier_settlement option \<Rightarrow> bool" where
  "confirmed s = (case s of None \<Rightarrow> False | Some r \<Rightarrow> receipt_resolution r = Tier_Confirmed)"

text \<open>
  Whether the charge of an attempt was set apart from its meter: an operator's decision, a waiver or a zero that cannot be
  told from one.
\<close>

definition explicit_charge :: "ledger_attempt \<Rightarrow> bool" where
  "explicit_charge t =
     (let provisional = (case t_estimated_cost t of Some c \<Rightarrow> Some c | None \<Rightarrow> t_reserved t)
      in t_budget_settled t \<noteq> None
         \<and> (row_api_surface (t_prices t) = ''decisions'' \<or> t_budget_settled t \<noteq> provisional \<or> t_budget_settled t = Some 0))"

definition upgrade_observed ::
    "ledger_attempt \<Rightarrow> gateway_event option \<Rightarrow> gateway_failure option \<Rightarrow> gateway_usage option
      \<Rightarrow> service_tier_settlement option \<Rightarrow> ledger_db \<Rightarrow> py_error + ledger_db" where
  "upgrade_observed t terminal failure usage receipt db =
     (if confirmed (prior_tier t) \<and> receipt \<noteq> None \<and> receipt \<noteq> prior_tier t then Inl receipt_differs
      else
        rbind (settle_tier (if receipt = None then prior_tier t else receipt) (t_tier t)) (\<lambda>(tier, columns).
        rbind (settled_cost (t_prices t) tier usage terminal) (\<lambda>(cost, charged).
        let normalized = (case failure of Some f \<Rightarrow> Some f | None \<Rightarrow> Option.bind terminal event_failure);
            settled = (if explicit_charge t then t_budget_settled t else if guardrail_denied normalized then Some 0 else charged)
        in rbind (with_budgets (replace_budget_charges (t_attempt_id t) (t_budget_settled t) settled) db) (\<lambda>db1.
           rbind (counterfactual_cost t usage) (\<lambda>counterfactual.
             update_attempt (t_attempt_id t) (\<lambda>r. r\<lparr>t_tier := columns, t_tokens := usage_columns usage,
               t_usage_source := Some ''observed'', t_estimated_cost := cost, t_counterfactual_cost := counterfactual,
               t_budget_settled := settled, t_billed := billed_unit_columns (t_prices t) usage\<rparr>) db1)))))"

definition replay_cost_matches :: "ledger_attempt \<Rightarrow> int option \<Rightarrow> bool" where
  "replay_cost_matches t cost \<longleftrightarrow> t_estimated_cost t = None \<or> t_estimated_cost t = cost"

text \<open>Whether a complete meter repeats the durable one, as far as the evidence lets it be priced.\<close>

definition same_replay ::
    "ledger_attempt \<Rightarrow> gateway_event option \<Rightarrow> gateway_usage option \<Rightarrow> service_tier_settlement option \<Rightarrow> py_error + bool" where
  "same_replay t terminal usage receipt =
     (let same = (t_tokens t = usage_columns usage \<and> t_billed t = billed_unit_columns (t_prices t) usage)
      in if confirmed (prior_tier t) then
           if receipt \<noteq> None \<and> receipt \<noteq> prior_tier t then Inl receipt_differs
           else if \<not> same then Inr False
           else rbind (tier_usage_cost (the (prior_tier t)) usage terminal) (\<lambda>cost. Inr (replay_cost_matches t cost))
         else if service_tier_admission_col (t_tier t) = None then
           if receipt \<noteq> None then Inl (GatewayLedgerError ''service-tier receipt has no admitted schedules'')
           else if \<not> same then Inr False
           else rbind (observed_usage_cost (t_prices t) usage terminal) (\<lambda>cost. Inr (replay_cost_matches t cost))
         else Inr same)"

definition reconcile_observed ::
    "ledger_attempt \<Rightarrow> gateway_event option \<Rightarrow> gateway_failure option \<Rightarrow> gateway_usage option
      \<Rightarrow> service_tier_settlement option \<Rightarrow> ledger_db \<Rightarrow> py_error + ledger_db" where
  "reconcile_observed t terminal failure usage receipt db =
     rbind (same_replay t terminal usage receipt) (\<lambda>same.
       if \<not> same then Inl replay_conflict
       else if prior_tier t \<noteq> None
          \<and> ((\<not> confirmed (prior_tier t) \<and> receipt \<noteq> None)
             \<or> (confirmed (prior_tier t) \<and> (t_accounting_recovery t \<or> t_state t = ''unknown_after_crash'')
                \<and> t_estimated_cost t = None))
         then upgrade_observed t terminal failure usage receipt db
       else Inr db)"

text \<open>What every tier receipt must be: the one the durable admission gives.\<close>

definition require_admitted :: "ledger_attempt \<Rightarrow> service_tier_settlement \<Rightarrow> py_error + unit" where
  "require_admitted t receipt =
     (case service_tier_admission_col (t_tier t) of
        None \<Rightarrow> Inl (GatewayLedgerError ''service-tier receipt has no admitted schedules'')
      | Some adm \<Rightarrow>
          rbind (admission_settlement adm (receipt_served receipt) (receipt_resolution receipt)) (\<lambda>expected.
            if receipt \<noteq> expected
              then Inl (GatewayLedgerError ''service-tier receipt differs from the admitted schedules'')
            else Inr ()))"

definition store_tier :: "ledger_attempt \<Rightarrow> service_tier_settlement \<Rightarrow> ledger_db \<Rightarrow> py_error + ledger_db" where
  "store_tier t receipt db =
     rbind (settle_tier (Some receipt) (t_tier t)) (\<lambda>(_, columns).
       update_attempt (t_attempt_id t) (\<lambda>r. r\<lparr>t_tier := columns\<rparr>) db)"

definition retain_unmetered_tier_receipt ::
    "ledger_attempt \<Rightarrow> service_tier_settlement option \<Rightarrow> ledger_db \<Rightarrow> py_error + ledger_db" where
  "retain_unmetered_tier_receipt t receipt db =
     (case receipt of
        None \<Rightarrow> Inr db
      | Some s \<Rightarrow>
          rbind (require_admitted t s) (\<lambda>_.
            if confirmed (prior_tier t)
              then (if receipt_resolution s = Tier_Confirmed \<and> receipt \<noteq> prior_tier t then Inl receipt_differs else Inr db)
            else if receipt_resolution s = Tier_Confirmed then store_tier t s db
            else Inr db))"

section \<open>Replaying a tier receipt\<close>

text \<open>A crash row without a meter, which may still take a complete one.\<close>

definition crash_meter :: "ledger_attempt \<Rightarrow> bool" where
  "crash_meter t \<longleftrightarrow> t_state t = ''unknown_after_crash'' \<and> t_usage_source t = Some ''unknown'' \<and> t_budget_settled t = None
     \<and> t_tokens t = no_tokens"

definition require_replay_meter ::
    "ledger_attempt \<Rightarrow> gateway_event option \<Rightarrow> gateway_usage option \<Rightarrow> py_error + unit" where
  "require_replay_meter t terminal usage =
     (if crash_meter t then
        (case (usage, terminal) of
           (Some u, Some e) \<Rightarrow>
             if \<not> has_token_counts u \<or> usage_estimated e \<or> usage_incomplete_due_to_disconnect e
               then Inl (GatewayLedgerError ''crash tier recovery requires complete observed usage'') else Inr ()
         | _ \<Rightarrow> Inl (GatewayLedgerError ''crash tier recovery requires complete observed usage''))
      else if usage = None \<or> t_tokens t \<noteq> usage_columns usage
        then Inl (GatewayLedgerError ''service-tier receipt replay differs from the durable usage'')
      else if t_usage_source t \<notin> {Some ''observed'', Some ''estimated''}
          \<or> (t_usage_source t = Some ''estimated'')
            \<noteq> (case terminal of None \<Rightarrow> False | Some e \<Rightarrow> usage_estimated e)
        then Inl (GatewayLedgerError ''service-tier receipt replay differs from the usage evidence'')
      else Inr ())"

text \<open>The same held evidence again: nothing to settle yet.\<close>

definition held_again ::
    "ledger_attempt \<Rightarrow> service_tier_settlement \<Rightarrow> gateway_event option \<Rightarrow> gateway_usage option \<Rightarrow> py_error + bool" where
  "held_again t s terminal usage =
     (if prior_tier t = Some s \<and> t_budget_settled t = None \<and> t_tokens t = usage_columns usage
         \<and> t_usage_source t = Some (usage_source_label usage (case terminal of None \<Rightarrow> False | Some e \<Rightarrow> usage_estimated e))
      then rbind (tier_usage_cost s usage terminal) (\<lambda>cost. Inr (cost = None)) else Inr False)"

definition settle_receipt ::
    "ledger_attempt \<Rightarrow> service_tier_settlement \<Rightarrow> int \<Rightarrow> gateway_usage option \<Rightarrow> ledger_db \<Rightarrow> py_error + ledger_db" where
  "settle_receipt t s cost usage db =
     rbind (store_tier t s db) (\<lambda>db1.
     rbind (if crash_meter t
            then update_attempt (t_attempt_id t) (\<lambda>r. r\<lparr>t_tokens := usage_columns usage, t_usage_source := Some ''observed''\<rparr>) db1
            else Inr db1) (\<lambda>db2.
     rbind (update_attempt (t_attempt_id t) (\<lambda>r. r\<lparr>t_estimated_cost := Some cost, t_budget_settled := Some cost\<rparr>) db2) (\<lambda>db3.
       with_budgets (settle_attempt_budgets (t_attempt_id t) (Some cost)) db3)))"

definition reconcile_tier_receipt ::
    "ledger_attempt \<Rightarrow> service_tier_settlement option \<Rightarrow> gateway_event option \<Rightarrow> gateway_usage option \<Rightarrow> ledger_db
      \<Rightarrow> py_error + ledger_db" where
  "reconcile_tier_receipt t receipt terminal usage db =
     (case receipt of
        None \<Rightarrow> Inr db
      | Some s \<Rightarrow>
          rbind (require_admitted t s) (\<lambda>_.
          if confirmed (prior_tier t) \<and> prior_tier t \<noteq> Some s then Inl receipt_differs
          else if receipt_resolution s \<noteq> Tier_Confirmed then Inr db
          else rbind (held_again t s terminal usage) (\<lambda>held.
            if held then Inr db
            else rbind (require_replay_meter t terminal usage) (\<lambda>_.
              rbind (tier_usage_cost s usage terminal) (\<lambda>cost.
                case t_budget_settled t of
                  Some settled \<Rightarrow>
                    if cost \<noteq> Some settled
                      then Inl (GatewayLedgerError ''service-tier replay differs from the settled amount'') else Inr db
                | None \<Rightarrow>
                    (case cost of
                       None \<Rightarrow> Inl (GatewayLedgerError ''confirmed service-tier receipt still lacks a complete price or meter'')
                     | Some c \<Rightarrow> settle_receipt t s c usage db))))))"

section \<open>A settlement of a settled attempt\<close>

definition provisional :: "ledger_attempt \<Rightarrow> bool" where
  "provisional t \<longleftrightarrow> t_accounting_recovery t \<or> t_state t \<in> {''cancelled'', ''unknown_after_crash''}"

text \<open>The customer waiver of trusted recovery: allowed on provisional rows only.\<close>

definition waive_charge :: "ledger_attempt \<Rightarrow> ledger_db \<Rightarrow> py_error + ledger_db" where
  "waive_charge t db =
     (if \<not> provisional t then
        Inl (if t_usage_source t = Some ''observed''
               \<and> (t_billed t \<noteq> None \<or> (tk_input (t_tokens t) \<noteq> None \<and> tk_output (t_tokens t) \<noteq> None))
             then AccountingRecoverySupersededError
               ''accounting recovery was superseded by an immutable provider terminal''
             else AccountingRecoveryUnresolvedTerminalError ''customer waiver requires durable accounting recovery'')
      else rbind (with_budgets (replace_budget_charges (t_attempt_id t) (t_budget_settled t) (Some 0)) db)
             (update_attempt (t_attempt_id t) (\<lambda>r. r\<lparr>t_budget_settled := Some 0\<rparr>)))"

definition reconcile_terminal_attempt ::
    "ledger_attempt \<Rightarrow> string \<Rightarrow> gateway_event option \<Rightarrow> gateway_failure option \<Rightarrow> gateway_usage option
      \<Rightarrow> service_tier_settlement option \<Rightarrow> ledger_db \<Rightarrow> py_error + ledger_db" where
  "reconcile_terminal_attempt t state terminal failure usage receipt db =
     (if releases_reservation terminal then waive_charge t db
      else if complete_meter terminal usage \<and> t_usage_source t \<in> {Some ''unknown'', Some ''estimated''} then
        (if t_usage_source t = Some ''unknown'' \<and> \<not> provisional t then Inl replay_conflict
         else upgrade_observed t terminal failure usage receipt db)
      else if complete_meter terminal usage \<and> t_usage_source t = Some ''observed'' then
        reconcile_observed t terminal failure usage receipt db
      else if usage = None \<and> state \<in> {''failed'', ''cancelled''}
          \<and> (failure \<noteq> None \<or> Option.bind terminal event_failure \<noteq> None)
          \<and> (t_accounting_recovery t \<or> t_state t = ''unknown_after_crash'') then
        retain_unmetered_tier_receipt t receipt db
      else if t_state t = state \<or> (t_state t = ''unknown_after_crash'' \<and> receipt \<noteq> None) then
        reconcile_tier_receipt t receipt terminal usage db
      else Inl (GatewayLedgerError ''attempt is already settled with another terminal state''))"

definition apply_finish_attempt :: "int \<Rightarrow> finish_args \<Rightarrow> ledger_db \<Rightarrow> py_error + ledger_db" where
  "apply_finish_attempt now a db =
     rbind (terminal_values (fa_terminal a) (fa_failure a)) (\<lambda>(state, class_value, message, usage).
       case attempt_of db (fa_attempt_id a) of
         None \<Rightarrow> Inl (GatewayLedgerError ''attempt does not exist'')
       | Some t \<Rightarrow>
           if t_state t \<noteq> ''dispatched''
           then reconcile_terminal_attempt t state (fa_terminal a) (fa_failure a) usage (fa_service_tier a) db
           else finish_dispatched now a state class_value message usage t db)"

section \<open>Operators and crashes\<close>

definition reconcile_decision_liability :: "string \<Rightarrow> int \<Rightarrow> ledger_db \<Rightarrow> py_error + ledger_db" where
  "reconcile_decision_liability aid cost db =
     (if \<not> (0 \<le> cost \<and> cost \<le> MAXIMUM_NANO_USD)
        then Inl (ValueError ''assigned decision cost must fit a nonnegative SQLite integer'')
      else
        (let absent = GatewayLedgerError ''attempt has no terminal decision liability to reconcile''
         in case attempt_of db aid of
              None \<Rightarrow> Inl absent
            | Some t \<Rightarrow>
                if row_api_surface (t_prices t) \<noteq> ''decisions'' \<or> t_state t = ''dispatched''
                   \<or> t_usage_source t \<noteq> Some ''unknown'' \<or> t_reserved t = None
                  then Inl absent
                else (case t_budget_settled t of
                        Some settled \<Rightarrow>
                          if settled = cost then Inr db
                          else Inl (GatewayLedgerError ''decision liability already resolved at another cost'')
                      | None \<Rightarrow>
                          rbind (with_budgets (settle_attempt_budgets aid (Some cost)) db)
                            (update_attempt aid (\<lambda>r. r\<lparr>t_budget_settled := Some cost\<rparr>)))))"

text \<open>The certificate that a request failed without effects, and the tables.\<close>

definition finish_request ::
    "authorization_snapshot \<Rightarrow> gateway_failure \<Rightarrow> int \<Rightarrow> bool \<Rightarrow> int \<Rightarrow> ledger_db \<Rightarrow> py_error + bool \<times> ledger_db" where
  "finish_request auth failure now certify_no_effects searches db =
     (if searches < 0 then Inl (ValueError ''web_search_requests must be nonnegative'')
      else rbind (terminal_values None (Some failure)) (\<lambda>(state, _, _, _).
        case request_of db (auth_request_id auth) of
          None \<Rightarrow> Inl (GatewayLedgerError ''request was not durably accepted'')
        | Some q \<Rightarrow>
            (let rid = auth_request_id auth; undispatched = no_dispatch db rid
             in if q_organization_id q \<noteq> auth_organization_id auth
                  then Inl (GatewayLedgerError ''request authority differs from accepted request'')
                else if searches \<noteq> 0 \<and> \<not> undispatched
                  then Inl (GatewayLedgerError ''unattempted search meter cannot replace attempt-owned usage'')
                else case q_terminal_state q of
                       Some s \<Rightarrow>
                         if s \<noteq> state
                           then Inl (GatewayLedgerError ''request is already settled with another terminal state'')
                         else if searches \<noteq> 0 \<and> searches \<noteq> q_web_search_requests q
                           then Inl (GatewayLedgerError ''request already settled with another search meter'')
                         else Inr (q_failed_without_effects q \<and> undispatched, db)
                     | None \<Rightarrow>
                         (let certified = (certify_no_effects \<and> searches = 0 \<and> auth_direct_target auth
                                \<and> state = ''failed'' \<and> undispatched)
                          in Inr (certified, end_request rid (\<lambda>r. r\<lparr>q_terminal_state := Some state,
                               q_terminal_at := Some now, q_failed_without_effects := certified,
                               q_web_search_requests := searches\<rparr>) db)))))"

text \<open>The sweep after a crash: counts of expired requests and of attempts whose outcome is lost, and the tables.\<close>

definition lost_attempt :: "int \<Rightarrow> int \<Rightarrow> ledger_db \<Rightarrow> ledger_attempt \<Rightarrow> bool" where
  "lost_attempt now grace db t \<longleftrightarrow> t_state t = ''dispatched''
     \<and> (case request_of db (t_request_id t) of None \<Rightarrow> False | Some q \<Rightarrow> q_deadline_at q + grace \<le> now)"

definition expired_request :: "int \<Rightarrow> ledger_db \<Rightarrow> request_row \<Rightarrow> bool" where
  "expired_request now db q \<longleftrightarrow> q_terminal_state q = None \<and> no_dispatch db (q_request_id q) \<and> q_deadline_at q \<le> now"

definition reconcile_crashed_requests :: "int \<Rightarrow> int \<Rightarrow> ledger_db \<Rightarrow> py_error + (int \<times> int) \<times> ledger_db" where
  "reconcile_crashed_requests now grace db =
     (if grace < 0 then Inl (ValueError ''cleanup grace cannot be negative'')
      else
        (let lost = filter (lost_attempt now grace db) (db_attempts db);
             requests1 = update_where (expired_request now db)
               (\<lambda>q. q\<lparr>q_terminal_state := Some ''expired_before_dispatch'', q_terminal_at := Some now\<rparr>) (db_requests db);
             requests2 = update_where (\<lambda>q. q_terminal_state q = None \<and> q_request_id q \<in> t_request_id ` set lost)
               (\<lambda>q. q\<lparr>q_terminal_state := Some ''unknown_after_crash'', q_terminal_at := Some now\<rparr>) requests1
         in Inr ((int (length (filter (expired_request now db) (db_requests db))), int (length lost)),
              db\<lparr>db_requests := requests2,
                 db_attempts := update_where (lost_attempt now grace db)
                   (\<lambda>t. t\<lparr>t_state := ''unknown_after_crash'', t_terminal_at := Some now,
                          t_usage_source := Some ''unknown''\<rparr>) (db_attempts db)\<rparr>)))"

section \<open>Operations\<close>

datatype ledger_op =
    Accept_Request "py_error option" int int authorization_snapshot
  | Start_Op "py_error option" string int string execution_snapshot attempt_start
  | Finish_Op int finish_args
  | Decision_Liability string int
  | Finish_Request_Op authorization_snapshot gateway_failure int bool int
  | Crash_Sweep int int
  | Budget_Limit set_limit_args
  | Budget_Unknown string string budget_scope int

text \<open>Each operation is one transaction: it commits, or rolls back and leaves the tables as they were.\<close>

definition ledger_step ::
    "(budget_scope \<Rightarrow> string) \<Rightarrow> (string \<Rightarrow> string \<Rightarrow> string \<Rightarrow> string) \<Rightarrow>
     (budget_alias_revision \<Rightarrow> string \<Rightarrow> string option \<Rightarrow> py_error + unit) \<Rightarrow> ledger_op \<Rightarrow> ledger_db \<Rightarrow> ledger_db" where
  "ledger_step storage_key make_id target op db =
     (case op of
        Accept_Request authority now time_left auth \<Rightarrow> transact (apply_accept_request authority now time_left auth) db
      | Start_Op authority aid now period snap a \<Rightarrow>
          transact (\<lambda>db. rbind (apply_start_attempt authority aid now period snap a db) (\<lambda>(_, db'). Inr db')) db
      | Finish_Op now a \<Rightarrow> transact (apply_finish_attempt now a) db
      | Decision_Liability aid v \<Rightarrow> transact (reconcile_decision_liability aid v) db
      | Finish_Request_Op auth f now certify searches \<Rightarrow>
          transact (\<lambda>db. rbind (finish_request auth f now certify searches db) (\<lambda>(_, db'). Inr db')) db
      | Crash_Sweep now grace \<Rightarrow> transact (\<lambda>db. rbind (reconcile_crashed_requests now grace db) (\<lambda>(_, db'). Inr db')) db
      | Budget_Limit a \<Rightarrow>
          transact (with_budgets (\<lambda>t. rbind (set_limit storage_key make_id target a t) (\<lambda>(_, _, t'). Inr t'))) db
      | Budget_Unknown org period scope v \<Rightarrow>
          transact (with_budgets (\<lambda>t. rbind (reconcile_unknown_costs storage_key org period scope v t) (\<lambda>(_, _, t'). Inr t'))) db)"

end
