(* ===== verification/Ledger_Accounts.thy ===== *)
theory Ledger_Accounts
  imports Ledger
begin

text \<open>
  What the ledger of \<open>Ledger\<close> guarantees: its tables stay consistent under every sequence of transactions, it refines an
  abstract journal in which an attempt is dispatched once, delivered once and metered at most once more, settlement is
  repeatable, and a caller's operation key never has two requests with effects.
\<close>

section \<open>Replacing settled amounts\<close>

definition replace_effect :: "string \<Rightarrow> int option \<Rightarrow> charge_row \<Rightarrow> budget_row \<Rightarrow> budget_row" where
  "replace_effect aid settled c b =
     (let held = (if settled = None then c_reserved c else Some 0)
      in b\<lparr>settled_nano_usd := settled_nano_usd b - or0 (c_settled c) + or0 settled,
           reserved_nano_usd := reserved_nano_usd b + or0 held,
           unknown_cost_attempts := unknown_cost_attempts b + (if held = None then 1 else 0)\<rparr>)"

lemma replace_effect_fields [simp]:
  "budget_id (replace_effect aid settled c b) = budget_id b"
  "limit_nano_usd (replace_effect aid settled c b) = limit_nano_usd b"
  by (simp_all add: replace_effect_def Let_def)

lemma replace_charge_cases:
  assumes "replace_charge aid previous settled (c, b) tables = Inr tables'"
  obtains (kept) "tables' = tables"
  | (replaced) old where "c_settled c = Some old" "budget_fits b \<Longrightarrow> budget_fits (replace_effect aid settled c b)"
      "tables' = tables\<lparr>budgets := update_where (\<lambda>x. budget_id x = budget_id b \<and> settled_nano_usd x \<ge> old)
           (\<lambda>x. x\<lparr>settled_nano_usd := settled_nano_usd (replace_effect aid settled c b),
                  reserved_nano_usd := reserved_nano_usd (replace_effect aid settled c b),
                  unknown_cost_attempts := unknown_cost_attempts (replace_effect aid settled c b)\<rparr>) (budgets tables),
         charges := update_where (\<lambda>x. charge_key x = (budget_id b, aid)) (\<lambda>x. x\<lparr>c_settled := settled\<rparr>) (charges tables)\<rparr>"
proof (cases "c_settled c")
  case None
  then show thesis using assms kept by (simp add: replace_charge_def)
next
  case (Some old)
  then show thesis using assms kept replaced
    by (cases "previous = None \<or> Some old \<noteq> previous \<or> Some old = settled")
      (auto simp: replace_charge_def replace_effect_def Let_def budget_fits_def split: if_splits)
qed

lemma replace_sums:
  fixes settled :: "int option"
  assumes inv: "budget_inv db" and c: "c \<in> set (charges db)" "c_settled c = Some old"
    and b: "b \<in> set (budgets db)" "budget_id b = c_budget_id c" and x: "x \<in> set (budgets db)"
  defines "cs \<equiv> update_where (\<lambda>x. charge_key x = charge_key c) (\<lambda>x. x\<lparr>c_settled := settled\<rparr>) (charges db)"
  shows "counters_ok cs (if x = b then replace_effect aid settled c b else x)"
proof -
  note d = budget_invD [OF inv]
  have sum: "charge_sum g bid cs
      = charge_sum g bid (charges db) + (if c_budget_id c = bid then g (c\<lparr>c_settled := settled\<rparr>) - g c else 0)" for g bid
    using charge_sum_update [where Q = "\<lambda>_. True" and f = "\<lambda>x. x\<lparr>c_settled := settled\<rparr>", OF d(2) c(1), of g bid]
    by (simp add: cs_def)
  have cnt: "counters_ok (charges db) x" using d(4) x by blast
  show ?thesis
  proof (cases "x = b")
    case True
    have cnt': "counters_ok (charges db) b" using d(4) b by blast
    show ?thesis
      using cnt' b(2) c(2) True unfolding counters_ok_def sum
      by (simp add: replace_effect_def Let_def open_reserved_def settled_part_def unknown_part_def unknown_charge_def)
  next
    case False
    then have "c_budget_id c \<noteq> budget_id x" using distinct_key_eq [OF d(1) b(1) x] b(2) by metis
    with cnt False show ?thesis unfolding counters_ok_def sum by simp
  qed
qed

lemma settled_ge_charge:
  assumes inv: "budget_inv db" and c: "c \<in> set (charges db)" "c_settled c = Some old"
    and b: "b \<in> set (budgets db)" "budget_id b = c_budget_id c"
  shows "old \<le> settled_nano_usd b"
proof -
  note d = budget_invD [OF inv]
  have "settled_part c \<le> charge_sum settled_part (budget_id b) (charges db)"
    by (rule charge_sum_ge_member [OF c(1)]) (use b d(3) charge_parts_nonneg(2) in auto)
  moreover have "counters_ok (charges db) b" using d(4) b(1) by blast
  ultimately show ?thesis using c(2) by (simp add: counters_ok_def settled_part_def)
qed

text \<open>Rows still to replace agree with the tables; replacing one leaves the others as they are.\<close>

definition replace_ready :: "string \<Rightarrow> (charge_row \<times> budget_row) list \<Rightarrow> budget_db \<Rightarrow> bool" where
  "replace_ready aid rs db \<longleftrightarrow> distinct (map (c_budget_id \<circ> fst) rs)
     \<and> (\<forall>(c, b) \<in> set rs. c \<in> set (charges db) \<and> b \<in> set (budgets db) \<and> c_attempt_id c = aid \<and> budget_id b = c_budget_id c)"

lemma replace_charge_inv:
  assumes inv: "budget_inv db" and ready: "replace_ready aid ((c, b) # rs) db" and settled: "opt_ge 0 settled"
    and run: "replace_charge aid previous settled (c, b) db = Inr db'"
  shows "budget_inv db' \<and> replace_ready aid rs db'"
  using run
proof (cases rule: replace_charge_cases)
  case kept
  then show ?thesis using inv ready by (simp add: replace_ready_def)
next
  case (replaced old)
  note d = budget_invD [OF inv]
  have cb: "c \<in> set (charges db)" "b \<in> set (budgets db)" "c_attempt_id c = aid" "budget_id b = c_budget_id c"
    using ready by (simp_all add: replace_ready_def)
  have key: "(budget_id b, aid) = charge_key c" using cb by (simp add: charge_key_def)
  let ?P = "\<lambda>x. budget_id x = budget_id b \<and> settled_nano_usd x \<ge> old"
  have only: "?P x \<longleftrightarrow> x = b" if "x \<in> set (budgets db)" for x
    using that distinct_key_eq [OF d(1) that cb(2)] settled_ge_charge [OF inv cb(1) replaced(1) cb(2,4)] by auto
  have bs: "budgets db' = map (\<lambda>x. if x = b then replace_effect aid settled c b else x) (budgets db)"
    unfolding replaced(3) by (auto simp: update_where_def only replace_effect_def Let_def)
  have cs: "charges db' = update_where (\<lambda>x. charge_key x = charge_key c) (\<lambda>x. x\<lparr>c_settled := settled\<rparr>) (charges db)"
    unfolding replaced(3) key by simp
  have "budget_inv db'"
  proof (rule budget_invI [OF d(1,5)])
    show "map budget_id (budgets db') = map budget_id (budgets db)" by (auto simp: bs)
    show "distinct (map charge_key (charges db'))" using d(2) by (simp add: cs map_update_where charge_key_def [abs_def])
    show "c_budget_id x \<in> budget_id ` set (budgets db) \<and> charge_ok x" if "x \<in> set (charges db')" for x
      using that d(3) settled by (auto simp: cs set_update_where charge_ok_def)
    show "counters_ok (charges db') x \<and> budget_fits x" if "x \<in> set (budgets db')" for x
      using that replace_sums [OF inv cb(1) replaced(1) cb(2,4), of _ settled aid] d(4) replaced(2) cb(2)
      by (fastforce simp: bs cs)
    show "attempts db' = attempts db" by (simp add: replaced(3))
  qed
  moreover have "c' \<in> set (charges db') \<and> b' \<in> set (budgets db')" if "(c', b') \<in> set rs" for c' b'
  proof -
    have o: "c' \<in> set (charges db)" "b' \<in> set (budgets db)" "budget_id b' = c_budget_id c'" "c_budget_id c' \<noteq> c_budget_id c"
      using ready that by (force simp: replace_ready_def)+
    then have "charge_key c' \<noteq> charge_key c" "b' \<noteq> b" using cb(4) by (auto simp: charge_key_def)
    with o show ?thesis by (auto simp: bs cs set_update_where)
  qed
  ultimately show ?thesis using ready by (auto simp: replace_ready_def)
qed

lemma replace_loop_inv:
  assumes "budget_inv db" and "replace_ready aid rs db" and "opt_ge 0 settled"
    and "rfold (replace_charge aid previous settled) rs db = Inr db'"
  shows "budget_inv db'"
  using assms
proof (induction rs arbitrary: db)
  case (Cons r rs)
  obtain c b where r: "r = (c, b)" by fastforce
  obtain db1 where "replace_charge aid previous settled (c, b) db = Inr db1"
    "rfold (replace_charge aid previous settled) rs db1 = Inr db'"
    using Cons.prems(4) by (auto simp: r rbind_eq_Inr_iff)
  with replace_charge_inv [OF Cons.prems(1) Cons.prems(2) [unfolded r] Cons.prems(3)] Cons.IH Cons.prems(3) show ?case by blast
qed simp

lemma charge_rows_ready:
  assumes inv: "budget_inv db"
  shows "replace_ready aid (charge_rows aid db) db"
proof -
  note d = budget_invD [OF inv]
  have sub: "distinct (map (c_budget_id \<circ> fst) (concat (map (\<lambda>c. map (Pair c) (filter (\<lambda>b. budget_id b = c_budget_id c) (budgets db))) cs)))"
    if "distinct (map c_budget_id cs)" for cs
    using that
  proof (induction cs)
    case (Cons c cs)
    have "length (filter (\<lambda>b. budget_id b = c_budget_id c) (budgets db)) \<le> 1"
    proof (cases "filter (\<lambda>b. budget_id b = c_budget_id c) (budgets db)")
      case (Cons b bs)
      then have "b \<in> set (budgets db)" "budget_id b = c_budget_id c" by (auto dest: filter_eq_ConsD)
      then show ?thesis using rowcount_key [OF d(1), of b "\<lambda>_. True"] by (simp add: rowcount_def)
    qed simp
    then have "distinct (map (c_budget_id \<circ> fst) (map (Pair c) (filter (\<lambda>b. budget_id b = c_budget_id c) (budgets db))))"
      by (cases "filter (\<lambda>b. budget_id b = c_budget_id c) (budgets db)") auto
    then show ?case using Cons by (auto simp: image_iff comp_def)
  qed simp
  have "distinct (map c_budget_id (filter (\<lambda>c. c_attempt_id c = aid) (charges db)))"
    using d(2) by (auto simp: distinct_map charge_key_def inj_on_def)
  from sub [OF this] show ?thesis by (auto simp: replace_ready_def charge_rows_def)
qed

lemma replace_budget_charges_inv:
  assumes "budget_inv db" and "opt_ge 0 settled" and "replace_budget_charges aid previous settled db = Inr db'"
  shows "budget_inv db'"
proof -
  obtain db1 where "rfold (replace_charge aid previous settled) (charge_rows aid db) db = Inr db1"
    and s: "settle_attempt_budgets aid settled db1 = Inr db'"
    using assms(3) by (auto simp: replace_budget_charges_def rbind_eq_Inr_iff)
  from replace_loop_inv [OF assms(1) charge_rows_ready [OF assms(1)] assms(2) this(1)]
  show ?thesis using settle_attempt_budgets_cases [of db1 settled aid] assms(2) s by simp
qed


section \<open>Consistent tables\<close>

text \<open>An attempt in flight has no evidence yet.\<close>

definition attempt_wf :: "ledger_attempt \<Rightarrow> bool" where
  "attempt_wf t \<longleftrightarrow> (t_state t = ''dispatched'' \<longrightarrow>
     t_tokens t = no_tokens \<and> t_usage_source t = None \<and> t_estimated_cost t = None \<and> t_budget_settled t = None
     \<and> service_tier_settlement_col (t_tier t) = None \<and> \<not> t_accounting_recovery t)"

text \<open>A request that expired before dispatch, or failed with a certificate, has no attempt.\<close>

definition request_wf :: "ledger_db \<Rightarrow> request_row \<Rightarrow> bool" where
  "request_wf db q \<longleftrightarrow>
     (q_failed_without_effects q \<longrightarrow> q_terminal_state q = Some ''failed'' \<and> no_dispatch db (q_request_id q))
     \<and> (q_terminal_state q = Some ''expired_before_dispatch'' \<longrightarrow> no_dispatch db (q_request_id q))"

definition operation_key :: "request_row \<Rightarrow> (string \<times> string \<times> string \<times> string \<times> string) option" where
  "operation_key q = map_option (\<lambda>k. (q_organization_id q, q_identity_id q, q_alias_revision_id q, q_api_surface q, k))
     (q_caller_operation_sha256 q)"

text \<open>Before the newest request of an operation, every other one repeated the same content and left no effect.\<close>

definition operations_wf :: "ledger_db \<Rightarrow> bool" where
  "operations_wf db \<longleftrightarrow>
     (\<forall>i j. i < j \<longrightarrow> j < length (db_requests db) \<longrightarrow> operation_key (db_requests db ! i) \<noteq> None
        \<longrightarrow> operation_key (db_requests db ! j) = operation_key (db_requests db ! i)
        \<longrightarrow> q_canonical_request_sha256 (db_requests db ! j) = q_canonical_request_sha256 (db_requests db ! i)
            \<and> replayable db (db_requests db ! i))"

lemma operations_wfD:
  assumes "operations_wf db" and "i < j" "j < length (db_requests db)" and "operation_key (db_requests db ! i) \<noteq> None"
    and "operation_key (db_requests db ! j) = operation_key (db_requests db ! i)"
  shows "q_canonical_request_sha256 (db_requests db ! j) = q_canonical_request_sha256 (db_requests db ! i)
    \<and> replayable db (db_requests db ! i)"
  using assms unfolding operations_wf_def by blast

definition request_ids :: "ledger_db \<Rightarrow> (string \<times> string) list" where
  "request_ids db = map (\<lambda>q. (q_request_id q, q_organization_id q)) (db_requests db)"

definition attempts_wf :: "ledger_db \<Rightarrow> bool" where
  "attempts_wf db \<longleftrightarrow> distinct (map t_attempt_id (db_attempts db))
     \<and> (\<forall>t \<in> set (db_attempts db). attempt_checks t \<and> attempt_wf t
          \<and> (t_request_id t, t_organization_id t) \<in> set (request_ids db))"

definition requests_wf :: "ledger_db \<Rightarrow> bool" where
  "requests_wf db \<longleftrightarrow> distinct (map q_request_id (db_requests db))
     \<and> (\<forall>q \<in> set (db_requests db). request_wf db q) \<and> operations_wf db"

definition ledger_inv :: "ledger_db \<Rightarrow> bool" where
  "ledger_inv db \<longleftrightarrow> budget_inv ((db_tables db)\<lparr>attempts := []\<rparr>) \<and> attempts_wf db \<and> requests_wf db"

lemma budget_inv_attempts:
  "budget_inv tables \<Longrightarrow> budget_inv (tables\<lparr>attempts := []\<rparr>)"
  "budget_inv (tables\<lparr>attempts := []\<rparr>) \<Longrightarrow> attempts_ok as \<Longrightarrow> budget_inv (tables\<lparr>attempts := as\<rparr>)"
  by (auto simp: budget_inv_def attempts_ok_def)

lemma attempt_view_fields [simp]:
  "a_attempt_id (attempt_view db t) = t_attempt_id t" "a_budget_reserved (attempt_view db t) = t_reserved t"
  "a_budget_settled (attempt_view db t) = t_budget_settled t" "a_estimated_cost (attempt_view db t) = t_estimated_cost t"
  by (simp_all add: attempt_view_def Let_def)

lemma ledger_budget_inv:
  assumes "ledger_inv db"
  shows "budget_inv (budget_view db)"
proof -
  have "attempts_ok (map (attempt_view db) (db_attempts db))"
    using assms by (auto simp: ledger_inv_def attempts_wf_def attempts_ok_def attempt_checks_def comp_def)
  then show ?thesis unfolding budget_view_def
    by (rule budget_inv_attempts(2) [rotated]) (use assms in \<open>simp add: ledger_inv_def\<close>)
qed

lemma with_budgets_inv:
  assumes "ledger_inv db" and "with_budgets f db = Inr db'"
    and "\<And>t t'. budget_inv t \<Longrightarrow> f t = Inr t' \<Longrightarrow> budget_inv t'"
  shows "ledger_inv db'"
proof -
  obtain tables where t: "f (budget_view db) = Inr tables" "db' = db\<lparr>db_tables := tables\<lparr>attempts := attempts (db_tables db)\<rparr>\<rparr>"
    using assms(2) by (auto simp: with_budgets_def rbind_eq_Inr_iff)
  have "budget_inv (tables\<lparr>attempts := []\<rparr>)"
    by (rule budget_inv_attempts(1) [OF assms(3) [OF ledger_budget_inv [OF assms(1)] t(1)]])
  then show ?thesis using assms(1)
    by (simp add: ledger_inv_def t(2) attempts_wf_def request_ids_def requests_wf_def request_wf_def operations_wf_def
        no_dispatch_def replayable_def)
qed

lemma with_budgets_rows:
  assumes "with_budgets f db = Inr db'"
  shows "db_attempts db' = db_attempts db" and "db_requests db' = db_requests db"
    and "db_alias_revisions db' = db_alias_revisions db"
  using assms by (auto simp: with_budgets_def rbind_eq_Inr_iff)

subsection \<open>Changing one attempt\<close>

text \<open>What identifies an attempt, and no operation changes.\<close>

definition same_identity :: "ledger_attempt \<Rightarrow> ledger_attempt \<Rightarrow> bool" where
  "same_identity t t' \<longleftrightarrow> t_attempt_id t' = t_attempt_id t \<and> t_request_id t' = t_request_id t
     \<and> t_organization_id t' = t_organization_id t"

lemma update_attempt_rows:
  assumes "update_attempt aid f db = Inr db'"
  shows "db_attempts db' = update_where (\<lambda>t. t_attempt_id t = aid) f (db_attempts db)"
    and "db_requests db' = db_requests db" and "db_tables db' = db_tables db"
    and "t \<in> set (db_attempts db) \<Longrightarrow> t_attempt_id t = aid \<Longrightarrow> attempt_checks (f t)"
  using assms by (auto simp: update_attempt_def split: if_splits)

lemma no_dispatch_same:
  assumes "map t_request_id (db_attempts db') = map t_request_id (db_attempts db)"
  shows "no_dispatch db' rid = no_dispatch db rid"
proof -
  have "no_dispatch d rid \<longleftrightarrow> rid \<notin> set (map t_request_id (db_attempts d))" for d
    by (auto simp: no_dispatch_def list_ex_iff)
  then show ?thesis by (simp only: assms)
qed

lemma requests_wf_same:
  assumes "requests_wf db" and "db_requests db' = db_requests db"
    and "map t_request_id (db_attempts db') = map t_request_id (db_attempts db)"
  shows "requests_wf db'"
  using assms(1,2) no_dispatch_same [OF assms(3)]
  by (simp add: requests_wf_def request_wf_def operations_wf_def replayable_def)

lemma update_attempt_inv:
  assumes inv: "ledger_inv db" and run: "update_attempt aid f db = Inr db'"
    and same: "\<And>t. same_identity t (f t)"
    and wf: "\<And>t. t \<in> set (db_attempts db) \<Longrightarrow> t_attempt_id t = aid \<Longrightarrow> attempt_wf (f t)"
  shows "ledger_inv db'"
proof -
  note u = update_attempt_rows [OF run]
  have "requests_wf db'"
    by (rule requests_wf_same [of db])
      (use inv same in \<open>auto simp: ledger_inv_def u map_update_where same_identity_def\<close>)
  moreover have "attempts_wf db'"
    using inv same wf u(4) unfolding attempts_wf_def ledger_inv_def
    by (auto simp: u(1,2) map_update_where set_update_where same_identity_def request_ids_def)
  ultimately show ?thesis using inv by (simp add: ledger_inv_def u(3))
qed

lemma find_update_key:
  assumes "\<And>t. key (f t) = key t"
  shows "find (\<lambda>t. key t = k) (update_where (\<lambda>t. key t = a) f ts)
    = (if k = a then map_option f (find (\<lambda>t. key t = k) ts) else find (\<lambda>t. key t = k) ts)"
  by (induction ts) (auto simp: update_where_def assms)

lemma attempt_of_update:
  assumes "update_attempt aid f db = Inr db'" and "\<And>t. same_identity t (f t)"
  shows "attempt_of db' b = (if b = aid then map_option f (attempt_of db b) else attempt_of db b)"
  unfolding attempt_of_def update_attempt_rows(1) [OF assms(1)]
  by (rule find_update_key) (use assms(2) in \<open>simp add: same_identity_def\<close>)

lemma attempt_of_row:
  assumes "ledger_inv db"
  shows "attempt_of db aid = Some t \<longleftrightarrow> t \<in> set (db_attempts db) \<and> t_attempt_id t = aid"
proof
  assume "t \<in> set (db_attempts db) \<and> t_attempt_id t = aid"
  then show "attempt_of db aid = Some t"
    using assms find_by_key [of t_attempt_id "db_attempts db" t] by (auto simp: attempt_of_def ledger_inv_def attempts_wf_def)
qed (auto simp: attempt_of_def find_Some_iff)

section \<open>The journal\<close>

text \<open>
  The abstract view of an attempt: in flight, or delivered with an outcome and the strength of its meter. This is what the
  ledger promises its callers; money, tiers and requests are left to the other properties.
\<close>

record delivery =
  dl_state :: string
  dl_terminal_at :: "int option"
  dl_first_token_at :: "int option"
  dl_failure_class :: "string option"
  dl_failure_message :: "string option"

datatype meter = Unmetered | Estimated token_columns | Observed token_columns

datatype journal_entry = In_Flight | Delivered delivery meter

inductive journal_step :: "(string \<rightharpoonup> journal_entry) \<Rightarrow> (string \<rightharpoonup> journal_entry) \<Rightarrow> bool" where
  dispatch: "J a = None \<Longrightarrow> journal_step J (J(a \<mapsto> In_Flight))"
| deliver: "J a = Some In_Flight \<Longrightarrow> journal_step J (J(a \<mapsto> Delivered d m))"
| observe: "J a = Some (Delivered d m) \<Longrightarrow> (\<And>k. m \<noteq> Observed k) \<Longrightarrow> journal_step J (J(a \<mapsto> Delivered d (Observed k)))"

definition delivery_of :: "ledger_attempt \<Rightarrow> delivery" where
  "delivery_of t = \<lparr>dl_state = t_state t, dl_terminal_at = t_terminal_at t, dl_first_token_at = t_first_token_at t,
     dl_failure_class = t_failure_class t, dl_failure_message = t_failure_message t\<rparr>"

definition meter_of :: "ledger_attempt \<Rightarrow> meter" where
  "meter_of t =
     (if t_usage_source t = Some ''observed'' then Observed (t_tokens t)
      else if t_usage_source t = Some ''estimated'' then Estimated (t_tokens t) else Unmetered)"

definition entry_of :: "ledger_attempt \<Rightarrow> journal_entry" where
  "entry_of t = (if t_state t = ''dispatched'' then In_Flight else Delivered (delivery_of t) (meter_of t))"

definition journal :: "ledger_db \<Rightarrow> string \<rightharpoonup> journal_entry" where
  "journal db aid = map_option entry_of (attempt_of db aid)"

definition meter_le :: "meter \<Rightarrow> meter \<Rightarrow> bool" where
  "meter_le m m' \<longleftrightarrow> m' = m \<or> ((\<forall>k. m \<noteq> Observed k) \<and> (\<exists>k. m' = Observed k))"

lemma meter_le_refl [simp]: "meter_le m m"
  by (simp add: meter_le_def)

lemma meter_le_trans: "meter_le m m' \<Longrightarrow> meter_le m' m'' \<Longrightarrow> meter_le m m''"
  by (auto simp: meter_le_def)

lemma journal_update:
  assumes "journal db' = (journal db)(aid \<mapsto> entry_of t')" and "attempt_of db aid = Some t"
    and "t_state t \<noteq> ''dispatched''" and "delivery_of t' = delivery_of t" and "meter_le (meter_of t) (meter_of t')"
  shows "journal_step\<^sup>*\<^sup>* (journal db) (journal db')"
proof -
  have j: "journal db aid = Some (Delivered (delivery_of t) (meter_of t))"
    using assms(2,3) by (simp add: journal_def entry_of_def)
  have "t_state t' \<noteq> ''dispatched''" using assms(3,4) by (simp add: delivery_of_def)
  then have e: "entry_of t' = Delivered (delivery_of t) (meter_of t')" using assms(4) by (simp add: entry_of_def)
  from assms(5) show ?thesis unfolding meter_le_def
  proof
    assume "meter_of t' = meter_of t"
    then show ?thesis using assms(1) e j by (metis fun_upd_triv rtranclp.rtrancl_refl)
  next
    assume "(\<forall>k. meter_of t \<noteq> Observed k) \<and> (\<exists>k. meter_of t' = Observed k)"
    then show ?thesis using journal_step.observe [of "journal db" aid] j e assms(1) by (metis r_into_rtranclp)
  qed
qed

text \<open>Several attempts delivered at once, as the sweep after a crash does.\<close>

lemma journal_deliver_all:
  assumes "finite S" and "\<And>a. a \<in> S \<Longrightarrow> J a = Some In_Flight \<and> (\<exists>d m. J' a = Some (Delivered d m))"
    and "\<And>a. a \<notin> S \<Longrightarrow> J' a = J a"
  shows "journal_step\<^sup>*\<^sup>* J J'"
  using assms
proof (induction S arbitrary: J' rule: finite_induct)
  case empty
  then have "J' = J" by auto
  then show ?case by simp
next
  case (insert a S)
  have "journal_step\<^sup>*\<^sup>* J (J'(a := J a))" by (rule insert.IH) (use insert in auto)
  moreover have "journal_step (J'(a := J a)) J'"
  proof -
    obtain d m where "J' a = Some (Delivered d m)" "J a = Some In_Flight" using insert.prems(1) by blast
    then show ?thesis using journal_step.deliver [of "J'(a := J a)" a d m] by (simp add: fun_upd_idem)
  qed
  ultimately show ?case by simp
qed

section \<open>Amending a settled attempt\<close>

definition settled_at :: "string \<Rightarrow> ledger_db \<Rightarrow> bool" where
  "settled_at aid db \<longleftrightarrow> ledger_inv db
     \<and> (\<exists>t. attempt_of db aid = Some t \<and> t_state t \<noteq> ''dispatched'')"

text \<open>What late evidence may do: it touches one settled attempt, keeps its delivery, and only strengthens its meter.\<close>

definition amends :: "string \<Rightarrow> ledger_db \<Rightarrow> ledger_db \<Rightarrow> bool" where
  "amends aid db db' \<longleftrightarrow> ledger_inv db' \<and> db_requests db' = db_requests db
     \<and> (\<exists>t t'. attempt_of db aid = Some t \<and> attempt_of db' aid = Some t' \<and> delivery_of t' = delivery_of t
          \<and> meter_le (meter_of t) (meter_of t') \<and> journal db' = (journal db)(aid \<mapsto> entry_of t'))"

lemma amends_refl: "settled_at aid db \<Longrightarrow> amends aid db db"
  by (auto simp: amends_def settled_at_def journal_def fun_eq_iff)

lemma amends_trans: "amends aid db db' \<Longrightarrow> amends aid db' db'' \<Longrightarrow> amends aid db db''"
  unfolding amends_def by (auto intro: meter_le_trans)

lemma amends_settled: "settled_at aid db \<Longrightarrow> amends aid db db' \<Longrightarrow> settled_at aid db'"
  by (auto simp: amends_def settled_at_def delivery_of_def)

lemma amends_journal: "settled_at aid db \<Longrightarrow> amends aid db db' \<Longrightarrow> journal_step\<^sup>*\<^sup>* (journal db) (journal db')"
  unfolding amends_def settled_at_def using journal_update by auto

lemma amends_update:
  assumes s: "settled_at aid db" and run: "update_attempt aid f db = Inr db'"
    and same: "\<And>t. same_identity t (f t) \<and> delivery_of (f t) = delivery_of t"
    and m: "\<And>t. attempt_of db aid = Some t \<Longrightarrow> meter_le (meter_of t) (meter_of (f t))"
  shows "amends aid db db'"
proof -
  obtain t where t: "attempt_of db aid = Some t" "t_state t \<noteq> ''dispatched''" and inv: "ledger_inv db"
    using s by (auto simp: settled_at_def)
  have "attempt_wf (f r)" if "r \<in> set (db_attempts db)" "t_attempt_id r = aid" for r
  proof -
    have "attempt_of db aid = Some r" using attempt_of_row [OF inv] that by blast
    with t same [of r] show ?thesis by (simp add: attempt_wf_def delivery_of_def)
  qed
  then have "ledger_inv db'" using update_attempt_inv [OF inv run] same by blast
  moreover note a = attempt_of_update [OF run, OF conjunct1 [OF same]]
  moreover have "journal db' = (journal db)(aid \<mapsto> entry_of (f t))" using t(1) by (auto simp: journal_def a fun_eq_iff)
  ultimately show ?thesis using t same m update_attempt_rows(2) [OF run] by (simp add: amends_def)
qed

lemma amends_budgets:
  assumes s: "settled_at aid db" and run: "with_budgets f db = Inr db'"
    and "\<And>t t'. budget_inv t \<Longrightarrow> f t = Inr t' \<Longrightarrow> budget_inv t'"
  shows "amends aid db db'"
proof -
  have "attempt_of db' = attempt_of db" by (simp add: attempt_of_def [abs_def] with_budgets_rows [OF run])
  moreover from this have "journal db' = journal db" by (simp add: journal_def [abs_def])
  moreover have "ledger_inv db'" using with_budgets_inv [OF _ run assms(3)] s by (simp add: settled_at_def)
  ultimately show ?thesis using s with_budgets_rows(2) [OF run] by (auto simp: amends_def settled_at_def journal_def fun_eq_iff)
qed

text \<open>The budget operations late evidence runs.\<close>

lemma settle_keeps_inv: "opt_ge 0 v \<Longrightarrow> budget_inv t \<Longrightarrow> settle_attempt_budgets aid v t = Inr t' \<Longrightarrow> budget_inv t'"
  using settle_attempt_budgets_cases [of t v aid] by simp

lemma replace_keeps_inv:
  "opt_ge 0 v \<Longrightarrow> budget_inv t \<Longrightarrow> replace_budget_charges aid previous v t = Inr t' \<Longrightarrow> budget_inv t'"
  by (rule replace_budget_charges_inv)

lemma update_settled_nonneg:
  assumes "update_attempt aid f db = Inr db'" and "attempt_of db aid = Some t"
  shows "opt_ge 0 (t_budget_settled (f t))"
  using assms update_attempt_rows(4) [OF assms(1), of t] by (auto simp: attempt_of_def find_Some_iff attempt_checks_def)

lemma attempt_of_id: "attempt_of db aid = Some t \<Longrightarrow> t_attempt_id t = aid"
  by (auto simp: attempt_of_def find_Some_iff)

lemma store_tier_row:
  assumes "attempt_of db aid = Some t" and "store_tier t s db = Inr db'"
  obtains columns where "update_attempt aid (\<lambda>r. r\<lparr>t_tier := columns\<rparr>) db = Inr db'"
    "attempt_of db' aid = Some (t\<lparr>t_tier := columns\<rparr>)"
proof -
  obtain columns where u: "update_attempt aid (\<lambda>r. r\<lparr>t_tier := columns\<rparr>) db = Inr db'"
    using assms(2) attempt_of_id [OF assms(1)] by (auto simp: store_tier_def rbind_eq_Inr_iff)
  moreover have "attempt_of db' aid = Some (t\<lparr>t_tier := columns\<rparr>)"
    using attempt_of_update [OF u, of aid] assms(1) by (simp add: same_identity_def)
  ultimately show thesis by (rule that)
qed

lemma amends_store_tier:
  assumes "settled_at aid db" and "attempt_of db aid = Some t" and "store_tier t s db = Inr db'"
  shows "amends aid db db'"
proof -
  obtain columns where "update_attempt aid (\<lambda>r. r\<lparr>t_tier := columns\<rparr>) db = Inr db'"
    using store_tier_row [OF assms(2,3)] by metis
  from amends_update [OF assms(1) this] show ?thesis
    by (auto simp: same_identity_def delivery_of_def meter_of_def)
qed

lemma amends_charge:
  assumes s: "settled_at aid db" and t: "attempt_of db aid = Some t"
    and run: "with_budgets f db = Inr db1" "update_attempt aid g db1 = Inr db'"
    and f: "\<And>b b'. opt_ge 0 (t_budget_settled (g t)) \<Longrightarrow> budget_inv b \<Longrightarrow> f b = Inr b' \<Longrightarrow> budget_inv b'"
    and g: "\<And>t. same_identity t (g t) \<and> delivery_of (g t) = delivery_of t"
    and m: "meter_le (meter_of t) (meter_of (g t))"
  shows "amends aid db db'"
proof -
  have t1: "attempt_of db1 aid = Some t" using t by (simp add: attempt_of_def with_budgets_rows [OF run(1)])
  have a: "amends aid db db1"
    by (rule amends_budgets [OF s run(1)]) (use f update_settled_nonneg [OF run(2) t1] in blast)
  moreover have "amends aid db1 db'"
    by (rule amends_update [OF amends_settled [OF s a] run(2) g]) (use t1 m in simp)
  ultimately show ?thesis by (rule amends_trans)
qed

text \<open>An upgrade in steps.\<close>

definition upgraded_settlement ::
    "ledger_attempt \<Rightarrow> gateway_event option \<Rightarrow> gateway_failure option \<Rightarrow> int option \<Rightarrow> int option" where
  "upgraded_settlement t terminal failure charged =
     (if explicit_charge t then t_budget_settled t
      else if guardrail_denied (case failure of Some f \<Rightarrow> Some f | None \<Rightarrow> Option.bind terminal event_failure) then Some 0
      else charged)"

definition upgraded_row ::
    "tier_row \<Rightarrow> int option \<Rightarrow> int option \<Rightarrow> int option \<Rightarrow> gateway_usage option \<Rightarrow> attempt_row \<Rightarrow> ledger_attempt \<Rightarrow> ledger_attempt" where
  "upgraded_row columns cost cf settled usage row r =
     r\<lparr>t_tier := columns, t_tokens := usage_columns usage, t_usage_source := Some ''observed'', t_estimated_cost := cost,
       t_counterfactual_cost := cf, t_budget_settled := settled, t_billed := billed_unit_columns row usage\<rparr>"

lemma upgrade_observed_Inr:
  assumes "upgrade_observed t terminal failure usage receipt db = Inr db'"
  obtains tier columns cost charged cf db1 where
    "settle_tier (if receipt = None then prior_tier t else receipt) (t_tier t) = Inr (tier, columns)"
    "settled_cost (t_prices t) tier usage terminal = Inr (cost, charged)" "counterfactual_cost t usage = Inr cf"
    "with_budgets (replace_budget_charges (t_attempt_id t) (t_budget_settled t)
       (upgraded_settlement t terminal failure charged)) db = Inr db1"
    "update_attempt (t_attempt_id t) (upgraded_row columns cost cf (upgraded_settlement t terminal failure charged) usage (t_prices t)) db1
      = Inr db'"
proof -
  have nc: "\<not> (confirmed (prior_tier t) \<and> receipt \<noteq> None \<and> receipt \<noteq> prior_tier t)"
  proof
    assume "confirmed (prior_tier t) \<and> receipt \<noteq> None \<and> receipt \<noteq> prior_tier t"
    from assms [unfolded upgrade_observed_def if_P [OF this]] show False by simp
  qed
  note body = assms [unfolded upgrade_observed_def if_not_P [OF nc] Let_def, folded upgraded_settlement_def,
      folded upgraded_row_def]
  let ?tier = "settle_tier (if receipt = None then prior_tier t else receipt) (t_tier t)"
  obtain tier columns where 1: "?tier = Inr (tier, columns)" using body by (cases ?tier) auto
  note body = body [unfolded 1 rbind_simps prod.case]
  obtain cost charged where 2: "settled_cost (t_prices t) tier usage terminal = Inr (cost, charged)"
    using body by (cases "settled_cost (t_prices t) tier usage terminal") auto
  note body = body [unfolded 2 rbind_simps prod.case]
  show thesis using body that [OF 1 2] by (auto simp: rbind_eq_Inr_iff)
qed

lemma amends_upgrade:
  assumes s: "settled_at aid db" and t: "attempt_of db aid = Some t"
    and m: "t_usage_source t = Some ''observed'' \<Longrightarrow> t_tokens t = usage_columns usage"
    and run: "upgrade_observed t terminal failure usage receipt db = Inr db'"
  shows "amends aid db db'"
  using run
proof (rule upgrade_observed_Inr)
  fix tier columns cost charged cf db1
  let ?s = "upgraded_settlement t terminal failure charged"
  assume "with_budgets (replace_budget_charges (t_attempt_id t) (t_budget_settled t) ?s) db = Inr db1"
    and "update_attempt (t_attempt_id t) (upgraded_row columns cost cf ?s usage (t_prices t)) db1 = Inr db'"
  note r = this [unfolded attempt_of_id [OF t]]
  show ?thesis
  proof (rule amends_charge [OF s t r])
    show "budget_inv b'" if "opt_ge 0 (t_budget_settled (upgraded_row columns cost cf ?s usage (t_prices t) t))"
      "budget_inv b" "replace_budget_charges aid (t_budget_settled t) ?s b = Inr b'" for b b'
      using that by (auto simp: upgraded_row_def intro: replace_keeps_inv)
    show "meter_le (meter_of t) (meter_of (upgraded_row columns cost cf ?s usage (t_prices t) t))"
      using m by (auto simp: meter_le_def meter_of_def upgraded_row_def)
  qed (auto simp: same_identity_def delivery_of_def upgraded_row_def)
qed

lemma amends_receipt:
  assumes s: "settled_at aid db" and t: "attempt_of db aid = Some t"
    and run: "settle_receipt t r cost usage db = Inr db'"
  shows "amends aid db db'"
proof -
  obtain db1 db2 db3 where
    r1: "store_tier t r db = Inr db1"
    and r2: "(if crash_meter t then update_attempt aid (\<lambda>r. r\<lparr>t_tokens := usage_columns usage, t_usage_source := Some ''observed''\<rparr>) db1
       else Inr db1) = Inr db2"
    and r3: "update_attempt aid (\<lambda>r. r\<lparr>t_estimated_cost := Some cost, t_budget_settled := Some cost\<rparr>) db2 = Inr db3"
    and r4: "with_budgets (settle_attempt_budgets aid (Some cost)) db3 = Inr db'"
    using run attempt_of_id [OF t] by (auto simp: settle_receipt_def rbind_eq_Inr_iff)
  note a1 = amends_store_tier [OF s t r1]
  note s1 = amends_settled [OF s a1]
  have a2: "amends aid db1 db2"
  proof (cases "crash_meter t")
    case True
    with r2 have u: "update_attempt aid (\<lambda>r. r\<lparr>t_tokens := usage_columns usage, t_usage_source := Some ''observed''\<rparr>) db1 = Inr db2"
      by simp
    show ?thesis
    proof (rule amends_update [OF s1 u])
      fix t1 assume "attempt_of db1 aid = Some t1"
      moreover obtain columns where "attempt_of db1 aid = Some (t\<lparr>t_tier := columns\<rparr>)" using store_tier_row [OF t r1] by metis
      ultimately have "t_usage_source t1 = Some ''unknown''" using True by (auto simp: crash_meter_def)
      then show "meter_le (meter_of t1) (meter_of (t1\<lparr>t_tokens := usage_columns usage, t_usage_source := Some ''observed''\<rparr>))"
        by (auto simp: meter_le_def meter_of_def)
    qed (auto simp: same_identity_def delivery_of_def)
  qed (use r2 amends_refl [OF s1] in simp)
  note s2 = amends_settled [OF s1 a2]
  have a3: "amends aid db2 db3"
    by (rule amends_update [OF s2 r3]) (auto simp: same_identity_def delivery_of_def meter_of_def)
  obtain t2 where "attempt_of db2 aid = Some t2" using s2 by (auto simp: settled_at_def)
  from update_settled_nonneg [OF r3 this] have "0 \<le> cost" by simp
  then have "amends aid db3 db'"
    by (intro amends_budgets [OF amends_settled [OF s2 a3] r4]) (auto intro: settle_keeps_inv [of "Some cost"])
  with a1 a2 a3 show ?thesis by (blast intro: amends_trans)
qed

lemma amends_tier_receipt:
  assumes s: "settled_at aid db" and t: "attempt_of db aid = Some t"
    and run: "reconcile_tier_receipt t receipt terminal usage db = Inr db'"
  shows "amends aid db db'"
proof -
  have "db' = db \<or> (\<exists>r c. settle_receipt t r c usage db = Inr db')"
    using run by (auto simp: reconcile_tier_receipt_def rbind_eq_Inr_iff split: option.splits if_splits)
  then show ?thesis using amends_refl [OF s] amends_receipt [OF s t] by blast
qed

lemma amends_retain:
  assumes s: "settled_at aid db" and t: "attempt_of db aid = Some t"
    and run: "retain_unmetered_tier_receipt t receipt db = Inr db'"
  shows "amends aid db db'"
proof -
  have "db' = db \<or> (\<exists>r. store_tier t r db = Inr db')"
    using run by (auto simp: retain_unmetered_tier_receipt_def rbind_eq_Inr_iff split: option.splits if_splits)
  then show ?thesis using amends_refl [OF s] amends_store_tier [OF s t] by blast
qed

lemma same_replay_tokens:
  assumes "same_replay t terminal usage receipt = Inr True"
  shows "t_tokens t = usage_columns usage"
  using assms by (auto simp: same_replay_def Let_def rbind_eq_Inr_iff split: if_splits)

lemma amends_observed:
  assumes s: "settled_at aid db" and t: "attempt_of db aid = Some t"
    and run: "reconcile_observed t terminal failure usage receipt db = Inr db'"
  shows "amends aid db db'"
proof -
  have r: "same_replay t terminal usage receipt = Inr True"
    "db' = db \<or> upgrade_observed t terminal failure usage receipt db = Inr db'"
    using run by (auto simp: reconcile_observed_def rbind_eq_Inr_iff split: if_splits)
  then show ?thesis using amends_refl [OF s] amends_upgrade [OF s t] same_replay_tokens by blast
qed

lemma amends_waive:
  assumes s: "settled_at aid db" and t: "attempt_of db aid = Some t" and run: "waive_charge t db = Inr db'"
  shows "amends aid db db'"
proof -
  obtain db1 where r: "with_budgets (replace_budget_charges aid (t_budget_settled t) (Some 0)) db = Inr db1"
    "update_attempt aid (\<lambda>r. r\<lparr>t_budget_settled := Some 0\<rparr>) db1 = Inr db'"
    using run attempt_of_id [OF t] by (auto simp: waive_charge_def rbind_eq_Inr_iff split: if_splits)
  show ?thesis
    by (rule amends_charge [OF s t r])
      (auto simp: same_identity_def delivery_of_def meter_of_def intro: replace_keeps_inv [of "Some 0"])
qed

lemma amends_terminal:
  assumes s: "settled_at aid db" and t: "attempt_of db aid = Some t"
    and run: "reconcile_terminal_attempt t state terminal failure usage receipt db = Inr db'"
  shows "amends aid db db'"
  using run amends_waive [OF s t] amends_upgrade [OF s t] amends_observed [OF s t] amends_retain [OF s t]
    amends_tier_receipt [OF s t]
  unfolding reconcile_terminal_attempt_def by (auto split: if_splits)

lemma amends_decision:
  assumes s: "settled_at aid db" and run: "reconcile_decision_liability aid v db = Inr db'"
  shows "amends aid db db'"
proof -
  obtain t where t: "attempt_of db aid = Some t" using s by (auto simp: settled_at_def)
  show ?thesis
  proof (cases "db' = db")
    case False
    then obtain db1 where r: "with_budgets (settle_attempt_budgets aid (Some v)) db = Inr db1"
      "update_attempt aid (\<lambda>r. r\<lparr>t_budget_settled := Some v\<rparr>) db1 = Inr db'"
      using run t by (auto simp: reconcile_decision_liability_def Let_def rbind_eq_Inr_iff split: if_splits option.splits)
    show ?thesis
      by (rule amends_charge [OF s t r])
        (auto simp: same_identity_def delivery_of_def meter_of_def intro: settle_keeps_inv [of "Some v"])
  qed (use amends_refl [OF s] in simp)
qed

lemma decision_settled:
  assumes "ledger_inv db" and "reconcile_decision_liability aid v db = Inr db'"
  shows "settled_at aid db"
  using assms by (auto simp: reconcile_decision_liability_def Let_def settled_at_def split: if_splits option.splits)

section \<open>Every transaction keeps the tables and steps the journal\<close>

definition steps_journal :: "ledger_db \<Rightarrow> ledger_db \<Rightarrow> bool" where
  "steps_journal db db' \<longleftrightarrow> ledger_inv db' \<and> journal_step\<^sup>*\<^sup>* (journal db) (journal db')"

lemma amends_steps: "settled_at aid db \<Longrightarrow> amends aid db db' \<Longrightarrow> steps_journal db db'"
  using amends_journal by (auto simp: steps_journal_def amends_def)

lemma budgets_steps:
  assumes "ledger_inv db" and run: "with_budgets f db = Inr db'"
    and "\<And>t t'. budget_inv t \<Longrightarrow> f t = Inr t' \<Longrightarrow> budget_inv t'"
  shows "steps_journal db db'"
proof -
  have "journal db' = journal db" by (simp add: journal_def [abs_def] attempt_of_def with_budgets_rows [OF run])
  then show ?thesis using with_budgets_inv [OF assms] by (simp add: steps_journal_def)
qed

lemma steps_trans: "steps_journal db db' \<Longrightarrow> steps_journal db' db'' \<Longrightarrow> steps_journal db db''"
  by (auto simp: steps_journal_def)

subsection \<open>Ending a request\<close>

text \<open>Ending an open request keeps what other requests certify; its own certificate needs that nothing was dispatched.\<close>

lemma replayable_ended: "replayable db q \<Longrightarrow> q_terminal_state q \<noteq> None"
  by (auto simp: replayable_def)

lemma update_requests_wf:
  assumes wf: "requests_wf db" and att: "map t_request_id (db_attempts db') = map t_request_id (db_attempts db)"
    and rows: "db_requests db' = update_where P f (db_requests db)"
    and P: "\<And>q. P q \<Longrightarrow> q_terminal_state q = None"
    and f: "\<And>q. q_request_id (f q) = q_request_id q \<and> operation_key (f q) = operation_key q
      \<and> q_canonical_request_sha256 (f q) = q_canonical_request_sha256 q"
    and ok: "\<And>q. q \<in> set (db_requests db) \<Longrightarrow> P q \<Longrightarrow> request_wf db (f q)"
  shows "requests_wf db'"
proof -
  note disp = no_dispatch_same [OF att]
  have len: "length (db_requests db') = length (db_requests db)" by (simp add: rows update_where_def)
  have nth: "db_requests db' ! i = (if P (db_requests db ! i) then f (db_requests db ! i) else db_requests db ! i)"
    if "i < length (db_requests db)" for i using that by (simp add: rows update_where_def)
  have keep: "replayable db' (db_requests db' ! i)" if "i < length (db_requests db)" "replayable db (db_requests db ! i)" for i
    using that P [of "db_requests db ! i"] replayable_ended [OF that(2)] by (auto simp: nth replayable_def disp)
  have op: "operation_key (db_requests db' ! i) = operation_key (db_requests db ! i)
      \<and> q_canonical_request_sha256 (db_requests db' ! i) = q_canonical_request_sha256 (db_requests db ! i)"
    if "i < length (db_requests db)" for i using that f by (simp add: nth)
  have "operations_wf db'"
    unfolding operations_wf_def len
  proof (intro allI impI)
    fix i j assume ij: "i < j" "j < length (db_requests db)" "operation_key (db_requests db' ! i) \<noteq> None"
      "operation_key (db_requests db' ! j) = operation_key (db_requests db' ! i)"
    then have i: "i < length (db_requests db)" by simp
    have "q_canonical_request_sha256 (db_requests db ! j) = q_canonical_request_sha256 (db_requests db ! i)
        \<and> replayable db (db_requests db ! i)"
      using operations_wfD [OF _ ij(1,2)] wf ij(3,4) op [OF i] op [OF ij(2)] by (simp add: requests_wf_def)
    then show "q_canonical_request_sha256 (db_requests db' ! j) = q_canonical_request_sha256 (db_requests db' ! i)
        \<and> replayable db' (db_requests db' ! i)"
      using op [OF i] op [OF ij(2)] keep [OF i] by simp
  qed
  moreover have "distinct (map q_request_id (db_requests db'))"
    using wf f by (simp add: rows map_update_where requests_wf_def)
  moreover have "\<forall>q \<in> set (db_requests db'). request_wf db' q"
    using wf ok by (auto simp: rows set_update_where requests_wf_def request_wf_def disp)
  ultimately show ?thesis by (simp add: requests_wf_def)
qed

lemma end_request_steps:
  assumes inv: "ledger_inv db" and "state \<noteq> ''expired_before_dispatch''"
  shows "steps_journal db (end_request rid (\<lambda>q. q\<lparr>q_terminal_state := Some state, q_terminal_at := Some now\<rparr>) db)"
proof -
  let ?f = "\<lambda>q. q\<lparr>q_terminal_state := Some state, q_terminal_at := Some now\<rparr>"
  let ?db = "end_request rid ?f db"
  have "requests_wf ?db"
  proof (rule update_requests_wf [of db])
    show "request_wf db (?f q)" if "q \<in> set (db_requests db)" "q_request_id q = rid \<and> q_terminal_state q = None" for q
      using that inv assms(2) by (auto simp: ledger_inv_def requests_wf_def request_wf_def)
  qed (use inv in \<open>auto simp: end_request_def ledger_inv_def operation_key_def\<close>)
  moreover have "attempts_wf ?db"
    using inv by (simp add: ledger_inv_def attempts_wf_def end_request_def request_ids_def map_update_where)
  moreover have "journal ?db = journal db" by (simp add: journal_def [abs_def] attempt_of_def end_request_def)
  ultimately show ?thesis using inv by (simp add: steps_journal_def ledger_inv_def end_request_def)
qed

subsection \<open>The first settlement\<close>

lemma terminal_values_state:
  assumes "terminal_values terminal failure = Inr (state, rest)"
  shows "state \<in> {''completed'', ''incomplete'', ''failed'', ''cancelled''}"
  using assms by (cases rest)
    (auto simp: terminal_values_def terminal_kind_value_def Let_def split: if_splits option.splits gateway_event_kind.splits)

definition finished_row ::
    "int \<Rightarrow> finish_args \<Rightarrow> string \<Rightarrow> string option \<Rightarrow> string option \<Rightarrow> gateway_usage option \<Rightarrow> attempt_row \<Rightarrow> tier_row
      \<Rightarrow> int option \<Rightarrow> int option \<Rightarrow> int option \<Rightarrow> ledger_attempt \<Rightarrow> ledger_attempt" where
  "finished_row now a state class_value message usage row columns cost cf settled r =
     r\<lparr>t_tier := columns, t_state := state, t_terminal_at := Some now, t_first_token_at := fa_first_token_at a,
       t_failure_class := class_value, t_failure_message := message, t_tokens := usage_columns usage,
       t_usage_source := Some (usage_source_label usage (case fa_terminal a of None \<Rightarrow> False | Some e \<Rightarrow> usage_estimated e)),
       t_estimated_cost := cost, t_counterfactual_cost := cf, t_budget_settled := settled,
       t_rate_limits := fa_rate_limits a, t_upstream_provider := fa_upstream_provider a,
       t_billed := billed_unit_columns row usage\<rparr>"

definition first_settlement :: "finish_args \<Rightarrow> int option \<Rightarrow> int option" where
  "first_settlement a charged =
     (if guardrail_denied (fa_failure a) \<or> releases_reservation (fa_terminal a) then Some 0 else charged)"

lemma finish_dispatched_Inr:
  assumes "finish_dispatched now a state class_value message usage t db = Inr db'"
  obtains tier columns cost charged cf db1 db2 db3 where
    "settle_tier (fa_service_tier a) (t_tier t) = Inr (tier, columns)"
    "settled_cost (t_prices t) tier usage (fa_terminal a) = Inr (cost, charged)" "counterfactual_cost t usage = Inr cf"
    "update_attempt (fa_attempt_id a) (finished_row now a state class_value message usage (t_prices t) columns cost cf
       (first_settlement a charged)) db = Inr db1"
    "record_recovery (fa_attempt_id a) (fa_terminal a) db1 = Inr db2"
    "with_budgets (settle_attempt_budgets (fa_attempt_id a) (first_settlement a charged)) db2 = Inr db3"
    "db' = (if fa_finalize_request a \<and> state \<in> {''completed'', ''failed'', ''cancelled'', ''incomplete''}
       then end_request (t_request_id t) (\<lambda>q. q\<lparr>q_terminal_state := Some state, q_terminal_at := Some now\<rparr>) db3 else db3)"
proof -
  note body = assms [unfolded finish_dispatched_def Let_def, folded first_settlement_def, folded finished_row_def]
  let ?tier = "settle_tier (fa_service_tier a) (t_tier t)"
  obtain tier columns where 1: "?tier = Inr (tier, columns)" using body by (cases ?tier) auto
  note body = body [unfolded 1 rbind_simps prod.case]
  let ?cost = "settled_cost (t_prices t) tier usage (fa_terminal a)"
  obtain cost charged where 2: "?cost = Inr (cost, charged)" using body by (cases ?cost) auto
  note body = body [unfolded 2 rbind_simps prod.case]
  obtain cf where 3: "counterfactual_cost t usage = Inr cf" using body by (cases "counterfactual_cost t usage") auto
  note body = body [unfolded 3 rbind_simps prod.case rbind_eq_Inr_iff]
  from body obtain db1 db2 db3 where
    u: "update_attempt (fa_attempt_id a) (finished_row now a state class_value message usage (t_prices t) columns cost cf
       (first_settlement a charged)) db = Inr db1"
    "record_recovery (fa_attempt_id a) (fa_terminal a) db1 = Inr db2"
    "with_budgets (settle_attempt_budgets (fa_attempt_id a) (first_settlement a charged)) db2 = Inr db3"
    "Inr (if fa_finalize_request a \<and> state \<in> {''completed'', ''failed'', ''cancelled'', ''incomplete''}
       then end_request (t_request_id t) (\<lambda>q. q\<lparr>q_terminal_state := Some state, q_terminal_at := Some now\<rparr>) db3 else db3)
      = (Inr db' :: py_error + ledger_db)"
    by (elim exE conjE)
  show thesis by (rule that [OF 1 2 3 u(1-3) sum.inject(2) [THEN iffD1, OF u(4), symmetric]])
qed

lemma finish_dispatched_steps:
  assumes inv: "ledger_inv db" and t: "attempt_of db (fa_attempt_id a) = Some t" "t_state t = ''dispatched''"
    and state: "state \<in> {''completed'', ''incomplete'', ''failed'', ''cancelled''}"
    and run: "finish_dispatched now a state class_value message usage t db = Inr db'"
  shows "steps_journal db db'"
  using run
proof (rule finish_dispatched_Inr)
  fix tier columns cost charged cf db1 db2 db3
  let ?aid = "fa_attempt_id a" and ?s = "first_settlement a charged"
  let ?f = "finished_row now a state class_value message usage (t_prices t) columns cost cf ?s"
  assume u: "update_attempt ?aid ?f db = Inr db1" and rec: "record_recovery ?aid (fa_terminal a) db1 = Inr db2"
    and bud: "with_budgets (settle_attempt_budgets ?aid ?s) db2 = Inr db3"
    and fin: "db' = (if fa_finalize_request a \<and> state \<in> {''completed'', ''failed'', ''cancelled'', ''incomplete''}
       then end_request (t_request_id t) (\<lambda>q. q\<lparr>q_terminal_state := Some state, q_terminal_at := Some now\<rparr>) db3 else db3)"
  have f: "same_identity r (?f r)" "t_state (?f r) = state" for r by (simp_all add: same_identity_def finished_row_def)
  have live: "state \<noteq> ''dispatched''" "state \<noteq> ''expired_before_dispatch''" using state by auto
  have "ledger_inv db1" by (rule update_attempt_inv [OF inv u f(1)]) (use f(2) live in \<open>simp add: attempt_wf_def\<close>)
  moreover note a1 = attempt_of_update [OF u f(1)]
  moreover have "journal db1 = (journal db)(?aid \<mapsto> Delivered (delivery_of (?f t)) (meter_of (?f t)))"
    using t f(2) live by (auto simp: journal_def a1 fun_eq_iff entry_of_def)
  then have "journal_step\<^sup>*\<^sup>* (journal db) (journal db1)"
    using journal_step.deliver [of "journal db" ?aid] t by (simp add: journal_def entry_of_def r_into_rtranclp)
  ultimately have s1: "steps_journal db db1" "settled_at ?aid db1"
    using t f(2) live by (simp_all add: steps_journal_def settled_at_def)
  have m2: "amends ?aid db1 db2"
  proof (cases "db2 = db1")
    case False
    then have "update_attempt ?aid (\<lambda>t. t\<lparr>t_accounting_recovery := True\<rparr>) db1 = Inr db2"
      using rec by (auto simp: record_recovery_def split: option.splits if_splits)
    then show ?thesis
      by (rule amends_update [OF s1(2)]) (auto simp: same_identity_def delivery_of_def meter_of_def)
  qed (use amends_refl [OF s1(2)] in simp)
  note s2 = amends_settled [OF s1(2) m2]
  have "opt_ge 0 ?s" using update_settled_nonneg [OF u t(1)] by (simp add: finished_row_def)
  then have m3: "amends ?aid db2 db3" by (intro amends_budgets [OF s2 bud]) (rule settle_keeps_inv)
  have s3: "steps_journal db db3"
    using s1(1) amends_steps [OF s1(2) m2] amends_steps [OF s2 m3] by (blast intro: steps_trans)
  then have "ledger_inv db3" by (simp add: steps_journal_def)
  from end_request_steps [OF this live(2), of "t_request_id t" now] s3 steps_trans fin show "steps_journal db db'" by auto
qed

lemma finish_attempt_steps:
  assumes inv: "ledger_inv db" and run: "apply_finish_attempt now a db = Inr db'"
  shows "steps_journal db db'"
proof -
  obtain state class_value message usage t where
    v: "terminal_values (fa_terminal a) (fa_failure a) = Inr (state, class_value, message, usage)"
    and t: "attempt_of db (fa_attempt_id a) = Some t"
    and r: "(if t_state t \<noteq> ''dispatched''
       then reconcile_terminal_attempt t state (fa_terminal a) (fa_failure a) usage (fa_service_tier a) db
       else finish_dispatched now a state class_value message usage t db) = Inr db'"
    using run by (auto simp: apply_finish_attempt_def rbind_eq_Inr_iff split: option.splits)
  show ?thesis
  proof (cases "t_state t = ''dispatched''")
    case True
    then show ?thesis using finish_dispatched_steps [OF inv t] terminal_values_state [OF v] r by simp
  next
    case False
    then have "settled_at (fa_attempt_id a) db" using inv t by (simp add: settled_at_def)
    then show ?thesis using amends_terminal [OF _ t] amends_steps r False by simp
  qed
qed

subsection \<open>Dispatching\<close>

lemma insert_attempt_Inr:
  assumes "insert_attempt t db = Inr db'"
  shows "db' = db\<lparr>db_attempts := db_attempts db @ [t]\<rparr>" and "attempt_checks t"
    and "t_attempt_id t \<notin> t_attempt_id ` set (db_attempts db)"
  using assms by (auto simp: insert_attempt_def list_ex_iff split: if_splits)

text \<open>An attempt of an open request: the certificates of the other requests keep holding.\<close>

lemma insert_attempt_inv:
  assumes inv: "ledger_inv db" and run: "insert_attempt t db = Inr db'" and wf: "attempt_wf t"
    and q: "q \<in> set (db_requests db)" "q_terminal_state q = None" "t_request_id t = q_request_id q"
      "t_organization_id t = q_organization_id q"
  shows "ledger_inv db'"
proof -
  note i = insert_attempt_Inr [OF run]
  have disp: "no_dispatch db' (q_request_id r) = no_dispatch db (q_request_id r)"
    if "r \<in> set (db_requests db)" "q_terminal_state r \<noteq> None" for r
  proof -
    have "q_request_id r \<noteq> q_request_id q"
      using that q inv distinct_key_eq [of q_request_id "db_requests db" r q] by (auto simp: ledger_inv_def requests_wf_def)
    then show ?thesis by (simp add: no_dispatch_def i(1) q(3))
  qed
  have "request_wf db' r" if "r \<in> set (db_requests db)" for r
    using that inv disp [OF that] unfolding ledger_inv_def requests_wf_def request_wf_def by fastforce
  moreover have "replayable db' r" if "r \<in> set (db_requests db)" "replayable db r" for r
    using that disp [OF that(1)] by (auto simp: replayable_def)
  then have "operations_wf db'"
    using inv nth_mem [of _ "db_requests db"] unfolding ledger_inv_def requests_wf_def operations_wf_def
    by (auto simp: i(1))
  ultimately have "requests_wf db'" using inv by (simp add: ledger_inv_def requests_wf_def i(1))
  moreover have "attempts_wf db'"
    using inv i(2,3) wf q by (auto simp: ledger_inv_def attempts_wf_def i(1) request_ids_def)
  ultimately show ?thesis using inv by (simp add: ledger_inv_def i(1))
qed

lemma dispatched_row_fields [simp]:
  "t_attempt_id (dispatched_row aid now ps snap stage q a) = aid"
  "t_request_id (dispatched_row aid now ps snap stage q a) = auth_request_id (snapshot_authorization snap)"
  "t_organization_id (dispatched_row aid now ps snap stage q a) = auth_organization_id (snapshot_authorization snap)"
  "t_state (dispatched_row aid now ps snap stage q a) = ''dispatched''"
  "attempt_wf (dispatched_row aid now ps snap stage q a)"
  by (simp_all add: dispatched_row_def Let_def attempt_wf_def record_tier_admission_def split: option.split)

lemma raised_Inr [simp]: "raised r = Inr x \<longleftrightarrow> r = Inr x"
  by (auto simp: raised_def split: sum.splits)

text \<open>A started attempt in steps.\<close>

lemma start_attempt_Inr:
  assumes "apply_start_attempt authority aid now period snap a db = Inr (aid', db')"
  obtains stage ps q db1 where "authority = None" "aid' = aid" "require_plan snap a = Inr stage"
    "budget_period_start period = Inr ps" "require_open_request (snapshot_authorization snap) db = Inr q"
    "insert_attempt (dispatched_row aid now ps snap stage q a) db = Inr db1"
    "with_budgets (require_attempt_budget (attempt_charge aid ps snap stage q a)) db1 = Inr db'"
  using assms by (auto simp: apply_start_attempt_def rbind_eq_Inr_iff split: option.splits)

lemma require_open_request_Inr:
  assumes "require_open_request auth db = Inr q"
  shows "q \<in> set (db_requests db)" and "q_terminal_state q = None" and "auth_request_id auth = q_request_id q"
    and "auth_organization_id auth = q_organization_id q"
  using assms by (auto simp: require_open_request_def request_of_def find_Some_iff split: option.splits if_splits)

lemma require_plan_cost: "require_plan snap a = Inr stage \<Longrightarrow> opt_ge 0 (as_maximum_cost a)"
  by (auto simp: require_plan_def Let_def rbind_eq_Inr_iff split: if_splits option.splits)

lemma find_snoc: "find P (xs @ [x]) = (case find P xs of None \<Rightarrow> if P x then Some x else None | Some y \<Rightarrow> Some y)"
  by (induction xs) auto

lemma start_attempt_steps:
  assumes inv: "ledger_inv db" and run: "apply_start_attempt authority aid now period snap a db = Inr (aid', db')"
  shows "steps_journal db db'"
proof -
  obtain stage ps q db1 where p: "require_plan snap a = Inr stage"
    and q: "require_open_request (snapshot_authorization snap) db = Inr q"
    and i: "insert_attempt (dispatched_row aid now ps snap stage q a) db = Inr db1"
    and b: "with_budgets (require_attempt_budget (attempt_charge aid ps snap stage q a)) db1 = Inr db'"
    using start_attempt_Inr [OF run] by metis
  note i' = insert_attempt_Inr [OF i] and q' = require_open_request_Inr [OF q]
  have inv1: "ledger_inv db1" by (rule insert_attempt_inv [OF inv i _ q'(1,2)]) (use q' in simp_all)
  have none: "attempt_of db aid = None" using i'(3) by (auto simp: attempt_of_def find_None_iff image_iff)
  then have "journal db1 = (journal db)(aid \<mapsto> In_Flight)"
    by (auto simp: journal_def attempt_of_def i'(1) entry_of_def fun_eq_iff find_snoc split: option.splits)
  then have "steps_journal db db1"
    using inv1 none journal_step.dispatch [of "journal db" aid] by (simp add: steps_journal_def journal_def r_into_rtranclp)
  moreover have "steps_journal db1 db'"
  proof (rule budgets_steps [OF inv1 b])
    have "opt_ge 0 (arg_maximum_cost (attempt_charge aid ps snap stage q a))"
      using require_plan_cost [OF p] by (simp add: attempt_charge_def Let_def)
    then show "budget_inv t'" if "budget_inv t" "require_attempt_budget (attempt_charge aid ps snap stage q a) t = Inr t'" for t t'
      using require_attempt_budget_inv [OF that] by simp
  qed
  ultimately show ?thesis by (rule steps_trans)
qed

subsection \<open>Accepting\<close>

lemma same_operation_key:
  "same_operation auth q \<Longrightarrow> operation_key q = map_option (\<lambda>k. (auth_organization_id auth, auth_identity_id auth,
     auth_alias_revision_id auth, auth_surface auth, k)) (auth_caller_operation_sha256 auth)"
  by (auto simp: same_operation_def operation_key_def)

text \<open>
  The newest request of an operation answers for all of them: the invariant covers the older ones, the acceptance check the
  newest.
\<close>

lemma require_operation_all:
  assumes wf: "operations_wf db" and ok: "require_operation auth db = Inr ()"
    and key: "auth_caller_operation_sha256 auth \<noteq> None" and i: "i < length (db_requests db)" "same_operation auth (db_requests db ! i)"
  shows "q_canonical_request_sha256 (db_requests db ! i) = auth_canonical_request_sha256 auth \<and> replayable db (db_requests db ! i)"
proof -
  let ?n = "length (db_requests db)"
  obtain prior where f: "find (same_operation auth) (rev (db_requests db)) = Some prior"
    using i find_None_iff [of "same_operation auth" "rev (db_requests db)"] nth_mem [OF i(1)] by (cases "find (same_operation auth) (rev (db_requests db))") auto
  then have p: "q_canonical_request_sha256 prior = auth_canonical_request_sha256 auth" "replayable db prior"
    using ok key by (auto simp: require_operation_def split: if_splits)
  obtain k where k: "k < ?n" "same_operation auth prior" "prior = rev (db_requests db) ! k"
    "\<And>l. l < k \<Longrightarrow> \<not> same_operation auth (rev (db_requests db) ! l)"
    using f unfolding find_Some_iff by auto
  define j where "j = ?n - Suc k"
  have j: "j < ?n" "prior = db_requests db ! j" using k by (simp_all add: j_def rev_nth)
  have "i \<le> j"
  proof (rule ccontr)
    assume "\<not> i \<le> j"
    then have "?n - Suc i < k" using i(1) k(1) by (simp add: j_def)
    from k(4) [OF this] i show False by (simp add: rev_nth)
  qed
  show ?thesis
  proof (cases "i = j")
    case False
    then have "i < j" using \<open>i \<le> j\<close> by simp
    moreover have "operation_key (db_requests db ! j) = operation_key (db_requests db ! i)"
      "operation_key (db_requests db ! i) \<noteq> None"
      using same_operation_key [OF i(2)] same_operation_key [OF k(2)] j(2) key by auto
    ultimately show ?thesis using operations_wfD [OF wf _ j(1)] j(2) p(1) by metis
  qed (use p j in simp)
qed

lemma insert_request_inv:
  assumes inv: "ledger_inv db" and run: "insert_request q db = Inr db'" and new: "q_terminal_state q = None"
    "\<not> q_failed_without_effects q"
    and op: "\<And>i. i < length (db_requests db) \<Longrightarrow> operation_key q \<noteq> None \<Longrightarrow> operation_key (db_requests db ! i) = operation_key q
      \<Longrightarrow> q_canonical_request_sha256 q = q_canonical_request_sha256 (db_requests db ! i) \<and> replayable db (db_requests db ! i)"
  shows "ledger_inv db'"
proof -
  have db': "db' = db\<lparr>db_requests := db_requests db @ [q]\<rparr>" "q_request_id q \<notin> q_request_id ` set (db_requests db)"
    using run by (auto simp: insert_request_def list_ex_iff split: if_splits)
  have same: "replayable db' r = replayable db r" "request_wf db' r = request_wf db r" for r
    by (simp_all add: replayable_def request_wf_def no_dispatch_def db'(1))
  have wf: "operations_wf db" using inv by (simp add: ledger_inv_def requests_wf_def)
  have "operations_wf db'"
    unfolding operations_wf_def same
  proof (intro allI impI)
    fix i j assume ij: "i < j" "j < length (db_requests db')" "operation_key (db_requests db' ! i) \<noteq> None"
      "operation_key (db_requests db' ! j) = operation_key (db_requests db' ! i)"
    then have i: "i < length (db_requests db)" "db_requests db' ! i = db_requests db ! i" by (simp_all add: db'(1) nth_append)
    show "q_canonical_request_sha256 (db_requests db' ! j) = q_canonical_request_sha256 (db_requests db' ! i)
        \<and> replayable db (db_requests db' ! i)"
    proof (cases "j < length (db_requests db)")
      case True
      then have "db_requests db' ! j = db_requests db ! j" by (simp add: db'(1) nth_append)
      with operations_wfD [OF wf ij(1) True] ij(3,4) i(2) show ?thesis by simp
    next
      case False
      then have q: "db_requests db' ! j = q" using ij(2) by (simp add: db'(1) nth_append)
      have "operation_key q \<noteq> None" "operation_key (db_requests db ! i) = operation_key q"
        using ij(3,4) unfolding q i(2) by simp_all
      from op [OF i(1) this] show ?thesis unfolding q i(2) .
    qed
  qed
  moreover have "request_wf db q" using new by (simp add: request_wf_def)
  ultimately have "requests_wf db'" using inv db'(2) by (auto simp: ledger_inv_def requests_wf_def same) (auto simp: db'(1))
  moreover have "attempts_wf db'" using inv by (auto simp: ledger_inv_def attempts_wf_def request_ids_def db'(1))
  ultimately show ?thesis using inv by (simp add: ledger_inv_def db'(1))
qed

lemma accept_request_steps:
  assumes inv: "ledger_inv db" and run: "apply_accept_request authority now time_left auth db = Inr db'"
  shows "steps_journal db db'"
proof -
  obtain al where ok: "require_operation auth db = Inr ()"
    and i: "insert_request
        \<lparr>q_request_id = auth_request_id auth, q_organization_id = auth_organization_id auth,
         q_identity_id = auth_identity_id auth, q_key_id = auth_virtual_key_id auth, q_alias_id = al,
         q_alias_revision_id = auth_alias_revision_id auth, q_api_surface = auth_surface auth,
         q_canonical_request_sha256 = auth_canonical_request_sha256 auth,
         q_caller_operation_sha256 = auth_caller_operation_sha256 auth, q_accepted_at = now,
         q_deadline_at = now + max 0 time_left, q_terminal_state = None, q_terminal_at = None,
         q_failed_without_effects = False, q_web_search_requests = 0\<rparr> db = Inr db'" (is "insert_request ?q db = _")
    using run by (auto simp: apply_accept_request_def rbind_eq_Inr_iff split: option.splits)
  have same: "same_operation auth r" if "operation_key ?q \<noteq> None" "operation_key r = operation_key ?q" for r
    using that by (auto simp: operation_key_def same_operation_def)
  have wf: "operations_wf db" using inv by (simp add: ledger_inv_def requests_wf_def)
  have "ledger_inv db'"
  proof (rule insert_request_inv [OF inv i])
    fix j assume j: "j < length (db_requests db)" "operation_key ?q \<noteq> None" "operation_key (db_requests db ! j) = operation_key ?q"
    then have "auth_caller_operation_sha256 auth \<noteq> None" by (simp add: operation_key_def)
    from require_operation_all [OF wf ok this j(1) same [OF j(2,3)]]
    show "q_canonical_request_sha256 ?q = q_canonical_request_sha256 (db_requests db ! j) \<and> replayable db (db_requests db ! j)"
      by simp
  qed simp_all
  moreover have "journal db' = journal db"
    using i by (auto simp: insert_request_def journal_def [abs_def] attempt_of_def split: if_splits)
  ultimately show ?thesis by (simp add: steps_journal_def)
qed

subsection \<open>Requests without attempts, and crashes\<close>

lemma finish_request_steps:
  assumes inv: "ledger_inv db" and run: "finish_request auth failure now certify searches db = Inr (cert, db')"
  shows "steps_journal db db'"
proof -
  obtain state class_value message usage q where
    v: "terminal_values None (Some failure) = Inr (state, class_value, message, usage)"
    and q: "request_of db (auth_request_id auth) = Some q"
    using run by (auto simp: finish_request_def rbind_eq_Inr_iff split: if_splits option.splits)
  let ?rid = "auth_request_id auth"
  let ?cert = "certify \<and> searches = 0 \<and> auth_direct_target auth \<and> state = ''failed'' \<and> no_dispatch db ?rid"
  let ?f = "\<lambda>r. r\<lparr>q_terminal_state := Some state, q_terminal_at := Some now, q_failed_without_effects := ?cert,
     q_web_search_requests := searches\<rparr>"
  have "db' = db \<or> db' = end_request ?rid ?f db"
    using run v q by (auto simp: finish_request_def Let_def split: if_splits option.splits)
  then show ?thesis
  proof
    assume db': "db' = end_request ?rid ?f db"
    have "requests_wf db'"
    proof (rule update_requests_wf [of db])
      show "request_wf db (?f r)" if "r \<in> set (db_requests db)" "q_request_id r = ?rid \<and> q_terminal_state r = None" for r
        using that terminal_values_state [OF v] by (auto simp: request_wf_def)
    qed (use inv in \<open>auto simp: db' end_request_def ledger_inv_def operation_key_def\<close>)
    moreover have "attempts_wf db'"
      using inv by (simp add: db' ledger_inv_def attempts_wf_def end_request_def request_ids_def map_update_where)
    moreover have "journal db' = journal db" by (simp add: db' journal_def [abs_def] attempt_of_def end_request_def)
    ultimately show ?thesis using inv by (simp add: steps_journal_def ledger_inv_def db' end_request_def)
  qed (use inv in \<open>simp add: steps_journal_def\<close>)
qed

lemma find_update_where:
  assumes "\<And>t. key (f t) = key t"
  shows "find (\<lambda>t. key t = k) (update_where P f ts) = map_option (\<lambda>t. if P t then f t else t) (find (\<lambda>t. key t = k) ts)"
  by (induction ts) (auto simp: update_where_def assms)

abbreviation lose :: "int \<Rightarrow> ledger_attempt \<Rightarrow> ledger_attempt" where
  "lose now \<equiv> (\<lambda>t. t\<lparr>t_state := ''unknown_after_crash'', t_terminal_at := Some now, t_usage_source := Some ''unknown''\<rparr>)"

lemma crash_rows:
  assumes "reconcile_crashed_requests now grace db = Inr (counts, db')"
  obtains requests1 ids where "requests1 = update_where (expired_request now db)
      (\<lambda>q. q\<lparr>q_terminal_state := Some ''expired_before_dispatch'', q_terminal_at := Some now\<rparr>) (db_requests db)"
    "db_requests db' = update_where (\<lambda>q. q_terminal_state q = None \<and> q_request_id q \<in> ids)
      (\<lambda>q. q\<lparr>q_terminal_state := Some ''unknown_after_crash'', q_terminal_at := Some now\<rparr>) requests1"
    "db_attempts db' = update_where (lost_attempt now grace db) (lose now) (db_attempts db)" "db_tables db' = db_tables db"
  using assms that [OF refl] by (auto simp: reconcile_crashed_requests_def Let_def split: if_splits)

lemma crash_steps:
  assumes inv: "ledger_inv db" and run: "reconcile_crashed_requests now grace db = Inr (counts, db')"
  shows "steps_journal db db'"
  using run
proof (rule crash_rows)
  fix requests1 ids
  assume r1: "requests1 = update_where (expired_request now db)
      (\<lambda>q. q\<lparr>q_terminal_state := Some ''expired_before_dispatch'', q_terminal_at := Some now\<rparr>) (db_requests db)"
    and r2: "db_requests db' = update_where (\<lambda>q. q_terminal_state q = None \<and> q_request_id q \<in> ids)
      (\<lambda>q. q\<lparr>q_terminal_state := Some ''unknown_after_crash'', q_terminal_at := Some now\<rparr>) requests1"
    and at: "db_attempts db' = update_where (lost_attempt now grace db) (lose now) (db_attempts db)"
    and tables: "db_tables db' = db_tables db"
  let ?db1 = "db\<lparr>db_requests := requests1\<rparr>"
  have rows1: "db_requests ?db1 = update_where (expired_request now db)
      (\<lambda>q. q\<lparr>q_terminal_state := Some ''expired_before_dispatch'', q_terminal_at := Some now\<rparr>) (db_requests db)"
    using r1 by simp
  have wf1: "requests_wf ?db1"
    by (rule update_requests_wf [OF _ _ rows1])
      (use inv in \<open>auto simp: r1 ledger_inv_def requests_wf_def request_wf_def expired_request_def operation_key_def\<close>)
  have rows2: "db_requests db' = update_where (\<lambda>q. q_terminal_state q = None \<and> q_request_id q \<in> ids)
      (\<lambda>q. q\<lparr>q_terminal_state := Some ''unknown_after_crash'', q_terminal_at := Some now\<rparr>) (db_requests ?db1)"
    using r2 by simp
  have "requests_wf db'"
    by (rule update_requests_wf [OF wf1 _ rows2])
      (use wf1 in \<open>auto simp: r2 at map_update_where requests_wf_def request_wf_def operation_key_def\<close>)
  moreover have "request_ids db' = request_ids db" by (simp add: request_ids_def r2 r1 map_update_where)
  then have "attempts_wf db'"
    using inv by (auto simp: ledger_inv_def attempts_wf_def at map_update_where set_update_where attempt_wf_def attempt_checks_def)
  ultimately have "ledger_inv db'" using inv by (simp add: ledger_inv_def tables)
  moreover have "attempt_of db' a = map_option (\<lambda>t. if lost_attempt now grace db t then lose now t else t) (attempt_of db a)" for a
    unfolding attempt_of_def at by (rule find_update_where) simp
  then have "journal_step\<^sup>*\<^sup>* (journal db) (journal db')"
  proof -
    assume a: "\<And>a. attempt_of db' a = map_option (\<lambda>t. if lost_attempt now grace db t then lose now t else t) (attempt_of db a)"
    let ?S = "{a. \<exists>t. attempt_of db a = Some t \<and> lost_attempt now grace db t}"
    have "?S \<subseteq> t_attempt_id ` set (db_attempts db)" by (auto simp: attempt_of_def find_Some_iff)
    then have "finite ?S" by (rule finite_subset) simp
    then show ?thesis
    proof (rule journal_deliver_all)
      fix b assume "b \<in> ?S"
      then obtain t where t: "attempt_of db b = Some t" "lost_attempt now grace db t" by blast
      moreover have "t_state t = ''dispatched''" using t(2) by (simp add: lost_attempt_def)
      ultimately show "journal db b = Some In_Flight \<and> (\<exists>d m. journal db' b = Some (Delivered d m))"
        by (simp add: journal_def a entry_of_def)
    next
      fix b assume "b \<notin> ?S"
      then show "journal db' b = journal db b" by (cases "attempt_of db b") (auto simp: journal_def a)
    qed
  qed
  ultimately show ?thesis by (simp add: steps_journal_def)
qed

lemma ledger_step_steps:
  assumes inv: "ledger_inv db"
  shows "steps_journal db (ledger_step storage_key make_id target op db)"
proof -
  have stay: "steps_journal db db" using inv by (simp add: steps_journal_def)
  show ?thesis
  proof (cases op)
    case (Accept_Request authority now time_left auth)
    then show ?thesis using stay accept_request_steps [OF inv] by (auto simp: ledger_step_def transact_def split: sum.split)
  next
    case (Start_Op authority aid now period snap a)
    then show ?thesis using stay start_attempt_steps [OF inv]
      by (auto simp: ledger_step_def transact_def rbind_def split: sum.split)
  next
    case (Finish_Op now a)
    then show ?thesis using stay finish_attempt_steps [OF inv] by (auto simp: ledger_step_def transact_def split: sum.split)
  next
    case (Decision_Liability aid v)
    then show ?thesis using stay amends_steps [OF decision_settled [OF inv] amends_decision [OF decision_settled [OF inv]]]
      by (auto simp: ledger_step_def transact_def split: sum.split)
  next
    case (Finish_Request_Op auth f now certify searches)
    then show ?thesis using stay finish_request_steps [OF inv]
      by (auto simp: ledger_step_def transact_def rbind_def split: sum.split)
  next
    case (Crash_Sweep now grace)
    then show ?thesis using stay crash_steps [OF inv]
      by (auto simp: ledger_step_def transact_def rbind_def split: sum.split)
  next
    case (Budget_Limit a)
    have "steps_journal db db'"
      if "with_budgets (\<lambda>t. rbind (set_limit storage_key make_id target a t) (\<lambda>(_, _, t'). Inr t')) db = Inr db'" for db'
      by (rule budgets_steps [OF inv that]) (auto simp: rbind_eq_Inr_iff intro: set_limit_inv)
    then show ?thesis using Budget_Limit stay by (auto simp: ledger_step_def transact_def split: sum.split)
  next
    case (Budget_Unknown org period scope v)
    have "steps_journal db db'"
      if "with_budgets (\<lambda>t. rbind (reconcile_unknown_costs storage_key org period scope v t) (\<lambda>(_, _, t'). Inr t')) db = Inr db'" for db'
      by (rule budgets_steps [OF inv that]) (auto simp: rbind_eq_Inr_iff intro: reconcile_inv)
    then show ?thesis using Budget_Unknown stay by (auto simp: ledger_step_def transact_def split: sum.split)
  qed
qed

section \<open>Refinement\<close>

definition empty_ledger :: "ledger_db \<Rightarrow> ledger_db" where
  "empty_ledger db = db\<lparr>db_requests := [], db_attempts := [], db_tables := empty_budgets (db_tables db)\<rparr>"

lemma empty_ledger_inv: "ledger_inv (empty_ledger db)"
  by (simp add: empty_ledger_def ledger_inv_def attempts_wf_def requests_wf_def operations_wf_def empty_budgets_def
      budget_inv_def attempts_ok_def)

interpretation attempt_ledger: refined_component "ledger_step storage_key make_id target" "\<lambda>_. True"
    "empty_ledger db" ledger_inv journal journal_step
  for storage_key make_id target db
proof
  show "ledger_inv (empty_ledger db)" by (rule empty_ledger_inv)
  show "ledger_inv (ledger_step storage_key make_id target op s)" if "ledger_inv s" for s op
    using ledger_step_steps [OF that] by (simp add: steps_journal_def)
  show "journal_step\<^sup>*\<^sup>* (journal s) (journal (ledger_step storage_key make_id target op s))" if "ledger_inv s" for s op
    using ledger_step_steps [OF that] by (simp add: steps_journal_def)
qed

text \<open>What the abstract machine keeps: a delivery for good, and an observed meter for good.\<close>

lemma journal_keeps:
  assumes "journal_step\<^sup>*\<^sup>* J J'" and "J a = Some (Delivered d m)"
  shows "\<exists>m'. J' a = Some (Delivered d m') \<and> meter_le m m'"
  using assms(1)
proof (induction rule: rtranclp_induct)
  case (step J' J'')
  then obtain m' where m': "J' a = Some (Delivered d m')" "meter_le m m'" by blast
  from step(2) show ?case
  proof cases
    case (observe b d' n k)
    show ?thesis
    proof (cases "b = a")
      case True
      with observe m' have "n = m'" "d' = d" by auto
      then have "meter_le m' (Observed k)" using observe(3) by (auto simp: meter_le_def)
      with observe True m' \<open>d' = d\<close> show ?thesis by (auto intro: meter_le_trans)
    qed (use observe m' in auto)
  qed (use m' in \<open>auto split: if_splits\<close>)
qed (use assms(2) in simp)

end
