(* ===== verification/Ledger_Replay.thy ===== *)
theory Ledger_Replay
  imports Ledger_Accounts
begin

text \<open>
  Repeated settlements of the ledger: the call that settled an attempt, made again, changes nothing. This is what lets the
  recovery sweep of \<^verbatim>\<open>src/exp/runtime/gateway/native_accounting_recovery.py\<close> replay a terminal whose acknowledgement was lost.
  The theory closes with a sample history and the properties of the whole ledger.
\<close>

section \<open>Repeating a settlement\<close>

lemma settle_tier_keeps:
  assumes "settle_tier receipt row = Inr (tier, columns)"
  shows "service_tier_admission_col columns = service_tier_admission_col row"
    and "row_unit_prices (tier_prices columns) = row_unit_prices (tier_prices row)"
    and "row_preferred (tier_prices columns) = row_preferred (tier_prices row)"
    and "service_tier_admission_col row = None \<Longrightarrow> tier = None \<and> receipt = None \<and> columns = row"
  using assms by (auto simp: settle_tier_def Let_def rbind_eq_Inr_iff freeze_card_def split: option.splits if_splits)

lemma settle_tier_admitted:
  assumes "settle_tier receipt row = Inr (tier, columns)" and "service_tier_admission_col row = Some adm"
  obtains s where "tier = Some s" "service_tier_settlement_col columns = Some s" "receipt = None \<or> receipt = Some s"
    "admission_settlement adm (receipt_served s) (receipt_resolution s) = Inr s"
    "receipt = None \<Longrightarrow> \<not> confirmed (Some s)"
    "\<not> confirmed (Some s) \<Longrightarrow> receipt_prices s = None \<and> tier_prices columns = tier_prices row"
proof -
  obtain s where s: "(case receipt of None \<Rightarrow> admission_settlement adm None Tier_Missing | Some s \<Rightarrow> Inr s) = Inr s"
    "admission_settlement adm (receipt_served s) (receipt_resolution s) = Inr s" "tier = Some s"
    "columns = (case receipt_prices s of None \<Rightarrow> row
       | Some p \<Rightarrow> row\<lparr>tier_prices := freeze_card p (tier_prices row)\<rparr>)\<lparr>service_tier_settlement_col := Some s\<rparr>"
    using assms by (auto simp: settle_tier_def Let_def rbind_eq_Inr_iff split: if_splits)
  have held: "receipt_prices s = None" if "\<not> confirmed (Some s)"
    using s(2) that by (cases rule: admission_settlement_cases) (auto simp: confirmed_def)
  have "\<not> confirmed (Some s)" if "receipt = None"
    using s(1) that by (auto simp: confirmed_def elim!: admission_settlement_cases)
  with s held show thesis by (intro that [of s]) (auto split: option.splits)
qed

text \<open>Whether a repetition can tell the charge from the tier's own price: a denied input is not charged it.\<close>

definition charge_follows_tier :: "ledger_attempt \<Rightarrow> finish_args \<Rightarrow> bool" where
  "charge_follows_tier t a \<longleftrightarrow> service_tier_admission_col (t_tier t) = None
     \<or> \<not> guardrail_denied (case fa_failure a of Some f \<Rightarrow> Some f | None \<Rightarrow> Option.bind (fa_terminal a) event_failure)"

definition settled_row ::
    "ledger_attempt \<Rightarrow> finish_args \<Rightarrow> string \<Rightarrow> gateway_usage option \<Rightarrow> ledger_attempt \<Rightarrow> bool" where
  "settled_row t a state usage r \<longleftrightarrow>
     (\<exists>tier cost charged. settle_tier (fa_service_tier a) (t_tier t) = Inr (tier, t_tier r)
        \<and> settled_cost (t_prices t) tier usage (fa_terminal a) = Inr (cost, charged)
        \<and> counterfactual_cost t usage = Inr (t_counterfactual_cost r)
        \<and> t_state r = state \<and> t_tokens r = usage_columns usage \<and> t_estimated_cost r = cost
        \<and> t_usage_source r = Some (usage_source_label usage (case fa_terminal a of None \<Rightarrow> False | Some e \<Rightarrow> usage_estimated e))
        \<and> t_budget_settled r = first_settlement a charged \<and> t_billed r = billed_unit_columns (t_prices t) usage
        \<and> t_preferred_deployment_id r = t_preferred_deployment_id t
        \<and> (t_accounting_recovery r \<longrightarrow> usage = None))"

lemma update_attempt_id:
  assumes "ledger_inv db" and "attempt_of db aid = Some t" and "f t = t"
  shows "update_attempt aid f db = Inr db"
proof -
  have only: "r = t" if "r \<in> set (db_attempts db)" "t_attempt_id r = aid" for r
    using that assms(2) attempt_of_row [OF assms(1)] by (metis option.inject)
  have "attempt_checks t" using assms(1,2) attempt_of_row [OF assms(1)] by (auto simp: ledger_inv_def attempts_wf_def)
  moreover have "update_where (\<lambda>t. t_attempt_id t = aid) f (db_attempts db) = db_attempts db"
    unfolding update_where_def by (rule map_idI) (use only assms(3) in auto)
  ultimately show ?thesis using only assms(3) by (auto simp: update_attempt_def)
qed

lemma with_budgets_id: "f (budget_view db) = Inr (budget_view db) \<Longrightarrow> with_budgets f db = Inr db"
  by (simp add: with_budgets_def budget_view_def)

lemma replace_nothing: "replace_budget_charges aid None None tables = Inr tables"
proof -
  have "rfold (replace_charge aid None None) rs tables = Inr tables" for rs
    by (induction rs) (auto simp: replace_charge_def split: option.splits)
  moreover have "rfold (settle_one aid None) rs tables = Inr tables" for rs
    by (induction rs) (auto simp: settle_one_def split: option.splits)
  ultimately show ?thesis by (simp add: replace_budget_charges_def settle_attempt_budgets_def)
qed

lemma billed_same: "row_unit_prices row = row_unit_prices row' \<Longrightarrow> billed_unit_columns row u = billed_unit_columns row' u"
  by (simp add: billed_unit_columns_def)

lemma same_replay_settled:
  assumes wf: "service_tier_settlement_col (t_tier t) = None" and r: "settled_row t a state usage r"
  shows "same_replay r (fa_terminal a) usage (fa_service_tier a) = Inr True"
proof -
  obtain tier cost charged where s: "settle_tier (fa_service_tier a) (t_tier t) = Inr (tier, t_tier r)"
    "settled_cost (t_prices t) tier usage (fa_terminal a) = Inr (cost, charged)" "t_estimated_cost r = cost"
    "t_tokens r = usage_columns usage" "t_billed r = billed_unit_columns (t_prices t) usage"
    using r by (auto simp: settled_row_def)
  note k = settle_tier_keeps [OF s(1)]
  have same: "t_tokens r = usage_columns usage \<and> t_billed r = billed_unit_columns (t_prices r) usage"
    using s(4,5) k(2) billed_same by metis
  show ?thesis
  proof (cases "service_tier_admission_col (t_tier t)")
    case None
    then have "tier = None" "fa_service_tier a = None" "t_tier r = t_tier t" using k(4) by auto
    with None wf s same show ?thesis
      by (auto simp: same_replay_def Let_def prior_tier_def confirmed_def settled_cost_def rbind_eq_Inr_iff replay_cost_matches_def)
  next
    case (Some adm)
    from settle_tier_admitted [OF s(1) Some] obtain x where x: "tier = Some x" "prior_tier r = Some x"
      "fa_service_tier a = None \<or> fa_service_tier a = Some x" unfolding prior_tier_def by metis
    have "tier_usage_cost x usage (fa_terminal a) = Inr cost"
      using s(2) x(1) by (auto simp: settled_cost_def rbind_eq_Inr_iff)
    with x k(1) Some same s(3) show ?thesis
      by (auto simp: same_replay_def Let_def replay_cost_matches_def)
  qed
qed


lemma upgrade_settled_id:
  assumes inv: "ledger_inv db" and row: "attempt_of db aid = Some r"
    and r: "settled_row t a state usage r" and follows: "charge_follows_tier t a" and release: "\<not> releases_reservation (fa_terminal a)"
    and adm: "service_tier_admission_col (t_tier t) = Some adm" and receipt: "fa_service_tier a = Some s"
    and unconfirmed: "\<not> confirmed (prior_tier r)" and meter: "t_usage_source r = Some ''observed''"
  shows "upgrade_observed r (fa_terminal a) (fa_failure a) usage (fa_service_tier a) db = Inr db"
proof -
  obtain tier cost charged where st: "settle_tier (fa_service_tier a) (t_tier t) = Inr (tier, t_tier r)"
    and c: "settled_cost (t_prices t) tier usage (fa_terminal a) = Inr (cost, charged)"
    and f: "counterfactual_cost t usage = Inr (t_counterfactual_cost r)" "t_tokens r = usage_columns usage"
      "t_estimated_cost r = cost" "t_budget_settled r = first_settlement a charged"
      "t_billed r = billed_unit_columns (t_prices t) usage" "t_preferred_deployment_id r = t_preferred_deployment_id t"
    using r by (auto simp: settled_row_def)
  note k = settle_tier_keeps [OF st]
  from settle_tier_admitted [OF st adm] receipt obtain
    x: "tier = Some s" "prior_tier r = Some s" "admission_settlement adm (receipt_served s) (receipt_resolution s) = Inr s"
    "\<not> confirmed (Some s) \<Longrightarrow> receipt_prices s = None \<and> t_prices r = t_prices t"
    unfolding prior_tier_def by (metis option.distinct(1) option.inject)
  have held: "receipt_prices s = None" "t_prices r = t_prices t" using x unconfirmed by simp_all
  have tier: "settle_tier (Some s) (t_tier r) = Inr (Some s, t_tier r)"
    using k(1) adm x(2,3) held(1) by (simp add: settle_tier_def Let_def prior_tier_def)
  have none: "tier_usage_cost s usage e = Inr None" for e using held(1) by (simp add: tier_usage_cost_def)
  have "cost = None" "charged = None" using c x(1) none by (simp_all add: settled_cost_def)
  have nodeny: "\<not> guardrail_denied (case fa_failure a of Some f \<Rightarrow> Some f | None \<Rightarrow> Option.bind (fa_terminal a) event_failure)"
    using follows adm by (simp add: charge_follows_tier_def)
  then have "\<not> guardrail_denied (fa_failure a)" by (cases "fa_failure a") (simp_all add: guardrail_denied_def)
  then have settled: "t_budget_settled r = None" using f(4) release \<open>charged = None\<close> by (simp add: first_settlement_def)
  then have explicit: "\<not> explicit_charge r" by (simp add: explicit_charge_def Let_def)
  have cf: "counterfactual_cost r usage = Inr (t_counterfactual_cost r)"
    using f(1) unfolding counterfactual_cost_def f(6) held(2) .
  have id: "t_attempt_id r = aid" by (rule attempt_of_id [OF row])
  have keep: "update_attempt aid (\<lambda>y. y\<lparr>t_tier := t_tier r, t_tokens := usage_columns usage, t_usage_source := Some ''observed'',
      t_estimated_cost := None, t_counterfactual_cost := t_counterfactual_cost r, t_budget_settled := None,
      t_billed := billed_unit_columns (t_prices r) usage\<rparr>) db = Inr db"
    by (rule update_attempt_id [OF inv row])
      (use f(2,3,5) meter settled held(2) \<open>cost = None\<close> in \<open>simp add: ledger_attempt.equality\<close>)
  have wb: "with_budgets (replace_budget_charges aid None None) db = Inr db"
    by (rule with_budgets_id) (rule replace_nothing)
  show ?thesis
    using unconfirmed receipt x(2) tier none explicit nodeny settled cf keep id wb
    by (simp add: upgrade_observed_def settled_cost_def Let_def)
qed

lemma receipt_replay_id:
  assumes st: "settle_tier (fa_service_tier a) (t_tier t) = Inr (tier, t_tier r)"
    and c: "settled_cost (t_prices t) tier usage (fa_terminal a) = Inr (cost, charged)"
    and settled: "service_tier_admission_col (t_tier t) \<noteq> None \<Longrightarrow> t_budget_settled r = charged"
    and row: "t_tokens r = usage_columns usage" "t_state r \<noteq> ''unknown_after_crash''"
      "t_usage_source r = Some (usage_source_label usage (case fa_terminal a of None \<Rightarrow> False | Some e \<Rightarrow> usage_estimated e))"
  shows "reconcile_tier_receipt r (fa_service_tier a) (fa_terminal a) usage db = Inr db"
    and "retain_unmetered_tier_receipt r (fa_service_tier a) db = Inr db"
proof -
  note k = settle_tier_keeps [OF st]
  have "reconcile_tier_receipt r (fa_service_tier a) (fa_terminal a) usage db = Inr db
      \<and> retain_unmetered_tier_receipt r (fa_service_tier a) db = Inr db"
  proof (cases "fa_service_tier a")
    case (Some s)
    then obtain adm where adm: "service_tier_admission_col (t_tier t) = Some adm" using k(4) by (cases "service_tier_admission_col (t_tier t)") auto
    from settle_tier_admitted [OF st adm] Some obtain
      x: "tier = Some s" "prior_tier r = Some s" "admission_settlement adm (receipt_served s) (receipt_resolution s) = Inr s"
      unfolding prior_tier_def by (metis option.distinct(1) option.inject)
    have adm': "require_admitted r s = Inr ()" using k(1) adm x(3) by (simp add: require_admitted_def)
    have cost: "tier_usage_cost s usage (fa_terminal a) = Inr charged" "cost = charged"
      using c x(1) by (auto simp: settled_cost_def rbind_eq_Inr_iff)
    have "t_budget_settled r = charged" using settled adm by simp
    moreover have "usage \<noteq> None" if "charged \<noteq> None"
      using that cost(1) by (auto simp: tier_usage_cost_def card_usage_cost_def estimated_cost_nano_usd_def split: option.splits if_splits)
    ultimately show ?thesis
      using Some x(2) adm' cost(1) row
      by (cases charged)
        (auto simp: reconcile_tier_receipt_def retain_unmetered_tier_receipt_def held_again_def require_replay_meter_def
          crash_meter_def confirmed_def usage_source_label_def split: if_splits)
  qed (simp add: reconcile_tier_receipt_def retain_unmetered_tier_receipt_def)
  then show "reconcile_tier_receipt r (fa_service_tier a) (fa_terminal a) usage db = Inr db"
    "retain_unmetered_tier_receipt r (fa_service_tier a) db = Inr db" by simp_all
qed


text \<open>The row a first settlement leaves.\<close>

lemma finish_dispatched_row:
  assumes inv: "ledger_inv db" and t: "attempt_of db (fa_attempt_id a) = Some t" "t_state t = ''dispatched''"
    and usage: "usage = Option.bind (fa_terminal a) event_usage"
    and run: "finish_dispatched now a state class_value message usage t db = Inr db'"
  shows "\<exists>r. attempt_of db' (fa_attempt_id a) = Some r \<and> settled_row t a state usage r"
  using run
proof (rule finish_dispatched_Inr)
  fix tier columns cost charged cf db1 db2 db3
  let ?aid = "fa_attempt_id a" and ?s = "first_settlement a charged"
  let ?f = "finished_row now a state class_value message usage (t_prices t) columns cost cf ?s"
  assume st: "settle_tier (fa_service_tier a) (t_tier t) = Inr (tier, columns)"
    and c: "settled_cost (t_prices t) tier usage (fa_terminal a) = Inr (cost, charged)" "counterfactual_cost t usage = Inr cf"
    and u: "update_attempt ?aid ?f db = Inr db1" and rec: "record_recovery ?aid (fa_terminal a) db1 = Inr db2"
    and bud: "with_budgets (settle_attempt_budgets ?aid ?s) db2 = Inr db3"
    and fin: "db' = (if fa_finalize_request a \<and> state \<in> {''completed'', ''failed'', ''cancelled'', ''incomplete''}
       then end_request (t_request_id t) (\<lambda>q. q\<lparr>q_terminal_state := Some state, q_terminal_at := Some now\<rparr>) db3 else db3)"
  have a1: "attempt_of db1 ?aid = Some (?f t)"
    using attempt_of_update [OF u, of ?aid] t(1) by (simp add: same_identity_def finished_row_def)
  have live: "\<not> t_accounting_recovery t"
    using inv t attempt_of_row [OF inv] by (auto simp: ledger_inv_def attempts_wf_def attempt_wf_def)
  have "\<exists>b. attempt_of db2 ?aid = Some ((?f t)\<lparr>t_accounting_recovery := b\<rparr>) \<and> (b \<longrightarrow> usage = None)"
  proof (cases "db2 = db1")
    case True
    have "?f t = (?f t)\<lparr>t_accounting_recovery := False\<rparr>" using live by (simp add: finished_row_def)
    with True a1 show ?thesis by metis
  next
    case False
    then have r: "update_attempt ?aid (\<lambda>t. t\<lparr>t_accounting_recovery := True\<rparr>) db1 = Inr db2" "usage = None"
      using rec usage by (auto simp: record_recovery_def split: option.splits if_splits)
    have "attempt_of db2 ?aid = Some ((?f t)\<lparr>t_accounting_recovery := True\<rparr>)"
      using attempt_of_update [OF r(1), of ?aid] a1 by (simp add: same_identity_def)
    with r(2) show ?thesis by blast
  qed
  then obtain b where b: "attempt_of db2 ?aid = Some ((?f t)\<lparr>t_accounting_recovery := b\<rparr>)" "b \<Longrightarrow> usage = None" by blast
  have "db_attempts db' = db_attempts db2" using fin with_budgets_rows(1) [OF bud] by (simp add: end_request_def)
  then have "attempt_of db' ?aid = Some ((?f t)\<lparr>t_accounting_recovery := b\<rparr>)" using b(1) by (simp add: attempt_of_def)
  moreover have "settled_row t a state usage ((?f t)\<lparr>t_accounting_recovery := b\<rparr>)"
    unfolding settled_row_def using st c b(2)
    by (intro exI [of _ tier] exI [of _ cost] exI [of _ charged]) (simp add: finished_row_def)
  ultimately show ?thesis by blast
qed

lemma terminal_values_usage:
  "terminal_values terminal failure = Inr (state, class_value, message, usage) \<Longrightarrow> usage = Option.bind terminal event_usage"
  by (auto simp: terminal_values_def Let_def split: if_splits option.splits)

lemma settled_terminal_id:
  assumes inv: "ledger_inv db" and row: "attempt_of db aid = Some r" and r: "settled_row t a state usage r"
    and wf: "service_tier_settlement_col (t_tier t) = None" and follows: "charge_follows_tier t a"
    and release: "\<not> releases_reservation (fa_terminal a)" and state: "state \<noteq> ''unknown_after_crash''"
  shows "reconcile_terminal_attempt r state (fa_terminal a) (fa_failure a) usage (fa_service_tier a) db = Inr db"
proof -
  obtain tier cost charged where st: "settle_tier (fa_service_tier a) (t_tier t) = Inr (tier, t_tier r)"
    and c: "settled_cost (t_prices t) tier usage (fa_terminal a) = Inr (cost, charged)"
    and f: "t_state r = state" "t_tokens r = usage_columns usage" "t_budget_settled r = first_settlement a charged"
      "t_usage_source r = Some (usage_source_label usage (case fa_terminal a of None \<Rightarrow> False | Some e \<Rightarrow> usage_estimated e))"
      "t_accounting_recovery r \<longrightarrow> usage = None"
    using r by (auto simp: settled_row_def)
  have "\<not> guardrail_denied (fa_failure a)" if "service_tier_admission_col (t_tier t) \<noteq> None"
    using that follows by (cases "fa_failure a") (auto simp: charge_follows_tier_def guardrail_denied_def)
  then have "t_budget_settled r = charged" if "service_tier_admission_col (t_tier t) \<noteq> None"
    using that f(3) release by (simp add: first_settlement_def)
  note replay = receipt_replay_id [OF st c this f(2) _ f(4)]
  show ?thesis
  proof (cases "complete_meter (fa_terminal a) usage")
    case True
    then have obs: "t_usage_source r = Some ''observed''" and some: "usage \<noteq> None"
      using f(4) by (auto simp: complete_meter_def usage_source_label_def split: option.splits)
    have up: "upgrade_observed r (fa_terminal a) (fa_failure a) usage (fa_service_tier a) db = Inr db"
      if "prior_tier r \<noteq> None" "\<not> confirmed (prior_tier r)" "fa_service_tier a = Some s" for s
    proof -
      have "service_tier_admission_col (t_tier t) \<noteq> None" using that(3) settle_tier_keeps(4) [OF st] by auto
      then obtain adm where "service_tier_admission_col (t_tier t) = Some adm" by blast
      from upgrade_settled_id [OF inv row r follows release this that(3,2) obs] show ?thesis .
    qed
    have "reconcile_observed r (fa_terminal a) (fa_failure a) usage (fa_service_tier a) db = Inr db"
      using same_replay_settled [OF wf r] up f(1,5) some state by (auto simp: reconcile_observed_def)
    with True obs release show ?thesis by (simp add: reconcile_terminal_attempt_def)
  next
    case False
    with replay f(1) state release show ?thesis by (simp add: reconcile_terminal_attempt_def)
  qed
qed

text \<open>A customer waiver of trusted recovery closes every charge at zero, so repeating it finds nothing to do.\<close>

lemma replace_zero: "rfold (replace_charge aid (Some 0) (Some 0)) rs tables = Inr tables"
  by (induction rs) (auto simp: replace_charge_def split: option.splits)

lemma released_row:
  assumes inv: "ledger_inv db" and t: "attempt_of db (fa_attempt_id a) = Some t"
    and release: "releases_reservation (fa_terminal a)" and state: "state \<in> {''completed'', ''incomplete'', ''failed'', ''cancelled''}"
    and t2: "t_state t = ''dispatched''"
    and run: "finish_dispatched now a state class_value message usage t db = Inr db'"
  shows "\<exists>r. attempt_of db' (fa_attempt_id a) = Some r \<and> t_accounting_recovery r \<and> t_budget_settled r = Some 0
    \<and> settle_attempt_budgets (fa_attempt_id a) (Some 0) (budget_view db') = Inr (budget_view db')"
  using run
proof (rule finish_dispatched_Inr)
  fix tier columns cost charged cf db1 db2 db3
  let ?aid = "fa_attempt_id a" and ?s = "first_settlement a charged"
  let ?f = "finished_row now a state class_value message usage (t_prices t) columns cost cf ?s"
  assume u: "update_attempt ?aid ?f db = Inr db1" and rec: "record_recovery ?aid (fa_terminal a) db1 = Inr db2"
    and bud: "with_budgets (settle_attempt_budgets ?aid ?s) db2 = Inr db3"
    and fin: "db' = (if fa_finalize_request a \<and> state \<in> {''completed'', ''failed'', ''cancelled'', ''incomplete''}
       then end_request (t_request_id t) (\<lambda>q. q\<lparr>q_terminal_state := Some state, q_terminal_at := Some now\<rparr>) db3 else db3)"
  have zero: "?s = Some 0" using release by (simp add: first_settlement_def)
  have a1: "attempt_of db1 ?aid = Some (?f t)"
    using attempt_of_update [OF u, of ?aid] t by (simp add: same_identity_def finished_row_def)
  have r: "update_attempt ?aid (\<lambda>t. t\<lparr>t_accounting_recovery := True\<rparr>) db1 = Inr db2"
    using rec release by (auto simp: record_recovery_def releases_reservation_def accounting_release_reservation_def
        split: option.splits if_splits)
  have a2: "attempt_of db2 ?aid = Some ((?f t)\<lparr>t_accounting_recovery := True\<rparr>)"
    using attempt_of_update [OF r, of ?aid] a1 by (simp add: same_identity_def)
  have at: "db_attempts db' = db_attempts db2" "db_tables db' = db_tables db3"
    using fin with_budgets_rows(1) [OF bud] by (simp_all add: end_request_def)
  then have row: "attempt_of db' ?aid = Some ((?f t)\<lparr>t_accounting_recovery := True\<rparr>)" using a2 by (simp add: attempt_of_def)
  have inv': "ledger_inv db'" using finish_dispatched_steps [OF inv t t2 state run] by (simp add: steps_journal_def)
  have live: "state \<noteq> ''dispatched''" using state by auto
  have "ledger_inv db1"
    by (rule update_attempt_inv [OF inv u]) (use live in \<open>simp_all add: same_identity_def finished_row_def attempt_wf_def\<close>)
  then have "ledger_inv db2"
  proof (rule update_attempt_inv [OF _ r])
    fix x assume "x \<in> set (db_attempts db1)" "t_attempt_id x = ?aid"
    then have "x = ?f t" using a1 attempt_of_row [OF \<open>ledger_inv db1\<close>] by (metis option.inject)
    then show "attempt_wf (x\<lparr>t_accounting_recovery := True\<rparr>)" using live by (simp add: attempt_wf_def finished_row_def)
  qed (simp add: same_identity_def)
  note b = settle_attempt_budgets_cases [OF ledger_budget_inv [OF this], of "Some 0" ?aid]
  obtain tables where tb: "settle_attempt_budgets ?aid (Some 0) (budget_view db2) = Inr tables"
    "db_tables db3 = tables\<lparr>attempts := attempts (db_tables db2)\<rparr>"
    using bud zero by (auto simp: with_budgets_def rbind_eq_Inr_iff)
  have "settle_ready ?aid [] tables" using b tb(1) by simp
  then have "settle_ready ?aid [] (budget_view db')" by (simp add: settle_ready_def budget_view_def at(2) tb(2))
  from settle_again [OF ledger_budget_inv [OF inv'] this] row zero show ?thesis by (simp add: finished_row_def)
qed

lemma released_terminal_id:
  assumes "ledger_inv db" and "attempt_of db aid = Some r" and "t_accounting_recovery r" "t_budget_settled r = Some 0"
    and "settle_attempt_budgets aid (Some 0) (budget_view db) = Inr (budget_view db)" and "releases_reservation terminal"
  shows "reconcile_terminal_attempt r state terminal failure usage receipt db = Inr db"
proof -
  have "with_budgets (replace_budget_charges aid (Some 0) (Some 0)) db = Inr db"
    by (rule with_budgets_id) (simp add: replace_budget_charges_def replace_zero assms(5))
  moreover have "update_attempt aid (\<lambda>r. r\<lparr>t_budget_settled := Some 0\<rparr>) db = Inr db"
    by (rule update_attempt_id [OF assms(1,2)]) (simp add: assms(4))
  ultimately show ?thesis using assms(3,4,6) attempt_of_id [OF assms(2)]
    by (simp add: reconcile_terminal_attempt_def waive_charge_def provisional_def)
qed

section \<open>A sample history\<close>

definition sample_keyed :: "string \<Rightarrow> authorization_snapshot" where
  "sample_keyed rid = sample_authorization\<lparr>auth_request_id := rid, auth_caller_operation_sha256 := Some ''op''\<rparr>"

definition sample_dispatch :: "string \<Rightarrow> string \<Rightarrow> int \<Rightarrow> ledger_op" where
  "sample_dispatch aid rid now = Start_Op None aid now ''2026-01'' (sample_snapshot\<lparr>snapshot_authorization := sample_keyed rid\<rparr>)
     \<lparr>as_deployment = (sample_rung ''d0'' None)\<lparr>prices := sample_card 1000000 20000 4000000\<rparr>, as_ordinal = 0, as_depth = 0, as_maximum_cost = Some 400000,
      as_service_tier = None, as_reserved_input = 1000, as_reserved_output = 100, as_route_reason = ''primary'',
      as_fallback_reason = None, as_dispatch_reason = None, as_preferred = None\<rparr>"

definition sample_finish :: "string \<Rightarrow> finish_args" where
  "sample_finish aid = \<lparr>fa_attempt_id = aid, fa_terminal = Some sample_terminal, fa_failure = None,
     fa_finalize_request = True, fa_first_token_at = Some 15, fa_rate_limits = no_rate_limits,
     fa_upstream_provider = None, fa_service_tier = None\<rparr>"

definition sample_tables :: ledger_db where
  "sample_tables = \<lparr>db_alias_revisions = [(''acme'', ''rev'', ''al'', Some ''p'')], db_requests = [], db_attempts = [],
     db_tables = sample_db\<lparr>organizations := [(''acme'', True)]\<rparr>\<rparr>"

abbreviation sample_ledger_step :: "ledger_op \<Rightarrow> ledger_db \<Rightarrow> ledger_db" where
  "sample_ledger_step \<equiv> ledger_step scope_label (\<lambda>a b c. c) (\<lambda>_ _ _. Inr ())"

definition sample_history :: "ledger_op list \<Rightarrow> ledger_db" where
  "sample_history ops = fold sample_ledger_step ops (empty_ledger sample_tables)"

text \<open>A keyed request lost in a crash and repeated; one that is delivered; and one reserved against a monthly limit.\<close>

definition sample_reissue :: "ledger_op list" where
  "sample_reissue = [Accept_Request None 10 20 (sample_keyed ''r1''), sample_dispatch ''a1'' ''r1'' 11, Crash_Sweep 30 0,
     Accept_Request None 40 20 (sample_keyed ''r2'')]"

definition sample_delivery :: "ledger_op list" where
  "sample_delivery = [Accept_Request None 10 20 (sample_keyed ''r1''), sample_dispatch ''a1'' ''r1'' 11]"

definition sample_charged :: "ledger_op list" where
  "sample_charged = [Budget_Limit ((sample_limit 1000000 False)\<lparr>sl_organization_id := ''acme''\<rparr>),
     Accept_Request None 10 20 (sample_keyed ''r1''), sample_dispatch ''a1'' ''r1'' 11, Finish_Op 20 (sample_finish ''a1'')]"

lemma sample_history_reachable: "reachable sample_ledger_step (\<lambda>_. True) (empty_ledger sample_tables) (sample_history ops)"
  unfolding sample_history_def by (rule reachable_fold) (simp add: list_all_iff)

section \<open>Properties\<close>

text \<open>
  C1. The ledger's counters are exact. From empty tables, after any sequence of ledger transactions (acceptances,
  reservations, settlements, replayed settlements with late meters and waivers, operators' assignments, crash sweeps, new
  limits with their backfill), every budget row counts exactly the open reservations, the settled amounts and the unpriced
  attempts of its charges, and stays within the column's range.
\<close>

theorem ledger_counters_exact:
  assumes "reachable (ledger_step storage_key make_id target) (\<lambda>_. True) (empty_ledger db0) db"
    and "b \<in> set (budgets (db_tables db))"
  shows "reserved_nano_usd b = (\<Sum>c \<leftarrow> charges (db_tables db). if c_budget_id c = budget_id b \<and> c_settled c = None
        then or0 (c_reserved c) else 0)
    \<and> settled_nano_usd b = (\<Sum>c \<leftarrow> charges (db_tables db). if c_budget_id c = budget_id b then or0 (c_settled c) else 0)
    \<and> unknown_cost_attempts b = int (length (filter (\<lambda>c. c_budget_id c = budget_id b
        \<and> c_reserved c = None \<and> c_settled c = None) (charges (db_tables db))))
    \<and> 0 \<le> reserved_nano_usd b \<and> reserved_nano_usd b \<le> MAXIMUM_NANO_USD
    \<and> 0 \<le> settled_nano_usd b \<and> settled_nano_usd b \<le> MAXIMUM_NANO_USD"
proof -
  have inv: "budget_inv (budget_view db)" by (rule ledger_budget_inv [OF attempt_ledger.reachable_inv [OF assms(1)]])
  have b: "b \<in> set (budgets (budget_view db))" and c: "charges (budget_view db) = charges (db_tables db)"
    using assms(2) by (simp_all add: budget_view_def)
  have sums: "charge_sum open_reserved (budget_id b) cs
      = (\<Sum>c \<leftarrow> cs. if c_budget_id c = budget_id b \<and> c_settled c = None then or0 (c_reserved c) else 0)"
    "charge_sum settled_part (budget_id b) cs = (\<Sum>c \<leftarrow> cs. if c_budget_id c = budget_id b then or0 (c_settled c) else 0)" for cs
    by (induction cs) (simp_all add: charge_sum_def open_reserved_def settled_part_def)
  have "counters_ok (charges (db_tables db)) b \<and> budget_fits b" using budget_invD(4) [OF inv b] c by simp
  then show ?thesis
    using budget_inv_nonneg [OF inv b] count_unknown [of "budget_id b" "charges (db_tables db)"]
    by (simp add: counters_ok_def budget_fits_def sums unknown_charge_def)
qed

theorem ledger_counters_exact_witness:
  "map (\<lambda>b. (reserved_nano_usd b, settled_nano_usd b)) (budgets (db_tables (sample_history sample_charged))) = [(0, 940)]
   \<and> settled_nano_usd (hd (budgets (db_tables (sample_history sample_charged))))
     = (\<Sum>c \<leftarrow> charges (db_tables (sample_history sample_charged)).
         if c_budget_id c = budget_id (hd (budgets (db_tables (sample_history sample_charged)))) then or0 (c_settled c) else 0)"
proof -
  let ?bs = "budgets (db_tables (sample_history sample_charged))"
  have r: "map (\<lambda>b. (reserved_nano_usd b, settled_nano_usd b)) ?bs = [(0, 940)]" by code_simp
  then have "hd ?bs \<in> set ?bs" by (cases ?bs) auto
  from ledger_counters_exact [OF sample_history_reachable this] show ?thesis using r by blast
qed

text \<open>
  C5. The ledger refines the journal. Seen through the journal, every transaction of the ledger is a sequence of the
  journal's own moves: an attempt is dispatched under a fresh identifier, delivered once while in flight, and its meter is
  replaced at most once more, by an observed one.
\<close>

theorem ledger_refines_journal:
  assumes "reachable (ledger_step storage_key make_id target) (\<lambda>_. True) (empty_ledger db0) db"
  shows "journal_step\<^sup>*\<^sup>* (journal db) (journal (ledger_step storage_key make_id target op db))"
  using attempt_ledger.reachable_simulates [OF assms, of "[op]"] by simp

theorem ledger_refines_journal_witness:
  "journal (sample_history sample_delivery) ''a1'' = Some In_Flight
   \<and> journal_step\<^sup>*\<^sup>* (journal (sample_history sample_delivery))
       (journal (sample_ledger_step (Finish_Op 20 (sample_finish ''a1'')) (sample_history sample_delivery)))"
proof
  have "map_option t_state (attempt_of (sample_history sample_delivery) ''a1'') = Some ''dispatched''" by code_simp
  then show "journal (sample_history sample_delivery) ''a1'' = Some In_Flight" by (auto simp: journal_def entry_of_def)
qed (rule ledger_refines_journal [OF sample_history_reachable])

text \<open>
  C4. A settled outcome is final. Once an attempt is settled, no later transaction changes its state, its times or its
  failure, and none changes an observed meter: late evidence only corrects money, and only an estimated or missing meter is
  ever replaced.
\<close>

theorem settled_outcome_is_final:
  assumes "reachable (ledger_step storage_key make_id target) (\<lambda>_. True) (empty_ledger db0) db"
    and "attempt_of db aid = Some t" and "t_state t \<noteq> ''dispatched''"
  shows "\<exists>t'. attempt_of (fold (ledger_step storage_key make_id target) ops db) aid = Some t'
    \<and> t_state t' = t_state t \<and> t_terminal_at t' = t_terminal_at t \<and> t_first_token_at t' = t_first_token_at t
    \<and> t_failure_class t' = t_failure_class t \<and> t_failure_message t' = t_failure_message t
    \<and> (t_usage_source t = Some ''observed'' \<longrightarrow> t_usage_source t' = Some ''observed'' \<and> t_tokens t' = t_tokens t)"
proof -
  let ?db = "fold (ledger_step storage_key make_id target) ops db"
  have "journal_step\<^sup>*\<^sup>* (journal db) (journal ?db)"
    by (rule attempt_ledger.reachable_simulates [OF assms(1)]) (simp add: list_all_iff)
  moreover have "journal db aid = Some (Delivered (delivery_of t) (meter_of t))"
    using assms(2,3) by (simp add: journal_def entry_of_def)
  ultimately obtain m' where m: "journal ?db aid = Some (Delivered (delivery_of t) m')" "meter_le (meter_of t) m'"
    using journal_keeps by blast
  then obtain t' where t': "attempt_of ?db aid = Some t'" "delivery_of t' = delivery_of t" "meter_of t' = m'"
    by (auto simp: journal_def entry_of_def split: if_splits)
  have "t_usage_source t' = Some ''observed'' \<and> t_tokens t' = t_tokens t" if "t_usage_source t = Some ''observed''"
    using m(2) t'(3) that by (auto simp: meter_le_def meter_of_def split: if_splits)
  with t' show ?thesis by (simp add: delivery_of_def)
qed

theorem settled_outcome_is_final_witness:
  "\<exists>t t'. attempt_of (sample_history sample_reissue) ''a1'' = Some t \<and> t_state t = ''unknown_after_crash''
     \<and> attempt_of (sample_ledger_step (Finish_Op 45 (sample_finish ''a1'')) (sample_history sample_reissue)) ''a1'' = Some t'
     \<and> t_state t' = ''unknown_after_crash''"
proof -
  have "map_option t_state (attempt_of (sample_history sample_reissue) ''a1'') = Some ''unknown_after_crash''" by code_simp
  then obtain t where t: "attempt_of (sample_history sample_reissue) ''a1'' = Some t" "t_state t = ''unknown_after_crash''" by auto
  with settled_outcome_is_final [OF sample_history_reachable t(1), of "[Finish_Op 45 (sample_finish ''a1'')]"] show ?thesis by auto
qed

text \<open>
  C3. An operation key has one effect. In every reachable state, of two requests accepted under the same caller operation
  key the older had the same content, and it was lost in a crash, expired before dispatch with no attempt, or failed with no
  attempt and with the certificate that it had no effects: a retried operation never runs twice except after a crash.
\<close>

theorem operation_key_has_one_effect:
  assumes "reachable (ledger_step storage_key make_id target) (\<lambda>_. True) (empty_ledger db0) db"
    and "i < j" and "j < length (db_requests db)" and "operation_key (db_requests db ! i) \<noteq> None"
    and "operation_key (db_requests db ! j) = operation_key (db_requests db ! i)"
  shows "q_canonical_request_sha256 (db_requests db ! j) = q_canonical_request_sha256 (db_requests db ! i)
    \<and> (q_terminal_state (db_requests db ! i) = Some ''unknown_after_crash''
       \<or> (q_terminal_state (db_requests db ! i) = Some ''expired_before_dispatch''
          \<and> no_dispatch db (q_request_id (db_requests db ! i)))
       \<or> (q_terminal_state (db_requests db ! i) = Some ''failed'' \<and> q_failed_without_effects (db_requests db ! i)
          \<and> no_dispatch db (q_request_id (db_requests db ! i))))"
proof -
  have inv: "ledger_inv db" by (rule attempt_ledger.reachable_inv [OF assms(1)])
  then have "operations_wf db" and wf: "request_wf db (db_requests db ! i)"
    using assms(2,3) by (auto simp: ledger_inv_def requests_wf_def)
  from operations_wfD [OF this(1) assms(2-5)] wf show ?thesis by (auto simp: replayable_def request_wf_def)
qed

theorem operation_key_has_one_effect_witness:
  "q_terminal_state (db_requests (sample_history sample_reissue) ! 0) = Some ''unknown_after_crash''"
proof -
  let ?key = "Some (''acme'', ''i'', ''rev'', ''responses'', ''op'')"
  have "map (\<lambda>q. (operation_key q, q_terminal_state q \<in> {Some ''expired_before_dispatch'', Some ''failed''}))
      (db_requests (sample_history sample_reissue)) = [(?key, False), (?key, False)]"
    by code_simp
  then obtain q r where qs: "db_requests (sample_history sample_reissue) = [q, r]" "operation_key q = ?key" "operation_key r = ?key"
    "q_terminal_state q \<notin> {Some ''expired_before_dispatch'', Some ''failed''}"
    by (auto simp: map_eq_Cons_conv)
  then show ?thesis
    using operation_key_has_one_effect [OF sample_history_reachable, of 0 1 sample_reissue] by simp
qed



text \<open>What \<open>finish_replay_is_noop\<close> excludes: repeating the settlement of a denied input of a tiered attempt is an error.\<close>

definition sample_denied_dispatch :: ledger_op where
  "sample_denied_dispatch = (case sample_dispatch ''a1'' ''r1'' 11 of
     Start_Op authority aid now period snap a \<Rightarrow> Start_Op authority aid now period snap
       (a\<lparr>as_deployment := (as_deployment a)\<lparr>prices := sample_card 6000000 8000000 30000000\<rparr>, as_service_tier := Some sample_admission\<rparr>)
   | op \<Rightarrow> op)"

definition sample_denied_finish :: finish_args where
  "sample_denied_finish = (sample_finish ''a1'')\<lparr>fa_terminal := Some (sample_terminal\<lparr>usage_estimated := True\<rparr>),
     fa_failure := Some (budget_quota_failure\<lparr>safe_details := [(''input_guardrail_denied'', True)]\<rparr>),
     fa_service_tier := Some sample_receipt\<rparr>"

lemma denied_tier_replay_raises:
  "\<exists>db'. apply_finish_attempt 20 sample_denied_finish
       (sample_history [Accept_Request None 10 20 (sample_keyed ''r1''), sample_denied_dispatch]) = Inr db'
     \<and> apply_finish_attempt 30 sample_denied_finish db'
       = Inl (GatewayLedgerError ''service-tier replay differs from the settled amount'')"
proof -
  let ?db = "sample_history [Accept_Request None 10 20 (sample_keyed ''r1''), sample_denied_dispatch]"
  have "(case apply_finish_attempt 20 sample_denied_finish ?db of
      Inl _ \<Rightarrow> False
    | Inr db' \<Rightarrow> (case apply_finish_attempt 30 sample_denied_finish db' of
        Inl e \<Rightarrow> e = GatewayLedgerError ''service-tier replay differs from the settled amount'' | Inr _ \<Rightarrow> False))"
    by code_simp
  then show ?thesis by (auto split: sum.splits)
qed

end
