(* ===== verification/Group_Commit.thy ===== *)
theory Group_Commit
  imports Prelude
begin

text \<open>
  The group-commit writer of \<^verbatim>\<open>src/exp/runtime/gateway/group_commit.py\<close>: callers on many threads put writes on one queue,
  a single writer thread drains up to a batch of them into one SQLite transaction, and each caller's future is resolved after
  that transaction committed. The database, the values and the errors of the writes are type parameters.

  What a caller does under the submit lock is one step, and so is each \<open>get\<close> of the writer. The work on one batch is one step
  too: meanwhile other threads can only append to the queue, which it does not read, or cancel a future, which it reads last.
  What SQLite answers to each statement is an argument; a statement that raises changed nothing, and a transaction that is not
  committed leaves the durable database as it was. A write is many statements: one that raises has done part of its work.
\<close>

section \<open>Data\<close>

text \<open>A write on the writer's connection: the error it raises or its value, and the database as its statements left it either way.\<close>

type_synonym ('db, 'e, 'v) db_write = "'db \<Rightarrow> ('e + 'v) \<times> 'db"

datatype 'e write_failure =
    Operation_Failed 'e | Storage_Failed string | Writer_Closed

text \<open>\<open>Notified\<close> is \<open>CANCELLED_AND_NOTIFIED\<close>: a cancelled future its executor has seen.\<close>

datatype ('e, 'v) future = Pending | Cancelled | Notified | Result 'v | Exception "'e write_failure"

definition future_done :: "('e, 'v) future \<Rightarrow> bool" where
  "future_done f = (case f of Pending \<Rightarrow> False | _ \<Rightarrow> True)"

record ('db, 'e, 'v) pending_write =
  pw_apply :: "('db, 'e, 'v) db_write"
  pw_prepare :: "('db \<Rightarrow> 'e + ('db, 'e, 'v) db_write) option"
  pw_future :: nat

text \<open>The writer's own connection: what is durable, and the working copy of an open transaction.\<close>

record 'db writer_connection =
  cn_durable :: 'db
  cn_open :: "'db option"

datatype ('db, 'e, 'v) writer_phase =
    Opening
  | Waiting
  | Draining "('db, 'e, 'v) pending_write list"
  | Batch "('db, 'e, 'v) pending_write list" bool
  | Leaving
  | Exited

text \<open>
  A queue item \<open>None\<close> is the stop sentinel. \<open>gw_submitted\<close> records the writes by their future and \<open>gw_others\<close> the transactions
  that other connections ran; no operation reads either.
\<close>

record ('db, 'e, 'v) group_writer =
  gw_max_batch_size :: nat
  gw_queue :: "('db, 'e, 'v) pending_write option list"
  gw_closed :: bool
  gw_transaction_failed :: bool
  gw_futures :: "('e, 'v) future list"
  gw_connection :: "'db writer_connection"
  gw_phase :: "('db, 'e, 'v) writer_phase"
  gw_submitted :: "('db, 'e, 'v) pending_write list"
  gw_others :: "('db \<Rightarrow> 'e + 'db) list"

text \<open>
  The answers of SQLite while the writer works on one batch: the message of the error each statement raises, if any.
  \<open>sa_commit\<close> also says whether a transaction that failed to commit is still open after its rollback.
\<close>

record storage_answers =
  sa_connect :: "string option"
  sa_begin :: "string option"
  sa_savepoint :: "nat \<Rightarrow> string option"
  sa_rollback_to :: "nat \<Rightarrow> string option"
  sa_release :: "nat \<Rightarrow> string option"
  sa_commit :: "(string \<times> bool) option"
  sa_unwind :: "string option"
  sa_rollback :: "string option"

definition fresh_writer :: "nat \<Rightarrow> 'db \<Rightarrow> ('db, 'e, 'v) group_writer" where
  "fresh_writer max_batch_size db =
     \<lparr>gw_max_batch_size = max_batch_size, gw_queue = [], gw_closed = False, gw_transaction_failed = False, gw_futures = [],
      gw_connection = \<lparr>cn_durable = db, cn_open = None\<rparr>, gw_phase = Opening, gw_submitted = [],
      gw_others = []\<rparr>"

definition new_writer :: "nat \<Rightarrow> 'db \<Rightarrow> string + ('db, 'e, 'v) group_writer" where
  "new_writer max_batch_size db =
     (if max_batch_size < 1 then Inl ''max_batch_size must be at least one'' else Inr (fresh_writer max_batch_size db))"

section \<open>Callers\<close>

definition enqueue ::
    "('db, 'e, 'v) db_write \<Rightarrow> ('db \<Rightarrow> 'e + ('db, 'e, 'v) db_write) option \<Rightarrow> ('db, 'e, 'v) group_writer
      \<Rightarrow> ('e write_failure + nat) \<times> ('db, 'e, 'v) group_writer" where
  "enqueue apply prepare w =
     (if gw_closed w then (Inl Writer_Closed, w)
      else
        (let i = length (gw_futures w); p = \<lparr>pw_apply = apply, pw_prepare = prepare, pw_future = i\<rparr>
         in (Inr i, w\<lparr>gw_queue := gw_queue w @ [Some p], gw_futures := gw_futures w @ [Pending],
                     gw_submitted := gw_submitted w @ [p]\<rparr>)))"

definition close :: "('db, 'e, 'v) group_writer \<Rightarrow> ('db, 'e, 'v) group_writer" where
  "close w = (if gw_closed w then w else w\<lparr>gw_closed := True, gw_queue := gw_queue w @ [None]\<rparr>)"

definition cancel_future :: "nat \<Rightarrow> ('db, 'e, 'v) group_writer \<Rightarrow> ('db, 'e, 'v) group_writer" where
  "cancel_future i w =
     (if i < length (gw_futures w) \<and> gw_futures w ! i = Pending
      then w\<lparr>gw_futures := (gw_futures w)[i := Cancelled]\<rparr> else w)"

text \<open>
  Readiness: with the latest transaction failed, an empty write is submitted first; \<open>probe\<close> is whether it raised and the writer
  as it is after that.
\<close>

definition writable :: "('db, 'e, 'v) group_writer \<Rightarrow> (bool \<times> ('db, 'e, 'v) group_writer) \<Rightarrow> bool" where
  "writable w probe =
     (if gw_transaction_failed w \<and> \<not> gw_closed w
      then \<not> fst probe \<and> \<not> gw_closed (snd probe) \<and> \<not> gw_transaction_failed (snd probe)
      else \<not> gw_closed w \<and> \<not> gw_transaction_failed w)"

section \<open>Resolving futures\<close>

text \<open>\<open>set_running_or_notify_cancel\<close> raises on a future that is already done: the rest of the loop is then not run.\<close>

fun resolve_each :: "(nat \<times> ('e, 'v) future) list \<Rightarrow> ('e, 'v) future list \<Rightarrow> ('e, 'v) future list \<times> string option" where
  "resolve_each [] fs = (fs, None)"
| "resolve_each ((i, outcome) # rest) fs =
     (case fs ! i of
        Pending \<Rightarrow> resolve_each rest (fs[i := outcome])
      | Cancelled \<Rightarrow> resolve_each rest (fs[i := Notified])
      | _ \<Rightarrow> (fs, Some ''Future in unexpected state''))"

text \<open>The writer gone, every queued write fails; the items left when a resolution raised.\<close>

fun fail_queue ::
    "('db, 'e, 'v) pending_write option list \<Rightarrow> ('e, 'v) future list
      \<Rightarrow> ('e, 'v) future list \<times> ('db, 'e, 'v) pending_write option list" where
  "fail_queue [] fs = (fs, [])"
| "fail_queue (None # q) fs = fail_queue q fs"
| "fail_queue (Some p # q) fs =
     (case resolve_each [(pw_future p, Exception Writer_Closed)] fs of
        (fs', None) \<Rightarrow> fail_queue q fs'
      | (fs', Some _) \<Rightarrow> (fs', q))"

definition fail_pending :: "('db, 'e, 'v) group_writer \<Rightarrow> ('db, 'e, 'v) group_writer" where
  "fail_pending w =
     (let (fs, q) = fail_queue (gw_queue w) (gw_futures w)
      in w\<lparr>gw_closed := True, gw_queue := q, gw_futures := fs\<rparr>)"

section \<open>One batch\<close>

text \<open>
  The operations of a batch, each under its savepoint: the outcomes, or the error of a savepoint statement. \<open>ROLLBACK TO\<close> gives
  back the database as it was at the savepoint; when it raises, what the failed operation did is still there.
\<close>

fun apply_each ::
    "storage_answers \<Rightarrow> nat \<Rightarrow> ('db, 'e, 'v) pending_write list \<Rightarrow> 'db
      \<Rightarrow> 'db \<times> (string + (nat \<times> ('e, 'v) future) list)" where
  "apply_each sa index [] db = (db, Inr [])"
| "apply_each sa index (p # rest) db =
     (case sa_savepoint sa index of
        Some m \<Rightarrow> (db, Inl m)
      | None \<Rightarrow>
          (let (db', outcome, undo) = (case pw_apply p db of
                  (Inl e, half) \<Rightarrow> (if sa_rollback_to sa index = None then db else half, Exception (Operation_Failed e),
                    sa_rollback_to sa index)
                | (Inr v, db') \<Rightarrow> (db', Result v, None))
           in case (undo, sa_release sa index) of
                (Some m, _) \<Rightarrow> (db', Inl m)
              | (None, Some m) \<Rightarrow> (db', Inl m)
              | (None, None) \<Rightarrow>
                  (case apply_each sa (Suc index) rest db' of
                     (db'', Inl m) \<Rightarrow> (db'', Inl m)
                   | (db'', Inr outcomes) \<Rightarrow> (db'', Inr ((pw_future p, outcome) # outcomes)))))"

definition fail_all :: "string \<Rightarrow> ('db, 'e, 'v) pending_write list \<Rightarrow> (nat \<times> ('e, 'v) future) list" where
  "fail_all m batch = map (\<lambda>p. (pw_future p, Exception (Storage_Failed m))) batch"

text \<open>\<open>_commit_batch\<close>: the connection, the futures, and whether the transaction committed or the error that escaped.\<close>

definition commit_batch ::
    "storage_answers \<Rightarrow> ('db, 'e, 'v) pending_write list \<Rightarrow> 'db writer_connection \<Rightarrow> ('e, 'v) future list
      \<Rightarrow> 'db writer_connection \<times> ('e, 'v) future list \<times> (string + bool)" where
  "commit_batch sa batch cn fs =
     (let finish = (\<lambda>cn outcomes ok. case resolve_each outcomes fs of
            (fs', None) \<Rightarrow> (cn, fs', Inr ok) | (fs', Some m) \<Rightarrow> (cn, fs', Inl m));
          started = (if cn_open cn \<noteq> None then Some ''cannot start a transaction within a transaction'' else sa_begin sa)
      in case started of
           Some m \<Rightarrow> finish cn (fail_all m batch) False
         | None \<Rightarrow>
             (case apply_each sa 0 batch (cn_durable cn) of
                (db, Inl m) \<Rightarrow> (cn\<lparr>cn_open := Some db\<rparr>, fs, Inl m)
              | (db, Inr outcomes) \<Rightarrow>
                  (case sa_commit sa of
                     None \<Rightarrow> finish (cn\<lparr>cn_durable := db, cn_open := None\<rparr>) outcomes True
                   | Some (m, stays) \<Rightarrow> finish (cn\<lparr>cn_open := (if stays then Some db else None)\<rparr>) (fail_all m batch) False)))"

text \<open>The preparations, before the transaction: a failed one resolves its future, the others give the writes to apply.\<close>

fun prepare_each ::
    "'db \<Rightarrow> ('db, 'e, 'v) pending_write list \<Rightarrow> ('e, 'v) future list
      \<Rightarrow> ('e, 'v) future list \<times> (string + ('db, 'e, 'v) pending_write list)" where
  "prepare_each db [] fs = (fs, Inr [])"
| "prepare_each db (p # rest) fs =
     (case (case pw_prepare p of None \<Rightarrow> Inr (pw_apply p) | Some prepare \<Rightarrow> prepare db) of
        Inl e \<Rightarrow>
          (case resolve_each [(pw_future p, Exception (Operation_Failed e))] fs of
             (fs', None) \<Rightarrow> prepare_each db rest fs'
           | (fs', Some m) \<Rightarrow> (fs', Inl m))
      | Inr f \<Rightarrow>
          (case prepare_each db rest fs of
             (fs', Inl m) \<Rightarrow> (fs', Inl m)
           | (fs', Inr ready) \<Rightarrow> (fs', Inr (p\<lparr>pw_apply := f, pw_prepare := None\<rparr> # ready))))"

definition visible :: "'db writer_connection \<Rightarrow> 'db" where
  "visible cn = (case cn_open cn of None \<Rightarrow> cn_durable cn | Some db \<Rightarrow> db)"

text \<open>An error outside the batch's own transaction: every future still open fails, and the transaction is rolled back.\<close>

definition abort_batch ::
    "storage_answers \<Rightarrow> string \<Rightarrow> ('db, 'e, 'v) pending_write list \<Rightarrow> ('db, 'e, 'v) group_writer \<Rightarrow> ('db, 'e, 'v) group_writer" where
  "abort_batch sa m batch w =
     (let undone = filter (\<lambda>p. \<not> future_done (gw_futures w ! pw_future p)) batch;
          fs = fst (resolve_each (fail_all m undone) (gw_futures w))
      in w\<lparr>gw_transaction_failed := True, gw_futures := fs,
           gw_connection := (if sa_rollback sa = None then (gw_connection w)\<lparr>cn_open := None\<rparr> else gw_connection w)\<rparr>)"

definition run_batch ::
    "storage_answers \<Rightarrow> ('db, 'e, 'v) pending_write list \<Rightarrow> ('db, 'e, 'v) group_writer \<Rightarrow> ('db, 'e, 'v) group_writer" where
  "run_batch sa batch w =
     (case prepare_each (visible (gw_connection w)) batch (gw_futures w) of
        (fs, Inl m) \<Rightarrow> abort_batch sa m batch (w\<lparr>gw_futures := fs\<rparr>)
      | (fs, Inr ready) \<Rightarrow>
          (let (cn, fs', ended) = (if ready = [] then (gw_connection w, fs, Inr (\<not> gw_transaction_failed w))
                                   else commit_batch sa ready (gw_connection w) fs);
               w' = w\<lparr>gw_connection := cn, gw_futures := fs'\<rparr>
           in case (ended, sa_unwind sa) of
                (Inl m, _) \<Rightarrow> abort_batch sa m batch w'
              | (Inr ok, Some m) \<Rightarrow> abort_batch sa m batch w'
              | (Inr ok, None) \<Rightarrow> w'\<lparr>gw_transaction_failed := \<not> ok\<rparr>))"

section \<open>The writer thread\<close>

definition writer_step :: "storage_answers \<Rightarrow> ('db, 'e, 'v) group_writer \<Rightarrow> ('db, 'e, 'v) group_writer" where
  "writer_step sa w =
     (case gw_phase w of
        Opening \<Rightarrow> if sa_connect sa = None then w\<lparr>gw_phase := Waiting\<rparr> else (fail_pending w)\<lparr>gw_phase := Exited\<rparr>
      | Waiting \<Rightarrow>
          (case gw_queue w of
             [] \<Rightarrow> w
           | None # q \<Rightarrow> w\<lparr>gw_queue := q, gw_phase := Leaving\<rparr>
           | Some p # q \<Rightarrow> w\<lparr>gw_queue := q, gw_phase := Draining [p]\<rparr>)
      | Draining batch \<Rightarrow>
          if length batch < gw_max_batch_size w then
            (case gw_queue w of
               [] \<Rightarrow> w\<lparr>gw_phase := Batch batch False\<rparr>
             | None # q \<Rightarrow> w\<lparr>gw_queue := q, gw_phase := Batch batch True\<rparr>
             | Some p # q \<Rightarrow> w\<lparr>gw_queue := q, gw_phase := Draining (batch @ [p])\<rparr>)
          else w\<lparr>gw_phase := Batch batch False\<rparr>
      | Batch batch stopping \<Rightarrow> (run_batch sa batch w)\<lparr>gw_phase := (if stopping then Leaving else Waiting)\<rparr>
      | Leaving \<Rightarrow> (fail_pending w)\<lparr>gw_phase := Exited\<rparr>
      | Exited \<Rightarrow> w)"

datatype ('db, 'e, 'v) writer_op =
    Submit "('db, 'e, 'v) db_write" "('db \<Rightarrow> 'e + ('db, 'e, 'v) db_write) option"
  | Close
  | Cancel nat
  | Direct "'db \<Rightarrow> 'e + 'db"
  | Writer storage_answers

text \<open>\<open>Direct\<close> is a transaction on another connection: it is kept out while the writer has one open.\<close>

definition gw_step :: "('db, 'e, 'v) writer_op \<Rightarrow> ('db, 'e, 'v) group_writer \<Rightarrow> ('db, 'e, 'v) group_writer" where
  "gw_step op w =
     (case op of
        Submit apply prepare \<Rightarrow> snd (enqueue apply prepare w)
      | Close \<Rightarrow> close w
      | Cancel i \<Rightarrow> cancel_future i w
      | Direct f \<Rightarrow>
          if cn_open (gw_connection w) \<noteq> None then w
          else w\<lparr>gw_connection := (gw_connection w)\<lparr>cn_durable := transact f (cn_durable (gw_connection w))\<rparr>,
                  gw_others := gw_others w @ [f]\<rparr>
      | Writer sa \<Rightarrow> writer_step sa w)"

end
