(* ===== verification/Group_Commit_Refinement.thy ===== *)
theory Group_Commit_Refinement
  imports Group_Commit
begin

text \<open>
  The group-commit writer refines a queue served one write at a time: each write is applied, refused or failed on its own, in
  the order of submission, and its future is resolved at that moment. Batches, savepoints and the shared commit are not
  visible to callers. The moves of the queue are labelled, and each operation of the writer shows exactly the labels it stands
  for: another connection's transaction is the one that was run, and a failure is one that SQLite or closing caused.
\<close>

section \<open>The specification\<close>

text \<open>The first \<open>sq_served\<close> of the submitted writes have been served.\<close>

record ('db, 'e, 'v) served_queue =
  sq_submitted :: "('db, 'e, 'v) pending_write list"
  sq_served :: nat
  sq_futures :: "('e, 'v) future list"
  sq_db :: 'db
  sq_others :: "('db \<Rightarrow> 'e + 'db) list"

definition settle :: "nat \<Rightarrow> ('e, 'v) future \<Rightarrow> ('e, 'v) future list \<Rightarrow> ('e, 'v) future list" where
  "settle i outcome fs =
     (case fs ! i of Pending \<Rightarrow> fs[i := outcome] | Cancelled \<Rightarrow> fs[i := Notified] | _ \<Rightarrow> fs)"

text \<open>What the preparation of a write makes of it, on the database the writer sees before the transaction.\<close>

definition decide :: "'db \<Rightarrow> ('db, 'e, 'v) pending_write \<Rightarrow> 'e + ('db, 'e, 'v) db_write" where
  "decide db p = (case pw_prepare p of None \<Rightarrow> Inr (pw_apply p) | Some prepare \<Rightarrow> prepare db)"

text \<open>The moves: a write is taken, its future cancelled, the oldest write is served or dropped, another connection's transaction.\<close>

datatype ('db, 'e, 'v) service =
    Takes "('db, 'e, 'v) pending_write"
  | Cancels nat
  | Serves 'db "('e, 'v) future"
  | Drops
  | Other "'db \<Rightarrow> 'e + 'db"

inductive serve_step :: "('db, 'e, 'v) service \<Rightarrow> ('db, 'e, 'v) served_queue \<Rightarrow> ('db, 'e, 'v) served_queue \<Rightarrow> bool" where
  takes: "pw_future p = length (sq_submitted s) \<Longrightarrow>
    serve_step (Takes p) s (s\<lparr>sq_submitted := sq_submitted s @ [p], sq_futures := sq_futures s @ [Pending]\<rparr>)"
| cancels: "sq_futures s ! i = Pending \<Longrightarrow> serve_step (Cancels i) s (s\<lparr>sq_futures := (sq_futures s)[i := Cancelled]\<rparr>)"
| commit: "n = sq_served s \<Longrightarrow> n < length (sq_submitted s) \<Longrightarrow> decide d (sq_submitted s ! n) = Inr f \<Longrightarrow>
    f (sq_db s) = (Inr v, db') \<Longrightarrow>
    serve_step (Serves d (Result v)) s
      (s\<lparr>sq_served := Suc n, sq_futures := settle n (Result v) (sq_futures s), sq_db := db'\<rparr>)"
| refuse: "n = sq_served s \<Longrightarrow> n < length (sq_submitted s) \<Longrightarrow>
    decide d (sq_submitted s ! n) = Inl e \<or> (\<exists>f. decide d (sq_submitted s ! n) = Inr f \<and> fst (f (sq_db s)) = Inl e) \<Longrightarrow>
    serve_step (Serves d (Exception (Operation_Failed e))) s
      (s\<lparr>sq_served := Suc n, sq_futures := settle n (Exception (Operation_Failed e)) (sq_futures s)\<rparr>)"
| fail: "n = sq_served s \<Longrightarrow> n < length (sq_submitted s) \<Longrightarrow> (\<And>e. x \<noteq> Operation_Failed e) \<Longrightarrow>
    serve_step (Serves d (Exception x)) s (s\<lparr>sq_served := Suc n, sq_futures := settle n (Exception x) (sq_futures s)\<rparr>)"
| drop: "n = sq_served s \<Longrightarrow> n < length (sq_submitted s) \<Longrightarrow> sq_futures s ! n = Cancelled \<Longrightarrow>
    serve_step Drops s (s\<lparr>sq_served := Suc n\<rparr>)"
| other: "serve_step (Other f) s (s\<lparr>sq_db := transact f (sq_db s), sq_others := sq_others s @ [f]\<rparr>)"

section \<open>Resolutions\<close>

definition open_future :: "('e, 'v) future list \<Rightarrow> nat \<Rightarrow> bool" where
  "open_future fs i \<longleftrightarrow> i < length fs \<and> fs ! i \<in> {Pending, Cancelled}"

abbreviation settles :: "(nat \<times> ('e, 'v) future) list \<Rightarrow> ('e, 'v) future list \<Rightarrow> ('e, 'v) future list" where
  "settles \<equiv> fold (\<lambda>(i, outcome). settle i outcome)"

lemma length_settle [simp]: "length (settle i x fs) = length fs"
  by (simp add: settle_def split: future.split)

lemma settle_other [simp]: "j \<noteq> i \<Longrightarrow> settle i x fs ! j = fs ! j"
  by (simp add: settle_def split: future.split)

lemma settle_self: "i < length fs \<Longrightarrow> settle i x fs ! i =
    (case fs ! i of Pending \<Rightarrow> x | Cancelled \<Rightarrow> Notified | f \<Rightarrow> f)"
  by (simp add: settle_def split: future.split)

lemma settle_commute: "i \<noteq> j \<Longrightarrow> settle i x (settle j y fs) = settle j y (settle i x fs)"
  by (auto simp: settle_def list_update_swap split: future.split)

lemma settles_commute: "i \<notin> fst ` set outs \<Longrightarrow> settle i x (settles outs fs) = settles outs (settle i x fs)"
  by (induction outs arbitrary: fs) (auto simp: settle_commute)

lemma length_settles [simp]: "length (settles outs fs) = length fs"
  by (induction outs arbitrary: fs) auto

lemma settles_other: "j \<notin> fst ` set outs \<Longrightarrow> settles outs fs ! j = fs ! j"
  by (induction outs arbitrary: fs) auto

lemma open_settle [simp]: "j \<noteq> i \<Longrightarrow> open_future (settle i x fs) j = open_future fs j"
  by (simp add: open_future_def)

lemma resolve_each_settles:
  assumes "distinct (map fst outs)" and "\<And>i. i \<in> fst ` set outs \<Longrightarrow> open_future fs i"
  shows "resolve_each outs fs = (settles outs fs, None)"
  using assms
proof (induction outs arbitrary: fs)
  case (Cons x outs)
  obtain i y where x: "x = (i, y)" by force
  have "resolve_each outs (settle i y fs) = (settles outs (settle i y fs), None)"
  proof (rule Cons.IH)
    show "open_future (settle i y fs) j" if "j \<in> fst ` set outs" for j
      using Cons.prems that x by (metis (no_types, lifting) distinct.simps(2) fst_conv image_eqI image_set list.set_intros(2)
          list.simps(9) open_settle)
  qed (use Cons.prems in simp)
  moreover have "open_future fs i" using Cons.prems x by force
  then have "resolve_each (x # outs) fs = resolve_each outs (settle i y fs)"
    using x by (auto simp: open_future_def settle_def)
  ultimately show ?case using x by simp
qed simp

text \<open>A batch and, for each write of it, the outcome it settles its future with; \<open>None\<close> leaves a cancelled future as it is.\<close>

fun settle_list :: "('db, 'e, 'v) pending_write list \<Rightarrow> ('e, 'v) future option list \<Rightarrow> ('e, 'v) future list
    \<Rightarrow> ('e, 'v) future list" where
  "settle_list (p # b) (Some x # xs) fs = settle_list b xs (settle (pw_future p) x fs)"
| "settle_list (p # b) (None # xs) fs = settle_list b xs fs"
| "settle_list _ _ fs = fs"

text \<open>The outcomes of a batch prepared on \<open>d\<close>, when the storage or closing gives the failures \<open>F\<close>.\<close>

inductive outcomes_of ::
    "'db \<Rightarrow> 'e write_failure set \<Rightarrow> ('db, 'e, 'v) pending_write list \<Rightarrow> 'db \<Rightarrow> ('e, 'v) future option list \<Rightarrow> 'db \<Rightarrow> bool"
  for d :: 'db and F :: "'e write_failure set" where
  none: "outcomes_of d F [] db [] db"
| committed: "decide d p = Inr f \<Longrightarrow> f db = (Inr v, db1) \<Longrightarrow> outcomes_of d F b db1 xs db' \<Longrightarrow>
    outcomes_of d F (p # b) db (Some (Result v) # xs) db'"
| refused: "decide d p = Inl e \<or> (\<exists>f. decide d p = Inr f \<and> fst (f db) = Inl e) \<Longrightarrow> outcomes_of d F b db xs db' \<Longrightarrow>
    outcomes_of d F (p # b) db (Some (Exception (Operation_Failed e)) # xs) db'"
| failed: "x \<in> F \<Longrightarrow> (\<And>e. x \<noteq> Operation_Failed e) \<Longrightarrow> outcomes_of d F b db xs db' \<Longrightarrow>
    outcomes_of d F (p # b) db (Some (Exception x) # xs) db'"
| dropped: "F \<noteq> {} \<Longrightarrow> outcomes_of d F b db xs db' \<Longrightarrow> outcomes_of d F (p # b) db (None # xs) db'"

lemma outcomes_length: "outcomes_of d F b db xs db' \<Longrightarrow> length xs = length b"
  by (induction rule: outcomes_of.induct) auto

text \<open>What the outcome of one write shows, and the outcomes that are allowed to show.\<close>

definition service_of :: "'db \<Rightarrow> ('e, 'v) future option \<Rightarrow> ('db, 'e, 'v) service" where
  "service_of d x = (case x of None \<Rightarrow> Drops | Some y \<Rightarrow> Serves d y)"

lemma service_of_simps [simp]: "service_of d None = Drops" "service_of d (Some x) = Serves d x"
  by (simp_all add: service_of_def)

definition answers :: "'db \<Rightarrow> 'e write_failure set \<Rightarrow> ('db, 'e, 'v) service \<Rightarrow> bool" where
  "answers d F l = (case l of
     Serves d' x \<Rightarrow> d' = d \<and> (case x of Result _ \<Rightarrow> True | Exception (Operation_Failed _) \<Rightarrow> True | Exception y \<Rightarrow> y \<in> F | _ \<Rightarrow> False)
   | Drops \<Rightarrow> F \<noteq> {}
   | _ \<Rightarrow> False)"

lemma outcomes_answer: "outcomes_of d F b db xs db' \<Longrightarrow> list_all (answers d F) (map (service_of d) xs)"
  by (induction rule: outcomes_of.induct) (auto simp: answers_def split: write_failure.split)

lemma drop_Cons_nth:
  assumes "drop n xs = y # ys"
  shows "n < length xs" "xs ! n = y" "drop (Suc n) xs = ys"
proof -
  show n: "n < length xs" using assms by (metis drop_eq_Nil list.discI not_le)
  show "xs ! n = y" "drop (Suc n) xs = ys" using assms Cons_nth_drop_Suc [OF n] by simp_all
qed

abbreviation served_at :: "('db, 'e, 'v) pending_write list \<Rightarrow> nat \<Rightarrow> ('e, 'v) future list \<Rightarrow> 'db
    \<Rightarrow> ('db \<Rightarrow> 'e + 'db) list \<Rightarrow> ('db, 'e, 'v) served_queue" where
  "served_at subs n fs db os \<equiv> \<lparr>sq_submitted = subs, sq_served = n, sq_futures = fs, sq_db = db, sq_others = os\<rparr>"

text \<open>The outcomes of a batch are so many services of the queue: first one of them, then all.\<close>

lemma serve_first:
  assumes step: "serve_step l (served_at subs n fs db os) (served_at subs (Suc n) fs1 db1 os)"
    and fs1: "fs1 = (case x of None \<Rightarrow> fs | Some y \<Rightarrow> settle n y fs)"
    and tail: "\<And>n fs. drop n subs = b @ rest \<Longrightarrow> (\<And>k. k < length b \<Longrightarrow> xs ! k = None \<Longrightarrow> fs ! (n + k) = Cancelled) \<Longrightarrow>
      run serve_step ls (served_at subs n fs db1 os) (served_at subs (n + length b) (settle_list b xs fs) db' os)"
    and subs: "drop n subs = (p # b) @ rest" "\<And>i. i < length subs \<Longrightarrow> pw_future (subs ! i) = i"
    and cancelled: "\<And>k. k < length (p # b) \<Longrightarrow> (x # xs) ! k = None \<Longrightarrow> fs ! (n + k) = Cancelled"
  shows "run serve_step (l # ls) (served_at subs n fs db os)
    (served_at subs (n + length (p # b)) (settle_list (p # b) (x # xs) fs) db' os)"
proof -
  note p = drop_Cons_nth [OF subs(1) [simplified]]
  have "fs1 ! (Suc n + k) = Cancelled" if "k < length b" "xs ! k = None" for k
    using cancelled [of "Suc k"] that by (simp add: fs1 split: option.split)
  from tail [OF p(3) this] step have
    "run serve_step (l # ls) (served_at subs n fs db os) (served_at subs (Suc n + length b) (settle_list b xs fs1) db' os)"
    by (auto intro: run.move)
  moreover have "pw_future p = n" using subs(2) [OF p(1)] p(2) by simp
  ultimately show ?thesis by (cases x) (simp_all add: fs1)
qed

lemma outcomes_serve:
  assumes "outcomes_of d F b db xs db'" and "drop n subs = b @ rest"
    and "\<And>k. k < length b \<Longrightarrow> xs ! k = None \<Longrightarrow> fs ! (n + k) = Cancelled"
    and ids: "\<And>i. i < length subs \<Longrightarrow> pw_future (subs ! i) = i"
  shows "run serve_step (map (service_of d) xs) (served_at subs n fs db os)
    (served_at subs (n + length b) (settle_list b xs fs) db' os)"
  using assms(1-3)
proof (induction b db xs db' arbitrary: n fs rule: outcomes_of.induct)
  case (none db)
  then show ?case by (simp add: run.stop)
next
  case (committed p f db v db1 b xs db')
  note p = drop_Cons_nth [OF committed.prems(1) [simplified]]
  show ?case unfolding list.map
    by (rule serve_first [OF _ refl committed.IH committed.prems(1) ids committed.prems(2)])
      (use serve_step.commit [of n "served_at subs n fs db os" d f v db1] committed.hyps p in simp_all)
next
  case (refused p e db b xs db')
  note p = drop_Cons_nth [OF refused.prems(1) [simplified]]
  show ?case unfolding list.map
    by (rule serve_first [OF _ refl refused.IH refused.prems(1) ids refused.prems(2)])
      (use serve_step.refuse [of n "served_at subs n fs db os" d e] refused.hyps p in simp_all)
next
  case (failed x b db xs db' p)
  note p = drop_Cons_nth [OF failed.prems(1) [simplified]]
  show ?case unfolding list.map
    by (rule serve_first [OF _ refl failed.IH failed.prems(1) ids failed.prems(2)])
      (use serve_step.fail [of n "served_at subs n fs db os" x] failed.hyps p in simp_all)
next
  case (dropped b db xs db' p)
  note p = drop_Cons_nth [OF dropped.prems(1) [simplified]]
  have "fs ! n = Cancelled" using dropped.prems(2) [of 0] by simp
  then show ?case unfolding list.map
    by (intro serve_first [OF _ refl dropped.IH dropped.prems(1) ids dropped.prems(2)])
      (use serve_step.drop [of n "served_at subs n fs db os"] p in simp_all)
qed

section \<open>One batch\<close>

text \<open>The writes whose preparation fails, and the others as they are applied.\<close>

fun refused_part :: "'db \<Rightarrow> ('db, 'e, 'v) pending_write list \<Rightarrow> (nat \<times> ('e, 'v) future) list" where
  "refused_part d [] = []"
| "refused_part d (p # b) = (case decide d p of
     Inl e \<Rightarrow> (pw_future p, Exception (Operation_Failed e)) # refused_part d b | Inr _ \<Rightarrow> refused_part d b)"

fun ready_part :: "'db \<Rightarrow> ('db, 'e, 'v) pending_write list \<Rightarrow> ('db, 'e, 'v) pending_write list" where
  "ready_part d [] = []"
| "ready_part d (p # b) = (case decide d p of
     Inl e \<Rightarrow> ready_part d b | Inr f \<Rightarrow> p\<lparr>pw_apply := f, pw_prepare := None\<rparr> # ready_part d b)"

lemma refused_ids: "fst ` set (refused_part d b) \<subseteq> pw_future ` set b"
  by (induction b) (auto split: sum.splits)

lemma ready_ids: "pw_future ` set (ready_part d b) \<subseteq> pw_future ` set b"
  by (induction b) (auto split: sum.splits)

lemma distinct_ready: "distinct (map pw_future b) \<Longrightarrow> distinct (map pw_future (ready_part d b))"
  by (induction b) (use ready_ids in \<open>fastforce split: sum.splits\<close>)+

lemma ready_not_refused:
  "distinct (map pw_future b) \<Longrightarrow> pw_future ` set (ready_part d b) \<inter> fst ` set (refused_part d b) = {}"
proof (induction b)
  case (Cons p b)
  then have "pw_future p \<notin> pw_future ` set (ready_part d b)" "pw_future p \<notin> fst ` set (refused_part d b)"
    using ready_ids [of d b] refused_ids [of d b] by auto
  with Cons show ?case by (auto split: sum.splits)
qed simp

definition batch_open :: "('db, 'e, 'v) pending_write list \<Rightarrow> ('e, 'v) future list \<Rightarrow> bool" where
  "batch_open b fs \<longleftrightarrow> distinct (map pw_future b) \<and> (\<forall>p \<in> set b. open_future fs (pw_future p))"

lemma prepare_each_splits:
  "batch_open b fs \<Longrightarrow> prepare_each d b fs = (settles (refused_part d b) fs, Inr (ready_part d b))"
proof (induction b arbitrary: fs)
  case (Cons p b)
  have p: "open_future fs (pw_future p)" and rest: "batch_open b fs" and new: "pw_future p \<notin> pw_future ` set b"
    using Cons.prems by (auto simp: batch_open_def)
  show ?case
  proof (cases "decide d p")
    case (Inl e)
    let ?x = "Exception (Operation_Failed e)"
    have "resolve_each [(pw_future p, ?x)] fs = (settle (pw_future p) ?x fs, None)"
      using resolve_each_settles [of "[(pw_future p, ?x)]" fs] p by simp
    moreover have "batch_open b (settle (pw_future p) ?x fs)" 
      using rest new unfolding batch_open_def by (metis image_eqI open_settle)
    ultimately show ?thesis using Cons.IH Inl by (simp add: decide_def)
  next
    case (Inr f)
    then show ?thesis using Cons.IH [OF rest] by (simp add: decide_def)
  qed
qed simp

text \<open>The outcomes of the ready writes put back among the refused ones.\<close>

fun merge_outcomes :: "'db \<Rightarrow> ('db, 'e, 'v) pending_write list \<Rightarrow> ('e, 'v) future list \<Rightarrow> ('e, 'v) future option list" where
  "merge_outcomes d [] xs = []"
| "merge_outcomes d (p # b) xs = (case decide d p of
     Inl e \<Rightarrow> Some (Exception (Operation_Failed e)) # merge_outcomes d b xs
   | Inr _ \<Rightarrow> Some (hd xs) # merge_outcomes d b (tl xs))"

lemma settles_merge:
  assumes "map fst outs = map pw_future (ready_part d b)" and "distinct (map pw_future b)"
  shows "settles outs (settles (refused_part d b) fs) = settle_list b (merge_outcomes d b (map snd outs)) fs"
  using assms
proof (induction b arbitrary: outs fs)
  case (Cons p b)
  show ?case
  proof (cases "decide d p")
    case (Inl e)
    then show ?thesis using Cons by simp
  next
    case (Inr f)
    then obtain x outs' where outs: "outs = (pw_future p, x) # outs'" "map fst outs' = map pw_future (ready_part d b)"
      using Cons.prems(1) by (cases outs) auto
    have "pw_future p \<notin> fst ` set (refused_part d b)" using Cons.prems(2) refused_ids [of d b] by auto
    then show ?thesis using Inr Cons.IH [OF outs(2)] Cons.prems(2) outs(1) by (simp add: settles_commute)
  qed
qed simp

lemma merge_some: "k < length b \<Longrightarrow> merge_outcomes d b xs ! k \<noteq> None"
  by (induction b arbitrary: k xs) (auto simp: nth_Cons split: sum.splits nat.splits)

lemma merge_failed:
  assumes "ready_part d b \<noteq> [] \<Longrightarrow> Storage_Failed m \<in> F"
  shows "outcomes_of d F b db (merge_outcomes d b (replicate (length (ready_part d b)) (Exception (Storage_Failed m)))) db"
  using assms
proof (induction b)
  case (Cons p b)
  then show ?case by (cases "decide d p") (auto intro: outcomes_of.intros)
qed (simp add: outcomes_of.none)

text \<open>The failures that the storage causes while the writer works on one batch.\<close>

definition storage_failures :: "storage_answers \<Rightarrow> 'db writer_connection \<Rightarrow> 'e write_failure set" where
  "storage_failures sa cn = Storage_Failed ` {m. sa_begin sa = Some m
     \<or> cn_open cn \<noteq> None \<and> m = ''cannot start a transaction within a transaction''
     \<or> (\<exists>i. sa_savepoint sa i = Some m \<or> sa_rollback_to sa i = Some m \<or> sa_release sa i = Some m)
     \<or> (\<exists>stays. sa_commit sa = Some (m, stays))}"

lemma apply_each_error:
  "apply_each sa k b db = (db', Inl m) \<Longrightarrow>
     \<exists>i. sa_savepoint sa i = Some m \<or> sa_rollback_to sa i = Some m \<or> sa_release sa i = Some m"
  by (induction sa k b db arbitrary: db' rule: apply_each.induct)
    (auto split: option.splits sum.splits prod.splits if_splits)

lemma apply_each_outcomes:
  assumes "apply_each sa k (ready_part d b) db = (db', Inr outs)"
  shows "map fst outs = map pw_future (ready_part d b) \<and> outcomes_of d F b db (merge_outcomes d b (map snd outs)) db'"
  using assms
proof (induction b arbitrary: k db outs)
  case Nil
  then show ?case by (simp add: outcomes_of.none)
next
  case (Cons p b)
  show ?case
  proof (cases "decide d p")
    case (Inl e)
    then show ?thesis using Cons by (auto intro: outcomes_of.refused)
  next
    case (Inr f)
    then obtain db1 x outs' where x: "outs = (pw_future p, x) # outs'"
      "apply_each sa (Suc k) (ready_part d b) db1 = (db', Inr outs')"
      "(\<exists>v. f db = (Inr v, db1) \<and> x = Result v) \<or> (\<exists>e. fst (f db) = Inl e \<and> db1 = db \<and> x = Exception (Operation_Failed e))"
      using Cons.prems by (auto split: option.splits sum.splits prod.splits)
    with Cons.IH [OF x(2)] Inr show ?thesis
      by (auto intro: outcomes_of.committed outcomes_of.refused)
  qed
qed

lemma settle_list_other: "j \<notin> pw_future ` set b \<Longrightarrow> settle_list b xs fs ! j = fs ! j"
  by (induction b xs fs rule: settle_list.induct) auto

lemma length_settle_list [simp]: "length (settle_list b xs fs) = length fs"
  by (induction b xs fs rule: settle_list.induct) auto

lemma settle_list_nth:
  assumes "batch_open b fs" and "length xs = length b" and "k < length b"
  shows "settle_list b xs fs ! pw_future (b ! k) = (case xs ! k of None \<Rightarrow> fs ! pw_future (b ! k)
    | Some x \<Rightarrow> if fs ! pw_future (b ! k) = Pending then x else Notified)"
  using assms
proof (induction b xs fs arbitrary: k rule: settle_list.induct)
  case (1 p b x xs fs)
  have p: "open_future fs (pw_future p)" "pw_future p \<notin> pw_future ` set b" using "1.prems"(1) by (auto simp: batch_open_def)
  have "batch_open b (settle (pw_future p) x fs)"
    using "1.prems"(1) p(2) unfolding batch_open_def by (metis distinct.simps(2) image_eqI list.set_intros(2) list.simps(9) open_settle)
  note tail = "1.IH" [OF this]
  show ?case
  proof (cases k)
    case 0
    then show ?thesis using p settle_list_other [of "pw_future p" b xs]
      by (auto simp: open_future_def settle_self)
  next
    case (Suc j)
    then have "pw_future (b ! j) \<noteq> pw_future p" using p(2) "1.prems"(3) by (metis Suc_less_eq imageI length_Cons nth_mem)
    with Suc show ?thesis using tail [of j] "1.prems"(2,3) by (simp split: option.split)
  qed
next
  case (2 p b xs fs)
  have "batch_open b fs" "pw_future p \<notin> pw_future ` set b" using "2.prems"(1) by (auto simp: batch_open_def)
  then show ?case using "2.IH" [of "k - 1"] "2.prems" settle_list_other [of "pw_future p" b xs fs]
    by (cases k) (auto split: option.split)
qed auto

lemma outcomes_done: "outcomes_of d F b db xs db' \<Longrightarrow> k < length b \<Longrightarrow> xs ! k = Some x \<Longrightarrow> future_done x \<and> x \<noteq> Cancelled"
  by (induction arbitrary: k rule: outcomes_of.induct) (auto simp: nth_Cons future_done_def split: nat.splits)

lemma batch_ids: "p \<in> set b \<Longrightarrow> (\<And>k. k < length b \<Longrightarrow> P (pw_future (b ! k))) \<Longrightarrow> P (pw_future p)"
  by (metis in_set_conv_nth)

text \<open>What an error outside the transaction leaves: a cancelled future of a ready write stays cancelled.\<close>

lemma settles_lost:
  assumes "distinct (map pw_future b)" and "\<And>p e. Q p \<Longrightarrow> decide d p \<noteq> Inl e"
  shows "settles (fail_all m (filter Q b)) (settles (refused_part d b) fs) =
    settle_list b (map (\<lambda>p. case decide d p of Inl e \<Rightarrow> Some (Exception (Operation_Failed e))
      | Inr _ \<Rightarrow> if Q p then Some (Exception (Storage_Failed m)) else None) b) fs"
  using assms(1)
proof (induction b arbitrary: fs)
  case (Cons p b)
  then have "pw_future p \<notin> fst ` set (refused_part d b)" using refused_ids [of d b] by auto
  then show ?case using Cons assms(2) [of p] by (auto simp: fail_all_def settles_commute split: sum.splits)
qed (simp add: fail_all_def)

lemma lost_outcomes:
  assumes "Storage_Failed m \<in> F"
  shows "outcomes_of d F b db (map (\<lambda>p. case decide d p of Inl e \<Rightarrow> Some (Exception (Operation_Failed e))
      | Inr _ \<Rightarrow> if Q p then Some (Exception (Storage_Failed m)) else None) b) db"
proof (induction b)
  case (Cons p b)
  have "F \<noteq> {}" using assms by auto
  with Cons assms show ?case by (cases "decide d p") (auto intro: outcomes_of.intros)
qed (simp add: outcomes_of.none)

lemma ready_open:
  assumes "batch_open b fs" and "i \<in> pw_future ` set (ready_part d b)"
  shows "open_future (settles (refused_part d b) fs) i"
proof -
  have "i \<notin> fst ` set (refused_part d b)" using assms ready_not_refused [of b d] by (auto simp: batch_open_def)
  moreover have "open_future fs i" using assms ready_ids [of d b] by (auto simp: batch_open_def)
  ultimately show ?thesis by (simp add: open_future_def settles_other)
qed

lemma resolve_ready:
  assumes "batch_open b fs" and "map fst outs = map pw_future (ready_part d b)"
  shows "resolve_each outs (settles (refused_part d b) fs) = (settle_list b (merge_outcomes d b (map snd outs)) fs, None)"
proof -
  have "distinct (map fst outs)" using assms distinct_ready [of b d] by (simp add: batch_open_def)
  moreover have "open_future (settles (refused_part d b) fs) i" if "i \<in> fst ` set outs" for i
    using ready_open [OF assms(1), of i d] that assms(2) by (metis image_set)
  ultimately have "resolve_each outs (settles (refused_part d b) fs) = (settles outs (settles (refused_part d b) fs), None)"
    by (rule resolve_each_settles)
  then show ?thesis using settles_merge [OF assms(2)] assms(1) by (simp add: batch_open_def)
qed

text \<open>How the shared transaction of a batch ends: with an outcome for each write, or with an error that escapes it.\<close>

lemma commit_batch_ends:
  fixes b :: "('db, 'e, 'v) pending_write list"
  assumes open_b: "batch_open b fs"
    and run: "commit_batch sa (ready_part d b) cn (settles (refused_part d b) fs) = (cn', fs', ended)"
  shows "(\<exists>ok xs. ended = Inr ok \<and> outcomes_of d (storage_failures sa cn) b (cn_durable cn) xs (cn_durable cn')
            \<and> (\<forall>k < length b. xs ! k \<noteq> None) \<and> fs' = settle_list b xs fs)
    \<or> (\<exists>m. ended = Inl m \<and> (Storage_Failed m :: 'e write_failure) \<in> storage_failures sa cn \<and> cn_durable cn' = cn_durable cn \<and> fs' = settles (refused_part d b) fs)"
proof -
  have failed: "resolve_each (fail_all m (ready_part d b)) (settles (refused_part d b) fs)
      = (settle_list b (merge_outcomes d b (replicate (length (ready_part d b)) (Exception (Storage_Failed m)))) fs, None)" for m
    using resolve_ready [OF open_b, of "fail_all m (ready_part d b)" d] by (simp add: fail_all_def comp_def map_replicate_const)
  have lost: ?thesis if "(Storage_Failed m :: 'e write_failure) \<in> storage_failures sa cn" "cn_durable cn' = cn_durable cn" "ended = Inr False"
      "fs' = fst (resolve_each (fail_all m (ready_part d b)) (settles (refused_part d b) fs))" for m
    using that(2-) merge_failed [OF that(1), of d b "cn_durable cn"] merge_some [of _ b d] by (auto simp: failed)
  show ?thesis
  proof (cases "cn_open cn = None \<and> sa_begin sa = None")
    case False
    then obtain m where "(if cn_open cn \<noteq> None then Some ''cannot start a transaction within a transaction'' else sa_begin sa) = Some m"
      by (cases "cn_open cn") auto
    then show ?thesis using run
      by (intro lost [of m]) (auto simp: commit_batch_def failed storage_failures_def split: if_splits)
  next
    case True
    obtain db r where app: "apply_each sa 0 (ready_part d b) (cn_durable cn) = (db, r)" by force
    show ?thesis
    proof (cases r)
      case (Inl m)
      then have "(Storage_Failed m :: 'e write_failure) \<in> storage_failures sa cn"
        using apply_each_error [of sa 0 "ready_part d b" "cn_durable cn" db m] app
        by (auto simp: storage_failures_def)
      then show ?thesis using Inl run True app by (auto simp: commit_batch_def)
    next
      case (Inr outs)
      note outcomes = apply_each_outcomes [OF app [unfolded Inr], of "storage_failures sa cn"]
      show ?thesis
      proof (cases "sa_commit sa")
        case None
        then show ?thesis using run True app Inr outcomes resolve_ready [OF open_b, of outs d] merge_some [of _ b d]
          by (auto simp: commit_batch_def)
      next
        case (Some c)
        obtain m stays where "c = (m, stays)" by force
        then show ?thesis using run True app Inr Some
          by (intro lost [of m]) (auto simp: commit_batch_def failed storage_failures_def)
      qed
    qed
  qed
qed

lemma abort_done:
  assumes "\<And>p. p \<in> set b \<Longrightarrow> future_done (gw_futures w ! pw_future p)"
  shows "gw_futures (abort_batch sa m b w) = gw_futures w"
proof -
  have "filter (\<lambda>p. \<not> future_done (gw_futures w ! pw_future p)) b = []" using assms by (simp add: filter_empty_conv)
  then show ?thesis by (simp add: abort_batch_def fail_all_def Let_def)
qed

lemma abort_durable [simp]: "cn_durable (gw_connection (abort_batch sa m b w)) = cn_durable (gw_connection w)"
  by (simp add: abort_batch_def Let_def)

lemma refused_or_open:
  assumes "batch_open b fs" and "p \<in> set b"
  shows "settles (refused_part d b) fs ! pw_future p = (case decide d p of
    Inl e \<Rightarrow> if fs ! pw_future p = Pending then Exception (Operation_Failed e) else Notified | Inr _ \<Rightarrow> fs ! pw_future p)"
  using assms
proof (induction b arbitrary: fs)
  case (Cons q b)
  have q: "open_future fs (pw_future q)" "pw_future q \<notin> pw_future ` set b" "batch_open b fs"
    using Cons.prems(1) by (auto simp: batch_open_def)
  have later: "batch_open b (settle (pw_future q) x fs)" for x
    using q(2,3) unfolding batch_open_def by (metis image_eqI open_settle)
  have "pw_future q \<notin> fst ` set (refused_part d b)" using q(2) refused_ids [of d b] by auto
  note first = settles_other [OF this]
  show ?case
  proof (cases "p = q")
    case True
    then show ?thesis using first q(1) by (auto simp: open_future_def settle_self split: sum.split)
  next
    case False
    then have p: "p \<in> set b" "pw_future p \<noteq> pw_future q" using Cons.prems(2) q(2) False by (simp, metis imageI set_ConsD)
    show ?thesis using Cons.IH [OF later p(1)] Cons.IH [OF q(3) p(1)] p(2) by (simp split: sum.split)
  qed
qed simp

lemma abort_lost:
  assumes open_b: "batch_open b fs" and w: "gw_futures w = settles (refused_part d b) fs"
    and F: "Storage_Failed m \<in> F"
  obtains xs where "\<And>db. outcomes_of d F b db xs db" "gw_futures (abort_batch sa m b w) = settle_list b xs fs"
    "\<And>k. k < length b \<Longrightarrow> xs ! k = None \<Longrightarrow> fs ! pw_future (b ! k) = Cancelled"
proof -
  define Q where "Q p \<longleftrightarrow> (\<exists>f. decide d p = Inr f) \<and> fs ! pw_future p = Pending" for p :: "('a, 'b, 'c) pending_write"
  let ?xs = "map (\<lambda>p. case decide d p of Inl e \<Rightarrow> Some (Exception (Operation_Failed e))
    | Inr _ \<Rightarrow> if Q p then Some (Exception (Storage_Failed m)) else None) b"
  have undone: "filter (\<lambda>p. \<not> future_done (gw_futures w ! pw_future p)) b = filter Q b"
    by (rule filter_cong)
      (auto simp: Q_def w refused_or_open [OF open_b] future_done_def split: sum.splits future.splits)
  have "resolve_each (fail_all m (filter Q b)) (gw_futures w) = (settles (fail_all m (filter Q b)) (gw_futures w), None)"
  proof (rule resolve_each_settles)
    show "distinct (map fst (fail_all m (filter Q b)))"
      using open_b by (simp add: fail_all_def batch_open_def comp_def distinct_map_filter)
    show "open_future (gw_futures w) i" if "i \<in> fst ` set (fail_all m (filter Q b))" for i
      using that open_b refused_or_open [OF open_b, of _ d]
      by (auto simp: fail_all_def Q_def w open_future_def batch_open_def)
  qed
  then have "gw_futures (abort_batch sa m b w) = settles (fail_all m (filter Q b)) (gw_futures w)"
    by (simp add: abort_batch_def undone)
  also have "\<dots> = settle_list b ?xs fs"
    unfolding w by (rule settles_lost) (use open_b in \<open>auto simp: Q_def batch_open_def\<close>)
  finally show thesis
  proof (rule that [rotated])
    show "fs ! pw_future (b ! k) = Cancelled" if "k < length b" "?xs ! k = None" for k
      using that open_b by (auto simp: Q_def batch_open_def open_future_def split: sum.splits if_splits)
  qed (rule lost_outcomes [OF F])
qed

lemma run_batch_outcomes:
  fixes b :: "('db, 'e, 'v) pending_write list"
  assumes open_b: "batch_open b (gw_futures w)"
  obtains xs where "outcomes_of (visible (gw_connection w)) (storage_failures sa (gw_connection w)) b
      (cn_durable (gw_connection w)) xs (cn_durable (gw_connection (run_batch sa b w)))"
    "gw_futures (run_batch sa b w) = settle_list b xs (gw_futures w)"
    "\<And>k. k < length b \<Longrightarrow> xs ! k = None \<Longrightarrow> gw_futures w ! pw_future (b ! k) = Cancelled"
proof -
  define d where "d = visible (gw_connection w)"
  define F where "F = settles (refused_part d b) (gw_futures w)"
  let ?caused = "storage_failures sa (gw_connection w) :: 'e write_failure set"
  have prep: "prepare_each d b (gw_futures w) = (F, Inr (ready_part d b))"
    using prepare_each_splits [OF open_b] by (simp add: F_def)
  obtain cn fs' ended where e: "(if ready_part d b = [] then (gw_connection w, F, Inr (\<not> gw_transaction_failed w))
      else commit_batch sa (ready_part d b) (gw_connection w) F) = (cn, fs', ended)" by (rule prod_cases3)
  define w' where "w' = w\<lparr>gw_connection := cn, gw_futures := fs'\<rparr>"
  have run: "run_batch sa b w = (case (ended, sa_unwind sa) of
      (Inl m, _) \<Rightarrow> abort_batch sa m b w' | (Inr ok, Some m) \<Rightarrow> abort_batch sa m b w'
    | (Inr ok, None) \<Rightarrow> w'\<lparr>gw_transaction_failed := \<not> ok\<rparr>)"
    unfolding run_batch_def w'_def
    by (simp only: prep [unfolded d_def] e [unfolded d_def] prod.case sum.case Let_def)
  consider (settled) ok xs where "ended = Inr ok" "outcomes_of d ?caused b (cn_durable (gw_connection w)) xs (cn_durable cn)"
      "\<forall>k < length b. xs ! k \<noteq> None" "fs' = settle_list b xs (gw_futures w)"
    | (lost) m where "ended = Inl m" "Storage_Failed m \<in> ?caused" "cn_durable cn = cn_durable (gw_connection w)" "fs' = F"
  proof (cases "ready_part d b = []")
    case True
    then have "F = settle_list b (merge_outcomes d b []) (gw_futures w)"
      using resolve_ready [OF open_b, of "[]" d] by (simp add: F_def)
    moreover have "outcomes_of d ?caused b db (merge_outcomes d b []) db" for db
      using merge_failed [of d b "[]" ?caused db] True by simp
    ultimately show ?thesis
      using e True merge_some [of _ b d "[]"] settled [of "\<not> gw_transaction_failed w" "merge_outcomes d b []"] by auto
  next
    case False
    then have "commit_batch sa (ready_part d b) (gw_connection w) (settles (refused_part d b) (gw_futures w)) = (cn, fs', ended)"
      using e by (simp add: F_def)
    from commit_batch_ends [OF open_b this] show ?thesis using settled lost by (auto simp: F_def)
  qed
  then show thesis
  proof cases
    case settled
    have "future_done (gw_futures w' ! pw_future p)" if "p \<in> set b" for p
    proof (rule batch_ids [OF that])
      fix k assume k: "k < length b"
      then obtain x where x: "xs ! k = Some x" using settled(3) by auto
      show "future_done (gw_futures w' ! pw_future (b ! k))"
        using settle_list_nth [OF open_b outcomes_length [OF settled(2)] k] outcomes_done [OF settled(2) k x] x
        by (simp add: w'_def settled(4) future_done_def)
    qed
    then have "gw_futures (run_batch sa b w) = fs'" "cn_durable (gw_connection (run_batch sa b w)) = cn_durable cn"
      using abort_done [of b w'] by (simp_all add: run settled(1) w'_def split: option.split)
    then show thesis using that [of xs] settled by (simp add: d_def)
  next
    case lost
    have "gw_futures w' = settles (refused_part d b) (gw_futures w)" by (simp add: w'_def lost F_def)
    then obtain xs where xs: "\<And>db. outcomes_of d ?caused b db xs db" "gw_futures (abort_batch sa m b w') = settle_list b xs (gw_futures w)"
      "\<And>k. k < length b \<Longrightarrow> xs ! k = None \<Longrightarrow> gw_futures w ! pw_future (b ! k) = Cancelled"
      by (rule abort_lost [OF open_b _ lost(2), where sa = sa]) (rule that)
    show thesis by (rule that [of xs]) (use xs in \<open>simp_all add: run lost w'_def d_def\<close>)
  qed
qed

section \<open>The invariant\<close>

fun queued :: "('db, 'e, 'v) pending_write option list \<Rightarrow> ('db, 'e, 'v) pending_write list" where
  "queued [] = []"
| "queued (None # q) = queued q"
| "queued (Some p # q) = p # queued q"

lemma queued_append [simp]: "queued (q @ q') = queued q @ queued q'"
  by (induction q rule: queued.induct) auto

lemma queued_Some [simp]: "queued (map Some ps) = ps"
  by (induction ps) auto

definition phase_batch :: "('db, 'e, 'v) writer_phase \<Rightarrow> ('db, 'e, 'v) pending_write list" where
  "phase_batch ph = (case ph of Draining b \<Rightarrow> b | Batch b _ \<Rightarrow> b | _ \<Rightarrow> [])"

lemma phase_batch_simps [simp]:
  "phase_batch Opening = []" "phase_batch Waiting = []" "phase_batch (Draining b) = b" "phase_batch (Batch b s) = b"
  "phase_batch Leaving = []" "phase_batch Exited = []"
  by (simp_all add: phase_batch_def)

text \<open>The writes the writer still owes an answer, oldest first.\<close>

definition held :: "('db, 'e, 'v) group_writer \<Rightarrow> ('db, 'e, 'v) pending_write list" where
  "held w = phase_batch (gw_phase w) @ queued (gw_queue w)"

definition served :: "('db, 'e, 'v) group_writer \<Rightarrow> nat" where
  "served w = length (gw_submitted w) - length (held w)"

text \<open>Nothing is queued behind the stop sentinel, and a closed writer has it before it or has met it.\<close>

definition stopping_ok :: "('db, 'e, 'v) group_writer \<Rightarrow> bool" where
  "stopping_ok w = (case gw_phase w of
     Leaving \<Rightarrow> gw_closed w \<and> gw_queue w = []
   | Exited \<Rightarrow> gw_closed w \<and> gw_queue w = []
   | Batch _ True \<Rightarrow> gw_closed w \<and> gw_queue w = []
   | _ \<Rightarrow> (\<exists>ps. gw_queue w = map Some ps @ (if gw_closed w then [None] else [])))"

definition futures_ok :: "('db, 'e, 'v) group_writer \<Rightarrow> bool" where
  "futures_ok w \<longleftrightarrow> length (gw_futures w) = length (gw_submitted w)
     \<and> (\<forall>i < length (gw_submitted w). pw_future (gw_submitted w ! i) = i)
     \<and> (\<forall>i < served w. gw_futures w ! i \<noteq> Pending)
     \<and> (\<forall>i. served w \<le> i \<longrightarrow> i < length (gw_submitted w) \<longrightarrow> gw_futures w ! i \<in> {Pending, Cancelled})"

definition gw_inv :: "('db, 'e, 'v) group_writer \<Rightarrow> bool" where
  "gw_inv w \<longleftrightarrow> futures_ok w \<and> stopping_ok w \<and> held w = drop (served w) (gw_submitted w)
     \<and> length (phase_batch (gw_phase w)) \<le> gw_max_batch_size w \<and> 0 < gw_max_batch_size w"

definition gw_abs :: "('db, 'e, 'v) group_writer \<Rightarrow> ('db, 'e, 'v) served_queue" where
  "gw_abs w = served_at (gw_submitted w) (served w) (gw_futures w) (cn_durable (gw_connection w)) (gw_others w)"

lemma held_bound: "gw_inv w \<Longrightarrow> length (held w) \<le> length (gw_submitted w)"
  by (metis diff_le_self gw_inv_def length_drop)

lemma held_open:
  assumes "gw_inv w"
  shows "batch_open (held w) (gw_futures w)"
proof -
  let ?n = "served w"
  have held: "held w = drop ?n (gw_submitted w)" and ids: "\<And>i. i < length (gw_submitted w) \<Longrightarrow> pw_future (gw_submitted w ! i) = i"
    and len: "length (gw_futures w) = length (gw_submitted w)"
    using assms by (simp_all add: gw_inv_def futures_ok_def)
  have "map pw_future (held w) = [?n..<length (gw_submitted w)]"
    unfolding held by (rule nth_equalityI) (use ids in auto)
  then have "distinct (map pw_future (held w))" "pw_future ` set (held w) = {?n..<length (gw_submitted w)}"
    by (simp, metis list.set_map set_upt)
  moreover have "open_future (gw_futures w) i" if "i \<in> {?n..<length (gw_submitted w)}" for i
    using assms that len by (auto simp: gw_inv_def futures_ok_def open_future_def)
  ultimately show ?thesis unfolding batch_open_def by blast
qed

lemma batch_open_append: "batch_open (b @ b') fs \<Longrightarrow> batch_open b fs"
  by (simp add: batch_open_def)

text \<open>A step of the writer that moves writes between the queue and its hands.\<close>

lemma moved_inv:
  assumes "gw_inv w" and "held w' = held w" and "gw_submitted w' = gw_submitted w" and "gw_futures w' = gw_futures w"
    and "gw_max_batch_size w' = gw_max_batch_size w" and "cn_durable (gw_connection w') = cn_durable (gw_connection w)"
    and "gw_others w' = gw_others w" and "stopping_ok w'" and "length (phase_batch (gw_phase w')) \<le> gw_max_batch_size w"
  shows "gw_inv w' \<and> gw_abs w' = gw_abs w"
  using assms by (simp add: gw_inv_def futures_ok_def gw_abs_def served_def)

text \<open>A step of the writer that answers the oldest writes it holds.\<close>

lemma answered_inv:
  assumes inv: "gw_inv w" and b: "held w = b @ held w'"
    and same: "gw_submitted w' = gw_submitted w" "gw_max_batch_size w' = gw_max_batch_size w" "gw_others w' = gw_others w"
    and ends: "stopping_ok w'" "length (phase_batch (gw_phase w')) \<le> gw_max_batch_size w"
    and out: "outcomes_of d F b (cn_durable (gw_connection w)) xs (cn_durable (gw_connection w'))"
      "gw_futures w' = settle_list b xs (gw_futures w)"
      "\<And>k. k < length b \<Longrightarrow> xs ! k = None \<Longrightarrow> gw_futures w ! pw_future (b ! k) = Cancelled"
  shows "gw_inv w' \<and> run serve_step (map (service_of d) xs) (gw_abs w) (gw_abs w')"
proof -
  let ?n = "served w" and ?subs = "gw_submitted w"
  have held: "drop ?n ?subs = b @ held w'" and ids: "\<And>i. i < length ?subs \<Longrightarrow> pw_future (?subs ! i) = i"
    using inv b by (simp_all add: gw_inv_def futures_ok_def)
  have n': "served w' = ?n + length b" using b held_bound [OF inv] by (simp add: served_def same)
  have le: "?n + length b + length (held w') = length ?subs"
    using held_bound [OF inv] b by (simp add: served_def)
  have nth: "pw_future (b ! k) = ?n + k" if "k < length b" for k
  proof -
    have "b ! k = ?subs ! (?n + k)" using held that le by (metis add_leD1 le_add1 nth_append nth_drop)
    then show ?thesis using ids [of "?n + k"] that le by simp
  qed
  have openb: "batch_open b (gw_futures w)" using held_open [OF inv] b batch_open_append by metis
  have "run serve_step (map (service_of d) xs) (gw_abs w) (gw_abs w')"
    unfolding gw_abs_def same n' out(2)
    by (rule outcomes_serve [OF out(1) held _ ids]) (use out(3) nth in auto)
  moreover have "futures_ok w'"
  proof -
    have answered: "gw_futures w' ! i \<noteq> Pending" if i: "i < served w'" for i
    proof (cases "i < ?n")
      case True
      then have "i \<notin> pw_future ` set b" using nth by (auto simp: in_set_conv_nth)
      then show ?thesis using inv True by (simp add: out(2) settle_list_other gw_inv_def futures_ok_def)
    next
      case False
      then obtain k where k: "i = ?n + k" "k < length b" using i n' le_Suc_ex [of ?n i] by auto
      note s = settle_list_nth [OF openb outcomes_length [OF out(1)] k(2), folded out(2), unfolded nth [OF k(2)], folded k(1)]
      show ?thesis
      proof (cases "xs ! k")
        case None
        then show ?thesis using s out(3) [OF k(2)] nth [OF k(2)] k(1) by simp
      next
        case (Some x)
        then show ?thesis using s outcomes_done [OF out(1) k(2) Some] by (auto simp: future_done_def)
      qed
    qed
    have still: "gw_futures w' ! i \<in> {Pending, Cancelled}" if "served w' \<le> i" "i < length ?subs" for i
    proof -
      have "i \<notin> pw_future ` set b" using nth that(1) n' by (auto simp: in_set_conv_nth)
      then show ?thesis using inv that n' by (simp add: out(2) settle_list_other gw_inv_def futures_ok_def)
    qed
    from answered still show ?thesis using inv by (simp add: futures_ok_def gw_inv_def same out(2))
  qed
  moreover have "held w' = drop (served w') (gw_submitted w')"
    using held by (simp add: n' same) (metis append_eq_conv_conj drop_drop add.commute)
  ultimately show ?thesis using inv ends same by (simp add: gw_inv_def)
qed

lemma fail_queue_answers:
  assumes "batch_open (queued q) fs"
  shows "fail_queue q fs = (settle_list (queued q) (replicate (length (queued q)) (Some (Exception Writer_Closed))) fs, [])"
  using assms
proof (induction q fs rule: fail_queue.induct)
  case (3 p q fs)
  let ?x = "Exception Writer_Closed"
  have p: "open_future fs (pw_future p)" "pw_future p \<notin> pw_future ` set (queued q)" "batch_open (queued q) fs"
    using "3.prems" by (auto simp: batch_open_def)
  have one: "resolve_each [(pw_future p, ?x)] fs = (settle (pw_future p) ?x fs, None)"
    using resolve_each_settles [of "[(pw_future p, ?x)]" fs] p(1) by simp
  have "batch_open (queued q) (settle (pw_future p) ?x fs)"
    using p(2,3) unfolding batch_open_def by (metis image_eqI open_settle)
  then show ?case using "3.IH" [OF one [symmetric]] one by simp
qed simp_all

lemma closed_outcomes: "outcomes_of d {Writer_Closed} b db (replicate (length b) (Some (Exception Writer_Closed))) db"
  by (induction b) (auto intro: outcomes_of.none outcomes_of.failed)

section \<open>The refinement\<close>

lemma run_batch_keeps [simp]:
  "gw_queue (run_batch sa b w) = gw_queue w" "gw_closed (run_batch sa b w) = gw_closed w"
  "gw_submitted (run_batch sa b w) = gw_submitted w" "gw_max_batch_size (run_batch sa b w) = gw_max_batch_size w"
  "gw_phase (run_batch sa b w) = gw_phase w" "gw_others (run_batch sa b w) = gw_others w"
  by (auto simp: run_batch_def abort_batch_def Let_def split: prod.split sum.split option.split)

text \<open>
  The labels an operation shows. A caller's operation shows itself, once, if it took effect. A step of the writer shows one
  answer for each write it was due to answer: a result or the error of the operation unless a failure was caused.
\<close>

definition caused :: "storage_answers \<Rightarrow> ('db, 'e, 'v) group_writer \<Rightarrow> 'e write_failure set" where
  "caused sa w = (case gw_phase w of
     Batch _ _ \<Rightarrow> storage_failures sa (gw_connection w)
   | Opening \<Rightarrow> if sa_connect sa = None then {} else {Writer_Closed}
   | Leaving \<Rightarrow> {Writer_Closed}
   | _ \<Rightarrow> {})"

definition due :: "storage_answers \<Rightarrow> ('db, 'e, 'v) group_writer \<Rightarrow> ('db, 'e, 'v) pending_write list" where
  "due sa w = (case gw_phase w of
     Batch b _ \<Rightarrow> b
   | Opening \<Rightarrow> if sa_connect sa = None then [] else queued (gw_queue w)
   | Leaving \<Rightarrow> queued (gw_queue w)
   | _ \<Rightarrow> [])"

definition gw_shows :: "('db, 'e, 'v) writer_op \<Rightarrow> ('db, 'e, 'v) group_writer \<Rightarrow> ('db, 'e, 'v) service list \<Rightarrow> bool" where
  "gw_shows op w ls = (case op of
     Submit f prepare \<Rightarrow>
       ls = (if gw_closed w then [] else [Takes \<lparr>pw_apply = f, pw_prepare = prepare, pw_future = length (gw_futures w)\<rparr>])
   | Close \<Rightarrow> ls = []
   | Cancel i \<Rightarrow> ls = (if i < length (gw_futures w) \<and> gw_futures w ! i = Pending then [Cancels i] else [])
   | Direct f \<Rightarrow> ls = (if cn_open (gw_connection w) = None then [Other f] else [])
   | Writer sa \<Rightarrow> length ls = length (due sa w) \<and> list_all (answers (visible (gw_connection w)) (caused sa w)) ls)"

definition refines_service :: "('db, 'e, 'v) writer_op \<Rightarrow> ('db, 'e, 'v) group_writer \<Rightarrow> bool" where
  "refines_service op w \<longleftrightarrow> gw_inv (gw_step op w) \<and> (\<exists>ls. gw_shows op w ls \<and> run serve_step ls (gw_abs w) (gw_abs (gw_step op w)))"

lemma refines_silent:
  assumes "gw_step op w = w'" and "gw_inv w' \<and> gw_abs w' = gw_abs w" and "gw_shows op w []"
  shows "refines_service op w"
  using assms unfolding refines_service_def by (metis run.stop)

lemma refines_move:
  assumes "gw_step op w = w'" and "gw_inv w'" and "serve_step l (gw_abs w) (gw_abs w')" and "gw_shows op w [l]"
  shows "refines_service op w"
  using assms unfolding refines_service_def by (metis run_one)

text \<open>A step of the writer that is due no answer, and one that gives them.\<close>

lemma writer_silent:
  assumes "writer_step sa w = w'" and "gw_inv w' \<and> gw_abs w' = gw_abs w" and "due sa w = []"
  shows "refines_service (Writer sa) w"
  by (rule refines_silent [OF _ assms(2)]) (use assms in \<open>simp_all add: gw_step_def gw_shows_def\<close>)

lemma writer_answers:
  assumes w': "writer_step sa w = w'"
    and out: "outcomes_of (visible (gw_connection w)) (caused sa w) (due sa w) db xs db'"
    and served: "gw_inv w' \<and> run serve_step (map (service_of (visible (gw_connection w))) xs) (gw_abs w) (gw_abs w')"
  shows "refines_service (Writer sa) w"
proof -
  have "gw_shows (Writer sa) w (map (service_of (visible (gw_connection w))) xs)"
    using outcomes_length [OF out] outcomes_answer [OF out] by (simp add: gw_shows_def)
  then show ?thesis using served w' unfolding refines_service_def by (auto simp: gw_step_def)
qed

lemma fail_pending_refines:
  assumes inv: "gw_inv w" and idle: "phase_batch (gw_phase w) = []"
    and step: "writer_step sa w = (fail_pending w)\<lparr>gw_phase := Exited\<rparr>" "due sa w = queued (gw_queue w)" "caused sa w = {Writer_Closed}"
  shows "refines_service (Writer sa) w"
proof -
  let ?d = "visible (gw_connection w)" and ?xs = "replicate (length (queued (gw_queue w))) (Some (Exception Writer_Closed))"
  have q: "held w = queued (gw_queue w)" using idle by (simp add: held_def)
  have f: "fail_queue (gw_queue w) (gw_futures w) = (settle_list (queued (gw_queue w)) ?xs (gw_futures w), [])"
    using fail_queue_answers held_open [OF inv] by (simp add: q)
  have "gw_inv ((fail_pending w)\<lparr>gw_phase := Exited\<rparr>)
      \<and> run serve_step (map (service_of ?d) ?xs) (gw_abs w) (gw_abs ((fail_pending w)\<lparr>gw_phase := Exited\<rparr>))"
    by (rule answered_inv [OF inv, where b = "queued (gw_queue w)" and F = "{Writer_Closed}"])
      (simp_all add: q f idle held_def fail_pending_def stopping_ok_def closed_outcomes)
  then show ?thesis by (rule writer_answers [OF step(1), rotated]) (unfold step(2,3), rule closed_outcomes)
qed

lemma writer_queue:
  assumes "gw_inv w" and "gw_phase w = Waiting \<or> gw_phase w = Draining b"
  obtains ps where "gw_queue w = map Some ps @ (if gw_closed w then [None] else [])"
  using assms by (auto simp: gw_inv_def stopping_ok_def)

lemma waiting_refines:
  assumes inv: "gw_inv w" and ph: "gw_phase w = Waiting"
  shows "refines_service (Writer sa) w"
proof -
  obtain ps where q: "gw_queue w = map Some ps @ (if gw_closed w then [None] else [])"
    using writer_queue [OF inv] ph by blast
  have due: "due sa w = []" using ph by (simp add: due_def)
  show ?thesis
  proof (cases ps)
    case Nil
    then show ?thesis using inv q ph moved_inv [OF inv, of "w\<lparr>gw_queue := [], gw_phase := Leaving\<rparr>"]
      by (intro writer_silent [OF refl _ due]) (cases "gw_closed w"; simp add: writer_step_def held_def stopping_ok_def)
  next
    case (Cons p ps')
    let ?w = "w\<lparr>gw_queue := map Some ps' @ (if gw_closed w then [None] else []), gw_phase := Draining [p]\<rparr>"
    have "0 < gw_max_batch_size w" using inv by (simp add: gw_inv_def)
    then have "gw_inv ?w \<and> gw_abs ?w = gw_abs w"
      by (intro moved_inv [OF inv]) (use q ph Cons in \<open>auto simp: held_def stopping_ok_def\<close>)
    then show ?thesis using q ph Cons by (intro writer_silent [OF _ _ due, of ?w]) (simp_all add: writer_step_def)
  qed
qed

lemma draining_refines:
  assumes inv: "gw_inv w" and ph: "gw_phase w = Draining b"
  shows "refines_service (Writer sa) w"
proof -
  obtain ps where q: "gw_queue w = map Some ps @ (if gw_closed w then [None] else [])"
    using writer_queue [OF inv] ph by blast
  have bound: "length b \<le> gw_max_batch_size w" using inv ph by (simp add: gw_inv_def)
  let ?moved = "\<lambda>w'. gw_inv w' \<and> gw_abs w' = gw_abs w"
  have full: "?moved (w\<lparr>gw_phase := Batch b False\<rparr>)"
    by (rule moved_inv [OF inv]) (use bound q ph in \<open>simp_all add: held_def stopping_ok_def\<close>)
  have last: "?moved (w\<lparr>gw_queue := [], gw_phase := Batch b True\<rparr>)" if "gw_closed w" "ps = []"
    by (rule moved_inv [OF inv]) (use that bound q ph in \<open>simp_all add: held_def stopping_ok_def\<close>)
  have more: "?moved (w\<lparr>gw_queue := map Some ps' @ (if gw_closed w then [None] else []), gw_phase := Draining (b @ [p])\<rparr>)"
    if "ps = p # ps'" "length b < gw_max_batch_size w" for p ps'
    by (rule moved_inv [OF inv]) (use that q ph in \<open>auto simp: held_def stopping_ok_def\<close>)
  have "?moved (writer_step sa w)" using full last more q ph by (cases ps) (simp_all add: writer_step_def)
  then show ?thesis by (rule writer_silent [OF refl]) (simp add: due_def ph)
qed

lemma batch_refines:
  assumes inv: "gw_inv w" and ph: "gw_phase w = Batch b stop"
  shows "refines_service (Writer sa) w"
proof -
  let ?w = "(run_batch sa b w)\<lparr>gw_phase := (if stop then Leaving else Waiting)\<rparr>"
  have h: "held w = b @ held ?w" using ph by (simp add: held_def)
  then have "batch_open b (gw_futures w)" using held_open [OF inv] batch_open_append by metis
  from run_batch_outcomes [OF this, of sa] obtain xs where xs:
    "outcomes_of (visible (gw_connection w)) (storage_failures sa (gw_connection w)) b
      (cn_durable (gw_connection w)) xs (cn_durable (gw_connection (run_batch sa b w)))"
    "gw_futures (run_batch sa b w) = settle_list b xs (gw_futures w)"
    "\<And>k. k < length b \<Longrightarrow> xs ! k = None \<Longrightarrow> gw_futures w ! pw_future (b ! k) = Cancelled" by blast
  have "stopping_ok ?w" using inv ph by (cases stop) (auto simp: stopping_ok_def gw_inv_def)
  then have "gw_inv ?w \<and> run serve_step (map (service_of (visible (gw_connection w))) xs) (gw_abs w) (gw_abs ?w)"
    by (intro answered_inv [OF inv h, where xs = xs and F = "storage_failures sa (gw_connection w)"]) (use xs in simp_all)
  then show ?thesis using xs(1) ph
    by (intro writer_answers [where xs = xs]) (simp_all add: writer_step_def due_def caused_def)
qed

lemma writer_step_refines:
  assumes inv: "gw_inv w"
  shows "refines_service (Writer sa) w"
proof (cases "gw_phase w")
  case Opening
  have "gw_inv (w\<lparr>gw_phase := Waiting\<rparr>) \<and> gw_abs (w\<lparr>gw_phase := Waiting\<rparr>) = gw_abs w"
    by (rule moved_inv [OF inv]) (use inv Opening in \<open>simp_all add: held_def stopping_ok_def gw_inv_def\<close>)
  then have "refines_service (Writer sa) w" if "sa_connect sa = None"
    by (rule writer_silent [rotated]) (use Opening that in \<open>simp_all add: writer_step_def due_def\<close>)
  moreover have "refines_service (Writer sa) w" if "sa_connect sa \<noteq> None"
    by (rule fail_pending_refines [OF inv]) (use Opening that in \<open>auto simp: writer_step_def due_def caused_def\<close>)
  ultimately show ?thesis by blast
next
  case Leaving
  then show ?thesis by (intro fail_pending_refines [OF inv]) (simp_all add: writer_step_def due_def caused_def)
next
  case Exited
  then show ?thesis using inv by (intro writer_silent [OF refl]) (simp_all add: writer_step_def due_def)
qed (simp_all add: waiting_refines [OF inv] draining_refines [OF inv] batch_refines [OF inv])

lemma enqueue_refines:
  assumes inv: "gw_inv w"
  shows "refines_service (Submit f prepare) w"
proof (cases "gw_closed w")
  case True
  then show ?thesis using inv by (intro refines_silent [OF refl]) (simp_all add: gw_step_def enqueue_def gw_shows_def)
next
  case False
  define p where "p = \<lparr>pw_apply = f, pw_prepare = prepare, pw_future = length (gw_futures w)\<rparr>"
  let ?w = "w\<lparr>gw_queue := gw_queue w @ [Some p], gw_futures := gw_futures w @ [Pending], gw_submitted := gw_submitted w @ [p]\<rparr>"
  have id: "pw_future p = length (gw_submitted w)" using inv by (simp add: p_def gw_inv_def futures_ok_def)
  have held: "held ?w = held w @ [p]" by (simp add: held_def)
  then have n: "served ?w = served w" by (simp add: served_def)
  have "stopping_ok ?w"
  proof -
    have "\<exists>ps. gw_queue w = map Some ps" using inv False
      by (auto simp: gw_inv_def stopping_ok_def split: writer_phase.splits bool.splits)
    then obtain ps where "gw_queue w = map Some ps" ..
    then have "\<exists>ps. gw_queue w @ [Some p] = map Some ps" by (intro exI [of _ "ps @ [p]"]) simp
    then show ?thesis using inv False
      by (auto simp: gw_inv_def stopping_ok_def split: writer_phase.splits bool.splits)
  qed
  moreover have "futures_ok ?w"
    using inv held_bound [OF inv] id unfolding futures_ok_def n
    by (auto simp: gw_inv_def futures_ok_def nth_append less_Suc_eq served_def)
  moreover have "held ?w = drop (served ?w) (gw_submitted ?w)"
    using inv unfolding held n by (simp add: gw_inv_def served_def)
  ultimately have "gw_inv ?w" using inv by (simp add: gw_inv_def)
  moreover have "serve_step (Takes p) (gw_abs w) (gw_abs ?w)"
    using serve_step.takes [of p "gw_abs w"] id by (simp add: gw_abs_def n)
  moreover have "gw_step (Submit f prepare) w = ?w" using False by (simp add: gw_step_def enqueue_def p_def Let_def)
  ultimately show ?thesis by (intro refines_move) (simp_all add: gw_shows_def False p_def)
qed

lemma gw_step_refines:
  assumes inv: "gw_inv w"
  shows "refines_service op w"
proof (cases op)
  case (Submit f prepare)
  then show ?thesis using enqueue_refines [OF inv] by simp
next
  case Close
  let ?w = "w\<lparr>gw_closed := True, gw_queue := gw_queue w @ [None]\<rparr>"
  have "stopping_ok ?w" if "\<not> gw_closed w"
    using inv that by (auto simp: gw_inv_def stopping_ok_def split: writer_phase.splits bool.splits)
  then have "gw_inv ?w \<and> gw_abs ?w = gw_abs w" if "\<not> gw_closed w"
    using that by (intro moved_inv [OF inv]) (use inv in \<open>simp_all add: held_def gw_inv_def\<close>)
  then show ?thesis using Close inv
    by (intro refines_silent [OF refl]) (simp_all add: gw_step_def close_def gw_shows_def)
next
  case (Cancel i)
  let ?w = "w\<lparr>gw_futures := (gw_futures w)[i := Cancelled]\<rparr>"
  show ?thesis
  proof (cases "i < length (gw_futures w) \<and> gw_futures w ! i = Pending")
    case True
    have same: "held ?w = held w" "served ?w = served w" "stopping_ok ?w = stopping_ok w"
      by (simp_all add: held_def served_def stopping_ok_def split: writer_phase.split bool.split)
    moreover have "futures_ok ?w"
      using inv True unfolding futures_ok_def same by (auto simp: gw_inv_def futures_ok_def nth_list_update)
    ultimately have "gw_inv ?w" using inv by (simp add: gw_inv_def)
    moreover have "serve_step (Cancels i) (gw_abs w) (gw_abs ?w)"
      using serve_step.cancels [of "gw_abs w" i] True same(2) by (simp add: gw_abs_def)
    ultimately show ?thesis
      by (intro refines_move) (use Cancel True in \<open>simp_all add: gw_step_def cancel_future_def gw_shows_def\<close>)
  next
    case False
    then show ?thesis using Cancel inv
      by (intro refines_silent [OF refl]) (auto simp: gw_step_def cancel_future_def gw_shows_def)
  qed
next
  case (Direct f)
  let ?w = "w\<lparr>gw_connection := (gw_connection w)\<lparr>cn_durable := transact f (cn_durable (gw_connection w))\<rparr>,
    gw_others := gw_others w @ [f]\<rparr>"
  show ?thesis
  proof (cases "cn_open (gw_connection w) = None")
    case True
    have same: "held ?w = held w" "served ?w = served w" "stopping_ok ?w = stopping_ok w"
      by (simp_all add: held_def served_def stopping_ok_def split: writer_phase.split bool.split)
    then have "gw_inv ?w" using inv by (simp add: gw_inv_def futures_ok_def)
    moreover have "serve_step (Other f) (gw_abs w) (gw_abs ?w)"
      using serve_step.other [of f "gw_abs w"] same(2) by (simp add: gw_abs_def)
    ultimately show ?thesis by (intro refines_move) (use Direct True in \<open>simp_all add: gw_step_def gw_shows_def\<close>)
  next
    case False
    then show ?thesis using Direct inv by (intro refines_silent [OF refl]) (auto simp: gw_step_def gw_shows_def)
  qed
next
  case (Writer sa)
  then show ?thesis using writer_step_refines [OF inv] by simp
qed

lemma fresh_writer_inv: "gw_inv (fresh_writer (Suc n) db)"
  by (simp add: fresh_writer_def gw_inv_def futures_ok_def stopping_ok_def held_def served_def)

interpretation group_commit: labelled_refinement gw_step "\<lambda>_. True" "fresh_writer (Suc n) db" gw_inv gw_abs serve_step gw_shows
  for n db
proof
  show "gw_inv (fresh_writer (Suc n) db)" by (rule fresh_writer_inv)
  show "gw_inv (gw_step op s)" if "gw_inv s" for s op
    using gw_step_refines [OF that] by (simp add: refines_service_def)
  show "\<exists>ls. gw_shows op s ls \<and> run serve_step ls (gw_abs s) (gw_abs (gw_step op s))" if "gw_inv s" for s op
    using gw_step_refines [OF that] by (simp add: refines_service_def)
qed

section \<open>What was acknowledged\<close>

text \<open>
  A history of the database: the writes that took effect, in order, each with its future and the value it returned, and
  between them the given transactions of other connections, each of them once and in their order.
\<close>

inductive history :: "('db, 'e, 'v) pending_write list \<Rightarrow> 'db \<Rightarrow> ('db \<Rightarrow> 'e + 'db) list \<Rightarrow> (nat \<times> 'v) list \<Rightarrow> 'db \<Rightarrow> bool"
  for subs :: "('db, 'e, 'v) pending_write list" and start :: 'db where
  start: "history subs start [] [] start"
| wrote: "history subs start os h db \<Longrightarrow> (\<And>i v. (i, v) \<in> set h \<Longrightarrow> i < n) \<Longrightarrow> n < length subs \<Longrightarrow>
    decide d (subs ! n) = Inr f \<Longrightarrow> f db = (Inr v, db') \<Longrightarrow> history subs start os (h @ [(n, v)]) db'"
| other: "history subs start os h db \<Longrightarrow> history subs start (os @ [f]) h (transact f db)"

lemma history_sorted: "history subs start os h db \<Longrightarrow> sorted_wrt (<) (map fst h)"
  by (induction rule: history.induct) (auto simp: sorted_wrt_append)

lemma history_more: "history subs start os h db \<Longrightarrow> history (subs @ [p]) start os h db"
  by (induction rule: history.induct) (auto intro: history.intros simp: nth_append)

definition acknowledged :: "'db \<Rightarrow> ('db, 'e, 'v) served_queue \<Rightarrow> bool" where
  "acknowledged start s \<longleftrightarrow> length (sq_futures s) = length (sq_submitted s)
     \<and> (\<forall>i. sq_served s \<le> i \<longrightarrow> i < length (sq_futures s) \<longrightarrow> sq_futures s ! i \<in> {Pending, Cancelled})
     \<and> (\<exists>h. history (sq_submitted s) start (sq_others s) h (sq_db s)
          \<and> (\<forall>(i, v) \<in> set h. i < sq_served s \<and> i < length (sq_futures s) \<and> sq_futures s ! i \<in> {Result v, Notified})
          \<and> (\<forall>i < length (sq_futures s). \<forall>v. sq_futures s ! i = Result v \<longrightarrow> (i, v) \<in> set h))"

lemma acknowledgedE:
  assumes "acknowledged start s"
  obtains h where "history (sq_submitted s) start (sq_others s) h (sq_db s)" "length (sq_futures s) = length (sq_submitted s)"
    "\<And>i. sq_served s \<le> i \<Longrightarrow> i < length (sq_futures s) \<Longrightarrow> sq_futures s ! i \<in> {Pending, Cancelled}"
    "\<And>i v. (i, v) \<in> set h \<Longrightarrow> i < sq_served s \<and> i < length (sq_futures s) \<and> sq_futures s ! i \<in> {Result v, Notified}"
    "\<And>i v. i < length (sq_futures s) \<Longrightarrow> sq_futures s ! i = Result v \<Longrightarrow> (i, v) \<in> set h"
  using assms unfolding acknowledged_def by blast

lemma acknowledgedI:
  assumes "history (sq_submitted s) start (sq_others s) h (sq_db s)" "length (sq_futures s) = length (sq_submitted s)"
    "\<And>i. sq_served s \<le> i \<Longrightarrow> i < length (sq_futures s) \<Longrightarrow> sq_futures s ! i \<in> {Pending, Cancelled}"
    "\<And>i v. (i, v) \<in> set h \<Longrightarrow> i < sq_served s \<and> i < length (sq_futures s) \<and> sq_futures s ! i \<in> {Result v, Notified}"
    "\<And>i v. i < length (sq_futures s) \<Longrightarrow> sq_futures s ! i = Result v \<Longrightarrow> (i, v) \<in> set h"
  shows "acknowledged start s"
  unfolding acknowledged_def using assms by (intro conjI exI [of _ h]) auto

text \<open>An answer other than a result leaves the history as it is; a result adds to it.\<close>

lemma acknowledged_answer:
  assumes ack: "acknowledged start s" and n: "n = sq_served s" "n < length (sq_submitted s)" and x: "\<And>v. x \<noteq> Result v"
  shows "acknowledged start (s\<lparr>sq_served := Suc n, sq_futures := settle n x (sq_futures s)\<rparr>)"
  using ack
proof (rule acknowledgedE)
  fix h
  assume h: "history (sq_submitted s) start (sq_others s) h (sq_db s)" "length (sq_futures s) = length (sq_submitted s)"
    and later: "\<And>i. sq_served s \<le> i \<Longrightarrow> i < length (sq_futures s) \<Longrightarrow> sq_futures s ! i \<in> {Pending, Cancelled}"
    and kept: "\<And>i v. (i, v) \<in> set h \<Longrightarrow> i < sq_served s \<and> i < length (sq_futures s) \<and> sq_futures s ! i \<in> {Result v, Notified}"
    and known: "\<And>i v. i < length (sq_futures s) \<Longrightarrow> sq_futures s ! i = Result v \<Longrightarrow> (i, v) \<in> set h"
  have now: "settle n x (sq_futures s) ! n \<noteq> Result v" for v
    using settle_self [of n "sq_futures s" x] later [of n] n x h(2) by (auto split: future.splits)
  have "(i, v) \<in> set h" if "i < length (sq_futures s)" "settle n x (sq_futures s) ! i = Result v" for i v
    using that now known by (cases "i = n") auto
  moreover have "i < Suc n \<and> i < length (sq_futures s) \<and> settle n x (sq_futures s) ! i \<in> {Result v, Notified}"
    if "(i, v) \<in> set h" for i v
    using kept [OF that] n(1) by auto
  ultimately show ?thesis using h later n(1) by (intro acknowledgedI [where h = h]) (auto simp: Suc_le_eq)
qed

lemma acknowledged_commit:
  assumes ack: "acknowledged start s" and n: "n = sq_served s" "n < length (sq_submitted s)"
    and f: "decide d (sq_submitted s ! n) = Inr f" "f (sq_db s) = (Inr v, db')"
  shows "acknowledged start (s\<lparr>sq_served := Suc n, sq_futures := settle n (Result v) (sq_futures s), sq_db := db'\<rparr>)"
  using ack
proof (rule acknowledgedE)
  fix h
  assume h: "history (sq_submitted s) start (sq_others s) h (sq_db s)" "length (sq_futures s) = length (sq_submitted s)"
    and later: "\<And>i. sq_served s \<le> i \<Longrightarrow> i < length (sq_futures s) \<Longrightarrow> sq_futures s ! i \<in> {Pending, Cancelled}"
    and kept: "\<And>i v. (i, v) \<in> set h \<Longrightarrow> i < sq_served s \<and> i < length (sq_futures s) \<and> sq_futures s ! i \<in> {Result v, Notified}"
    and known: "\<And>i v. i < length (sq_futures s) \<Longrightarrow> sq_futures s ! i = Result v \<Longrightarrow> (i, v) \<in> set h"
  have h': "history (sq_submitted s) start (sq_others s) (h @ [(n, v)]) db'"
    by (rule history.wrote [OF h(1) _ n(2) f]) (use kept n(1) in auto)
  have now: "settle n (Result v) (sq_futures s) ! n \<in> {Result v, Notified}"
    using settle_self [of n "sq_futures s" "Result v"] later [of n] n h(2) by auto
  have "(i, u) \<in> set (h @ [(n, v)])" if "i < length (sq_futures s)" "settle n (Result v) (sq_futures s) ! i = Result u" for i u
    using that now known by (cases "i = n") auto
  moreover have "i < Suc n \<and> i < length (sq_futures s) \<and> settle n (Result v) (sq_futures s) ! i \<in> {Result u, Notified}"
    if "(i, u) \<in> set (h @ [(n, v)])" for i u
    using kept [of i u] that now n h(2) by (cases "i = n") auto
  ultimately show ?thesis using h' h(2) later n(1)
    by (intro acknowledgedI [where h = "h @ [(n, v)]"]) (auto simp: Suc_le_eq)
qed

lemma acknowledged_cancel:
  assumes ack: "acknowledged start s" and i: "sq_futures s ! i = Pending"
  shows "acknowledged start (s\<lparr>sq_futures := (sq_futures s)[i := Cancelled]\<rparr>)"
  using ack
proof (rule acknowledgedE)
  fix h
  assume h: "history (sq_submitted s) start (sq_others s) h (sq_db s)" "length (sq_futures s) = length (sq_submitted s)"
    and later: "\<And>i. sq_served s \<le> i \<Longrightarrow> i < length (sq_futures s) \<Longrightarrow> sq_futures s ! i \<in> {Pending, Cancelled}"
    and kept: "\<And>i v. (i, v) \<in> set h \<Longrightarrow> i < sq_served s \<and> i < length (sq_futures s) \<and> sq_futures s ! i \<in> {Result v, Notified}"
    and known: "\<And>i v. i < length (sq_futures s) \<Longrightarrow> sq_futures s ! i = Result v \<Longrightarrow> (i, v) \<in> set h"
  have "j \<noteq> i" if "(j, v) \<in> set h" for j v using kept [OF that] i by auto
  then have "(sq_futures s)[i := Cancelled] ! j \<in> {Result v, Notified}" if "(j, v) \<in> set h" for j v
    using kept [OF that] that by (metis nth_list_update_neq)
  moreover have "(j, v) \<in> set h" if "j < length (sq_futures s)" "(sq_futures s)[i := Cancelled] ! j = Result v" for j v
    using known [OF that(1)] that by (cases "j = i") auto
  moreover have "(sq_futures s)[i := Cancelled] ! j \<in> {Pending, Cancelled}" if "sq_served s \<le> j" "j < length (sq_futures s)" for j
    using later [OF that] that(2) by (cases "j = i") auto
  ultimately show ?thesis using h kept by (intro acknowledgedI [where h = h]) auto
qed

lemma acknowledged_step: "serve_step l s s' \<Longrightarrow> acknowledged start s \<Longrightarrow> acknowledged start s'"
proof (induction rule: serve_step.induct)
  case (takes p s)
  from takes.prems show ?case
    by (rule acknowledgedE) (rule acknowledgedI; fastforce simp: nth_append history_more less_Suc_eq)
next
  case (cancels s i)
  then show ?case by (intro acknowledged_cancel)
next
  case (commit n s d f v db')
  then show ?case by (intro acknowledged_commit)
next
  case (refuse n s d e)
  from acknowledged_answer [OF refuse.prems refuse.hyps(1,2)] show ?case by simp
next
  case (fail n s x d)
  from acknowledged_answer [OF fail.prems fail.hyps(1,2)] show ?case by simp
next
  case (drop n s)
  from drop.prems show ?case
  proof (rule acknowledgedE)
    fix h
    assume h: "history (sq_submitted s) start (sq_others s) h (sq_db s)" "length (sq_futures s) = length (sq_submitted s)"
      "\<And>i. sq_served s \<le> i \<Longrightarrow> i < length (sq_futures s) \<Longrightarrow> sq_futures s ! i \<in> {Pending, Cancelled}"
      "\<And>i v. (i, v) \<in> set h \<Longrightarrow> i < sq_served s \<and> i < length (sq_futures s) \<and> sq_futures s ! i \<in> {Result v, Notified}"
      "\<And>i v. i < length (sq_futures s) \<Longrightarrow> sq_futures s ! i = Result v \<Longrightarrow> (i, v) \<in> set h"
    have "i < Suc (sq_served s)" if "(i, v) \<in> set h" for i v using h(4) [OF that] by simp
    then show ?thesis by (intro acknowledgedI [where h = h]) (use h drop.hyps(1) in \<open>auto simp: Suc_le_eq\<close>)
  qed
next
  case (other f s)
  from other show ?case
  proof (rule acknowledgedE)
    fix h
    assume h: "history (sq_submitted s) start (sq_others s) h (sq_db s)" "length (sq_futures s) = length (sq_submitted s)"
      "\<And>i. sq_served s \<le> i \<Longrightarrow> i < length (sq_futures s) \<Longrightarrow> sq_futures s ! i \<in> {Pending, Cancelled}"
      "\<And>i v. (i, v) \<in> set h \<Longrightarrow> i < sq_served s \<and> i < length (sq_futures s) \<and> sq_futures s ! i \<in> {Result v, Notified}"
      "\<And>i v. i < length (sq_futures s) \<Longrightarrow> sq_futures s ! i = Result v \<Longrightarrow> (i, v) \<in> set h"
    show ?thesis by (rule acknowledgedI [where h = h]) (use h history.other [OF h(1), of f] in auto)
  qed
qed

lemma acknowledged_run: "run serve_step ls s s' \<Longrightarrow> acknowledged start s \<Longrightarrow> acknowledged start s'"
  by (rule run_keeps [OF _ acknowledged_step])

end
