(* ===== verification/Group_Commit_Answers.thy ===== *)
theory Group_Commit_Answers
  imports Group_Commit_Refinement
begin

text \<open>
  What callers of the group-commit writer may rely on: writes take effect one at a time and in order, an acknowledged write is
  in the durable database and an unacknowledged one that failed is not, and every caller gets an answer.
\<close>

section \<open>The writer finishes\<close>

text \<open>A bound on the steps of the writer until it has served what it has, by its phase and the items in its queue.\<close>

definition phase_rank :: "('db, 'e, 'v) writer_phase \<Rightarrow> nat" where
  "phase_rank ph = (case ph of Opening \<Rightarrow> 2 | Waiting \<Rightarrow> 1 | Draining _ \<Rightarrow> 3 | Batch _ _ \<Rightarrow> 2 | Leaving \<Rightarrow> 1 | Exited \<Rightarrow> 0)"

definition work_left :: "('db, 'e, 'v) group_writer \<Rightarrow> nat" where
  "work_left w = 3 * length (gw_queue w) + phase_rank (gw_phase w)"

definition resting :: "('db, 'e, 'v) group_writer \<Rightarrow> bool" where
  "resting w \<longleftrightarrow> gw_phase w = Exited \<or> gw_phase w = Waiting \<and> gw_queue w = []"

lemma fail_pending_queue: "gw_inv w \<Longrightarrow> phase_batch (gw_phase w) = [] \<Longrightarrow> gw_queue (fail_pending w) = []"
  using fail_queue_answers [of "gw_queue w" "gw_futures w"] held_open [of w]
  by (simp add: fail_pending_def held_def)

lemma writer_step_works:
  assumes "gw_inv w" and "\<not> resting w"
  shows "work_left (writer_step sa w) < work_left w"
proof (cases "gw_phase w")
  case Opening
  then show ?thesis using fail_pending_queue [OF assms(1)] by (simp add: writer_step_def work_left_def phase_rank_def)
next
  case Waiting
  then show ?thesis using assms(2)
    by (auto simp: writer_step_def work_left_def phase_rank_def resting_def split: list.split option.split)
next
  case (Draining b)
  then show ?thesis by (auto simp: writer_step_def work_left_def phase_rank_def split: list.split option.split)
next
  case (Batch b stop)
  then show ?thesis by (simp add: writer_step_def work_left_def phase_rank_def)
next
  case Leaving
  then show ?thesis using fail_pending_queue [OF assms(1)] by (simp add: writer_step_def work_left_def phase_rank_def)
next
  case Exited
  then show ?thesis using assms(2) by (simp add: resting_def)
qed

lemma resting_stays: "resting w \<Longrightarrow> writer_step sa w = w"
  by (auto simp: resting_def writer_step_def)

lemma resting_fold: "resting w \<Longrightarrow> fold writer_step sas w = w"
  by (induction sas) (auto simp: resting_stays)

lemma writer_comes_to_rest:
  assumes "gw_inv w" and "work_left w \<le> length sas"
  shows "resting (fold writer_step sas w)"
  using assms
proof (induction sas arbitrary: w)
  case Nil
  then show ?case by (auto simp: work_left_def phase_rank_def resting_def split: writer_phase.splits)
next
  case (Cons sa sas)
  show ?case
  proof (cases "resting w")
    case True
    then show ?thesis using resting_fold [OF True, of "sa # sas"] by simp
  next
    case False
    have "gw_inv (writer_step sa w)"
      using writer_step_refines [OF Cons.prems(1)] by (simp add: refines_service_def gw_step_def)
    moreover have "work_left (writer_step sa w) \<le> length sas"
      using writer_step_works [OF Cons.prems(1) False, of sa] Cons.prems(2) by simp
    ultimately show ?thesis using Cons.IH by simp
  qed
qed

lemma resting_answered:
  assumes "gw_inv w" and "resting w"
  shows "\<forall>f \<in> set (gw_futures w). f \<noteq> Pending"
proof -
  have "held w = []" using assms by (auto simp: resting_def held_def gw_inv_def stopping_ok_def)
  then have "served w = length (gw_futures w)" using assms(1) by (simp add: served_def gw_inv_def futures_ok_def)
  then show ?thesis using assms(1) by (auto simp: gw_inv_def futures_ok_def in_set_conv_nth)
qed

section \<open>A serial reading of the database\<close>

lemma shuffles_behind: "ys @ zs \<in> shuffles zs ys"
  by (induction ys) (auto intro: Cons_in_shuffles_rightI)

lemma shuffles_append: "ws \<in> shuffles xs ys \<Longrightarrow> ws @ zs \<in> shuffles (xs @ zs) ys"
proof (induction xs ys arbitrary: ws rule: shuffles.induct)
  case (1 ys)
  then show ?case by (simp add: shuffles_behind)
qed (auto intro: Cons_in_shuffles_leftI Cons_in_shuffles_rightI)

lemma shuffles_append_right: "ws \<in> shuffles xs ys \<Longrightarrow> ws @ zs \<in> shuffles xs (ys @ zs)"
  using shuffles_append [of ws ys xs zs] by (simp add: shuffles_commutes)

text \<open>
  The contract between the writer and a client that submits calls: a call that returns a value performed itself, with that
  value, on the database it found. The durable database is then what the calls that took effect and the transactions of the
  other connections, merged, make of the first one when they are performed one after the other.
\<close>

definition serial_move :: "('call \<Rightarrow> 'v \<Rightarrow> 'db \<Rightarrow> 'db \<Rightarrow> bool) \<Rightarrow> ('op \<Rightarrow> 'db \<Rightarrow> 'db) \<Rightarrow> 'call \<times> 'v + 'op \<Rightarrow> 'db \<Rightarrow> 'db \<Rightarrow> bool" where
  "serial_move performs step l db db' = (case l of Inl (call, v) \<Rightarrow> performs call v db db' | Inr op \<Rightarrow> db' = step op db)"

locale serial_client =
  fixes step :: "'op \<Rightarrow> 'db \<Rightarrow> 'db" and submit :: "'call \<Rightarrow> ('db, 'e, 'v) writer_op" and performs :: "'call \<Rightarrow> 'v \<Rightarrow> 'db \<Rightarrow> 'db \<Rightarrow> bool"
  assumes plain: "submit call = Submit f None \<Longrightarrow> f db = (Inr v, db') \<Longrightarrow> performs call v db db'"
    and prepared: "submit call = Submit f (Some prepare) \<Longrightarrow> prepare d = Inr g \<Longrightarrow> g db = (Inr v, db') \<Longrightarrow> performs call v db db'"
begin

lemma decided_performs:
  assumes "submit call = Submit (pw_apply p) (pw_prepare p)" and "decide d p = Inr f" and "f db = (Inr v, db')"
  shows "performs call v db db'"
  using assms plain [of call "pw_apply p" db v db'] prepared [of call "pw_apply p" _ d f db v db']
  by (cases "pw_prepare p") (auto simp: decide_def)

lemma history_is_serial:
  assumes "history subs start fs h db" and "map (\<lambda>p. Submit (pw_apply p) (pw_prepare p)) subs = map submit calls"
    and "list_all2 (\<lambda>f op. \<forall>db. transact f db = step op db) fs theirs"
  shows "\<exists>ls \<in> shuffles (map (\<lambda>(i, v). Inl (calls ! i, v)) h) (map Inr theirs). run (serial_move performs step) ls start db"
  using assms(1,3)
proof (induction arbitrary: theirs rule: history.induct)
  case start
  then show ?case by (simp add: run.stop)
next
  case (wrote fs h db n d f v db')
  from wrote.IH [OF wrote.prems] obtain ls where ls: "ls \<in> shuffles (map (\<lambda>(i, v). Inl (calls ! i, v)) h) (map Inr theirs)"
    "run (serial_move performs step) ls start db" by blast
  have "submit (calls ! n) = Submit (pw_apply (subs ! n)) (pw_prepare (subs ! n))"
    using arg_cong [OF assms(2), of "\<lambda>xs. xs ! n"] map_eq_imp_length_eq [OF assms(2)] wrote.hyps(3) by simp
  from decided_performs [OF this wrote.hyps(4,5)] have "serial_move performs step (Inl (calls ! n, v)) db db'"
    by (simp add: serial_move_def)
  then show ?case using shuffles_append [OF ls(1), of "[Inl (calls ! n, v)]"] run_append [OF ls(2) run_one] by force
next
  case (other fs h db f)
  then obtain theirs' op where t: "theirs = theirs' @ [op]" "list_all2 (\<lambda>f op. \<forall>db. transact f db = step op db) fs theirs'"
    "\<forall>db. transact f db = step op db"
    by (auto simp: list_all2_append1 list_all2_Cons1)
  from other.IH [OF t(2)] obtain ls where ls: "ls \<in> shuffles (map (\<lambda>(i, v). Inl (calls ! i, v)) h) (map Inr theirs')"
    "run (serial_move performs step) ls start db" by blast
  have "serial_move performs step (Inr op) db (transact f db)" using t(3) by (simp add: serial_move_def)
  then show ?case using shuffles_append_right [OF ls(1), of "[Inr op]"] run_append [OF ls(2) run_one] t(1) by force
qed

end

text \<open>The acknowledged writes of a reachable writer, as a history.\<close>

lemma reachable_acknowledged:
  assumes "reachable gw_step (\<lambda>_. True) (fresh_writer (Suc n) db) w"
  obtains h where "history (gw_submitted w) db (gw_others w) h (cn_durable (gw_connection w))" "sorted_wrt (<) (map fst h)"
    "\<And>i v. i < length (gw_futures w) \<Longrightarrow> gw_futures w ! i = Result v \<Longrightarrow> (i, v) \<in> set h"
    "\<And>i v. (i, v) \<in> set h \<Longrightarrow> i < length (gw_futures w) \<and> gw_futures w ! i \<in> {Result v, Notified}"
proof -
  have "acknowledged db (gw_abs (fresh_writer (Suc n) db))"
    by (auto simp: acknowledged_def gw_abs_def fresh_writer_def served_def held_def intro: history.start)
  moreover obtain ls where "run serve_step ls (gw_abs (fresh_writer (Suc n) db)) (gw_abs w)"
    using group_commit.reachable_run [OF assms] ..
  ultimately have "acknowledged db (gw_abs w)" by (rule acknowledged_run [rotated])
  then show thesis
  proof (rule acknowledgedE)
    fix h
    assume h: "history (sq_submitted (gw_abs w)) db (sq_others (gw_abs w)) h (sq_db (gw_abs w))"
      and kept: "\<And>i v. (i, v) \<in> set h \<Longrightarrow> i < sq_served (gw_abs w) \<and> i < length (sq_futures (gw_abs w))
        \<and> sq_futures (gw_abs w) ! i \<in> {Result v, Notified}"
      and known: "\<And>i v. i < length (sq_futures (gw_abs w)) \<Longrightarrow> sq_futures (gw_abs w) ! i = Result v \<Longrightarrow> (i, v) \<in> set h"
    show thesis
      by (rule that [of h]) (use h kept known history_sorted [OF h] in \<open>simp_all add: gw_abs_def\<close>)
  qed
qed

text \<open>Steps of the writer do not touch the records of what was submitted and of what others ran.\<close>

lemma writer_step_logs: "gw_submitted (writer_step sa w) = gw_submitted w" "gw_others (writer_step sa w) = gw_others w"
  by (simp_all add: writer_step_def fail_pending_def Let_def split: writer_phase.split prod.split list.split option.split)

lemma writer_logs:
  "gw_submitted (fold gw_step (replicate k (Writer sa)) w) = gw_submitted w"
  "gw_others (fold gw_step (replicate k (Writer sa)) w) = gw_others w"
  by (induction k arbitrary: w) (simp_all add: gw_step_def writer_step_logs)

section \<open>A sample run\<close>

text \<open>
  Three writes to a counter, the second of which raises after it has changed the counter, the third cancelled by its caller
  while queued. Batches hold two writes; SQLite answers every statement.
\<close>

definition healthy :: storage_answers where
  "healthy = \<lparr>sa_connect = None, sa_begin = None, sa_savepoint = (\<lambda>_. None), sa_rollback_to = (\<lambda>_. None),
     sa_release = (\<lambda>_. None), sa_commit = None, sa_unwind = None, sa_rollback = None\<rparr>"

definition sample_add :: "int \<Rightarrow> (int, string, int) db_write" where
  "sample_add k = (\<lambda>db. if k < 0 then (Inl ''negative'', db + k) else (Inr db, db + k))"

definition sample_submissions :: "(int, string, int) writer_op list" where
  "sample_submissions = [Submit (sample_add 5) None, Submit (sample_add (- 1)) None, Submit (sample_add 7) None, Cancel 2]"

abbreviation sample_writer :: "(int, string, int) writer_op list \<Rightarrow> (int, string, int) group_writer" where
  "sample_writer ops \<equiv> fold gw_step ops (fresh_writer (Suc 1) 0)"

text \<open>The writer with the first batch in its hands.\<close>

definition sample_batch :: "(int, string, int) writer_op list" where
  "sample_batch = sample_submissions @ replicate 4 (Writer healthy)"

lemma sample_batch_state:
  "length (due healthy (sample_writer sample_batch)) = 2"
  "case gw_phase (sample_writer sample_batch) of Batch _ _ \<Rightarrow> True | _ \<Rightarrow> False"
  "cn_open (gw_connection (sample_writer sample_batch)) = None" "visible (gw_connection (sample_writer sample_batch)) = 0"
  by code_simp+

lemma healthy_causes_nothing:
  assumes "case gw_phase w of Batch _ _ \<Rightarrow> True | _ \<Rightarrow> False" and "cn_open (gw_connection w) = None"
  shows "caused healthy w = {}"
  using assms by (simp add: caused_def storage_failures_def healthy_def split: writer_phase.splits)

lemma sample_writer_reachable: "reachable gw_step (\<lambda>_. True) (fresh_writer (Suc 1) 0) (sample_writer ops)"
  by (rule reachable_fold) (simp add: list_all_iff)

section \<open>Properties\<close>

text \<open>
  C9. The group-commit writer refines a queue served one write at a time. In every reachable state, whatever happens next and
  whatever SQLite answers, the step is a run of that queue with the labels the operation stands for: a submission to an open
  writer is taken once, a transaction of another connection is that transaction, and a step of the writer answers each write it
  was due to answer, oldest first, with its own result or its own error on the database as the writes before it left it. A
  write fails otherwise only with an error that one of SQLite's statements raised in this very step, or because the writer is
  exiting.
\<close>

theorem group_commit_refines_service:
  assumes "reachable gw_step (\<lambda>_. True) (fresh_writer (Suc n) db) w"
  shows "\<exists>ls. gw_shows op w ls \<and> run serve_step ls (gw_abs w) (gw_abs (gw_step op w))"
  by (rule group_commit.reachable_shows [OF assms]) simp

theorem group_commit_refines_service_witness:
  "\<exists>ls. length ls = 2 \<and> list_all (answers 0 {}) ls \<and> run serve_step ls (gw_abs (sample_writer sample_batch))
     (gw_abs (sample_writer (sample_batch @ [Writer healthy])))"
proof -
  let ?w = "sample_writer sample_batch"
  obtain ls where ls: "gw_shows (Writer healthy) ?w ls" "run serve_step ls (gw_abs ?w) (gw_abs (gw_step (Writer healthy) ?w))"
    using group_commit_refines_service [OF sample_writer_reachable] by blast
  have "length ls = 2 \<and> list_all (answers 0 {}) ls"
    using ls(1) unfolding gw_shows_def writer_op.case sample_batch_state healthy_causes_nothing [OF sample_batch_state(2,3)] .
  with ls(2) show ?thesis by auto
qed

text \<open>
  C7. Acknowledged means durable. In every reachable state the durable database is exactly what some of the submitted writes,
  each applied once and in the order of submission, and the transactions that other connections ran, each once and in their
  order, made of the database at the start. A caller holding a result is among those writes with the very value it holds; a
  write among them never gave its caller an error: at worst the caller had cancelled.
\<close>

theorem acknowledged_write_is_durable:
  assumes "reachable gw_step (\<lambda>_. True) (fresh_writer (Suc n) db) w"
  shows "\<exists>h. history (gw_submitted w) db (gw_others w) h (cn_durable (gw_connection w)) \<and> sorted_wrt (<) (map fst h)
    \<and> (\<forall>i < length (gw_futures w). \<forall>v. gw_futures w ! i = Result v \<longrightarrow> (i, v) \<in> set h)
    \<and> (\<forall>(i, v) \<in> set h. i < length (gw_futures w) \<and> gw_futures w ! i \<in> {Result v, Notified})"
proof (rule reachable_acknowledged [OF assms])
  fix h
  assume "history (gw_submitted w) db (gw_others w) h (cn_durable (gw_connection w))" "sorted_wrt (<) (map fst h)"
    "\<And>i v. i < length (gw_futures w) \<Longrightarrow> gw_futures w ! i = Result v \<Longrightarrow> (i, v) \<in> set h"
    "\<And>i v. (i, v) \<in> set h \<Longrightarrow> i < length (gw_futures w) \<and> gw_futures w ! i \<in> {Result v, Notified}"
  then show ?thesis by (intro exI [of _ h]) blast
qed

theorem acknowledged_write_is_durable_witness:
  "\<exists>h. history (gw_submitted (sample_writer (sample_batch @ [Writer healthy]))) 0 [] h 5 \<and> (0, 0) \<in> set h"
proof -
  let ?w = "sample_writer (sample_batch @ [Writer healthy])"
  have w: "cn_durable (gw_connection ?w) = 5" "gw_futures ?w ! 0 = Result 0" "0 < length (gw_futures ?w)" "length (gw_others ?w) = 0"
    by code_simp+
  obtain h where "history (gw_submitted ?w) 0 (gw_others ?w) h (cn_durable (gw_connection ?w))"
    "\<forall>i < length (gw_futures ?w). \<forall>v. gw_futures ?w ! i = Result v \<longrightarrow> (i, v) \<in> set h"
    using acknowledged_write_is_durable [OF sample_writer_reachable] by blast
  then have "history (gw_submitted ?w) 0 [] h 5" "(0, 0) \<in> set h" using w unfolding length_0_conv by simp_all
  then show ?thesis by blast
qed

text \<open>
  C8. Every caller is answered. From any reachable state, three steps of the writer thread for each queued item and three more
  resolve every future there is, whatever SQLite answers: no caller of a crashed, failing or closing writer waits for ever.
\<close>

theorem every_write_is_answered:
  assumes "reachable gw_step (\<lambda>_. True) (fresh_writer (Suc n) db) w" and "3 * length (gw_queue w) + 3 \<le> length sas"
  shows "Pending \<notin> set (gw_futures (fold gw_step (map Writer sas) w))"
proof -
  have inv: "gw_inv w" by (rule group_commit.reachable_inv [OF assms(1)])
  have run: "fold gw_step (map Writer sas) w = fold writer_step sas w" for sas and w :: "('a, 'b, 'c) group_writer"
    by (induction sas arbitrary: w) (simp_all add: gw_step_def)
  have "work_left w \<le> length sas" using assms(2) by (simp add: work_left_def phase_rank_def split: writer_phase.split)
  then have "resting (fold gw_step (map Writer sas) w)" using writer_comes_to_rest [OF inv] run by metis
  from resting_answered [OF group_commit.fold_inv [OF inv] this] show ?thesis by (auto simp: list_all_iff)
qed

theorem every_write_is_answered_witness:
  "Pending \<notin> set (gw_futures (fold gw_step (map Writer (replicate 12 healthy)) (sample_writer sample_submissions)))"
proof -
  have "length (gw_queue (sample_writer sample_submissions)) = 3" by code_simp
  then show ?thesis by (intro every_write_is_answered [OF sample_writer_reachable]) simp
qed

end
