(* ===== verification/Ledger_Writer.thy ===== *)
theory Ledger_Writer
  imports Attempt_Gates Ledger_Replay Group_Commit_Answers
begin

text \<open>
  The ledger behind its users: the two facades of \<^verbatim>\<open>src/exp/runtime/gateway/group_commit.py\<close> that queue ledger transactions
  on the writer, and the reservation that attempt selection asks of the ledger. The preparation of a chain write is an
  argument: what it raises, or the verdict its proof gives inside the transaction. So is what a transaction that raises had
  done to the working copy before the error.
\<close>

section \<open>The facades\<close>

datatype ledger_value = Wrote | Started string | Certificate bool

type_synonym chain_proof = "ledger_db \<Rightarrow> py_error option"

type_synonym ledger_write = "(ledger_db, budget_failure, ledger_value) db_write"

text \<open>A ledger transaction on the writer's connection; \<open>half\<close> is the database that one which raises leaves behind.\<close>

definition on_connection ::
    "(ledger_db \<Rightarrow> ledger_db) \<Rightarrow> (ledger_db \<Rightarrow> budget_failure + ledger_value \<times> ledger_db) \<Rightarrow> ledger_write" where
  "on_connection half f = (\<lambda>db. case f db of Inl e \<Rightarrow> (Inl e, half db) | Inr (v, db') \<Rightarrow> (Inr v, db'))"

definition accept_write ::
    "(ledger_db \<Rightarrow> ledger_db) \<Rightarrow> int \<Rightarrow> int \<Rightarrow> authorization_snapshot \<Rightarrow> chain_proof \<Rightarrow> ledger_write" where
  "accept_write half now time_left auth authority = on_connection half (\<lambda>db.
     rbind (raised (apply_accept_request (authority db) now time_left auth db)) (\<lambda>db'. Inr (Wrote, db')))"

definition start_write ::
    "(ledger_db \<Rightarrow> ledger_db) \<Rightarrow> string \<Rightarrow> int \<Rightarrow> string \<Rightarrow> execution_snapshot \<Rightarrow> attempt_start \<Rightarrow> chain_proof \<Rightarrow> ledger_write" where
  "start_write half aid now period snap a authority = on_connection half (\<lambda>db.
     rbind (apply_start_attempt (authority db) aid now period snap a db) (\<lambda>(aid', db'). Inr (Started aid', db')))"

definition finish_write :: "(ledger_db \<Rightarrow> ledger_db) \<Rightarrow> int \<Rightarrow> finish_args \<Rightarrow> ledger_write" where
  "finish_write half now a = on_connection half (\<lambda>db.
     rbind (raised (apply_finish_attempt now a db)) (\<lambda>db'. Inr (Wrote, db')))"

definition finish_request_write ::
    "(ledger_db \<Rightarrow> ledger_db) \<Rightarrow> authorization_snapshot \<Rightarrow> gateway_failure \<Rightarrow> int \<Rightarrow> bool \<Rightarrow> int \<Rightarrow> ledger_write" where
  "finish_request_write half auth f now certify searches = on_connection half (\<lambda>db.
     rbind (raised (finish_request auth f now certify searches db)) (\<lambda>(certified, db'). Inr (Certificate certified, db')))"

definition flush_write :: ledger_write where
  "flush_write = (\<lambda>db. (Inr Wrote, db))"

text \<open>A chain write is prepared on the writer before the transaction; without its proof it is applied with none.\<close>

definition chain_submit ::
    "(chain_proof \<Rightarrow> ledger_write) \<Rightarrow> (ledger_db \<Rightarrow> py_error + chain_proof) \<Rightarrow> chain_proof
      \<Rightarrow> (ledger_db, budget_failure, ledger_value) writer_op" where
  "chain_submit f prepare unproven = Submit (f unproven) (Some (\<lambda>db. rbind (raised (prepare db)) (\<lambda>proof. Inr (f proof))))"

datatype ledger_call =
    Call_Accept "ledger_db \<Rightarrow> py_error + chain_proof" chain_proof int int authorization_snapshot
  | Call_Start "ledger_db \<Rightarrow> py_error + chain_proof" chain_proof string int string execution_snapshot attempt_start
  | Call_Finish int finish_args
  | Call_Finish_Request authorization_snapshot gateway_failure int bool int
  | Call_Flush

fun ledger_submit ::
    "(ledger_call \<Rightarrow> ledger_db \<Rightarrow> ledger_db) \<Rightarrow> ledger_call \<Rightarrow> (ledger_db, budget_failure, ledger_value) writer_op" where
  "ledger_submit half (Call_Accept prepare unproven now time_left auth) =
     chain_submit (accept_write (half (Call_Accept prepare unproven now time_left auth)) now time_left auth) prepare unproven"
| "ledger_submit half (Call_Start prepare unproven aid now period snap a) =
     chain_submit (start_write (half (Call_Start prepare unproven aid now period snap a)) aid now period snap a) prepare unproven"
| "ledger_submit half (Call_Finish now a) = Submit (finish_write (half (Call_Finish now a)) now a) None"
| "ledger_submit half (Call_Finish_Request auth f now certify searches) =
     Submit (finish_request_write (half (Call_Finish_Request auth f now certify searches)) auth f now certify searches) None"
| "ledger_submit half Call_Flush = Submit flush_write None"

section \<open>Every durable state is a serial run of the ledger\<close>

text \<open>A call that takes effect with this answer: one transaction of the ledger that commits.\<close>

fun performs :: "ledger_call \<Rightarrow> ledger_value \<Rightarrow> ledger_db \<Rightarrow> ledger_db \<Rightarrow> bool" where
  "performs (Call_Accept _ _ now time_left auth) v db db' \<longleftrightarrow>
     v = Wrote \<and> apply_accept_request None now time_left auth db = Inr db'"
| "performs (Call_Start _ _ aid now period snap a) v db db' \<longleftrightarrow>
     v = Started aid \<and> apply_start_attempt None aid now period snap a db = Inr (aid, db')"
| "performs (Call_Finish now a) v db db' \<longleftrightarrow> v = Wrote \<and> apply_finish_attempt now a db = Inr db'"
| "performs (Call_Finish_Request auth f now certify searches) v db db' \<longleftrightarrow>
     (case finish_request auth f now certify searches db of Inr (c, db1) \<Rightarrow> v = Certificate c \<and> db' = db1 | Inl _ \<Rightarrow> False)"
| "performs Call_Flush v db db' \<longleftrightarrow> v = Wrote \<and> db' = db"

lemma on_connection_Inr: "on_connection half f db = (Inr v, db') \<longleftrightarrow> f db = Inr (v, db')"
  by (auto simp: on_connection_def split: sum.split prod.split)

lemma accept_performs:
  assumes "accept_write half now time_left auth authority db = (Inr v, db')"
  shows "v = Wrote \<and> apply_accept_request None now time_left auth db = Inr db'"
proof (cases "authority db")
  case (Some e)
  then show ?thesis using assms
    by (simp add: accept_write_def on_connection_Inr rbind_eq_Inr_iff) (simp add: apply_accept_request_def)
qed (use assms in \<open>auto simp: accept_write_def on_connection_Inr rbind_eq_Inr_iff\<close>)

lemma start_performs:
  assumes "start_write half aid now period snap a authority db = (Inr v, db')"
  shows "v = Started aid \<and> apply_start_attempt None aid now period snap a db = Inr (aid, db')"
proof -
  obtain aid' where s: "apply_start_attempt (authority db) aid now period snap a db = Inr (aid', db')" "v = Started aid'"
    using assms by (auto simp: start_write_def on_connection_Inr rbind_eq_Inr_iff)
  then have "authority db = None" "aid' = aid" by (auto simp: apply_start_attempt_def rbind_eq_Inr_iff split: option.splits)
  with s show ?thesis by simp
qed

interpretation ledger_writer: serial_client "ledger_step storage_key make_id target" "ledger_submit half" performs
  for storage_key make_id target half
proof
  show "performs call v db db'" if "ledger_submit half call = Submit f None" "f db = (Inr v, db')" for call f db v db'
    using that by (cases call)
      (auto simp: chain_submit_def finish_write_def finish_request_write_def flush_write_def on_connection_Inr rbind_eq_Inr_iff)
  show "performs call v db db'"
    if "ledger_submit half call = Submit f (Some prepare)" "prepare d = Inr g" "g db = (Inr v, db')" for call f prepare d g db v db'
    using that by (cases call)
      (auto simp: chain_submit_def rbind_eq_Inr_iff dest!: accept_performs start_performs)
qed

section \<open>The reservation of an attempt\<close>

text \<open>What \<open>_start_attempt\<close> makes of the ledger's answer; \<open>failure_of\<close> is the failure an error carries, if any.\<close>

definition reservation_verdict ::
    "(py_error \<Rightarrow> gateway_failure option) \<Rightarrow> budget_failure + string \<times> ledger_db \<Rightarrow> ledger_verdict" where
  "reservation_verdict failure_of r =
     (case r of
        Inl (Budget_Reservation_Rejected scope_kind binding _) \<Rightarrow> Ledger_Budget scope_kind binding
      | Inl (Budget_Error e) \<Rightarrow> Ledger_Raised (failure_of e)
      | Inr (aid, _) \<Rightarrow> Ledger_Started aid)"

lemma verdict_started: "reservation_verdict failure_of r = Ledger_Started a \<Longrightarrow> \<exists>db. r = Inr (a, db)"
  by (auto simp: reservation_verdict_def split: sum.splits budget_failure.splits prod.splits)

text \<open>A reserved attempt is a dispatched row, and every limit it is charged to has room for its ceiling.\<close>

lemma reserved_row:
  assumes "apply_start_attempt authority aid now period snap args db = Inr (a, db')"
  shows "\<exists>t. attempt_of db' a = Some t \<and> t_state t = ''dispatched'' \<and> t_route_depth t = as_depth args
    \<and> t_deployment_id t = deployment_id (as_deployment args) \<and> t_reserved t = as_maximum_cost args"
proof -
  obtain stage ps q db1 where s: "a = aid" "insert_attempt (dispatched_row aid now ps snap stage q args) db = Inr db1"
    "with_budgets (require_attempt_budget (attempt_charge aid ps snap stage q args)) db1 = Inr db'"
    using start_attempt_Inr [OF assms] by metis
  note i = insert_attempt_Inr [OF s(2)] and rows = with_budgets_rows(1) [OF s(3)]
  have "attempt_of db aid = None" using i(3) by (auto simp: attempt_of_def find_None_iff dispatched_row_def Let_def)
  then have "attempt_of db' a = Some (dispatched_row aid now ps snap stage q args)"
    using s(1) rows i(1) by (simp add: attempt_of_def find_snoc dispatched_row_def Let_def)
  then show ?thesis
    by (simp add: dispatched_row_def Let_def record_tier_admission_def insert_attempt_prices_def split: option.split)
qed

lemma admitted_has_room:
  assumes run: "require_attempt_budget r tables = Inr tables'" and ids: "distinct (map budget_id (budgets tables))"
    and cost: "arg_maximum_cost r = Some cost" "0 < cost"
    and b: "b \<in> set (budgets tables')" "(budget_id b, arg_attempt_id r) \<in> charge_key ` set (charges tables')"
      "(budget_id b, arg_attempt_id r) \<notin> charge_key ` set (charges tables)"
  shows "reserved_nano_usd b + settled_nano_usd b \<le> limit_nano_usd b"
proof -
  note eff = require_attempt_budget_Inr [OF run ids, unfolded cost(1)]
  obtain b0 where b0: "b0 \<in> set (budgets tables)" "b = (if budget_id b0 \<in> budget_id ` set (select_applicable r (budgets tables))
      then reserve_budget (Some cost) b0 else b0)"
    using b(1) unfolding eff(1) by (auto simp: update_where_def)
  then have id: "budget_id b = budget_id b0" by (simp add: reserve_budget_def)
  have "budget_id b \<in> budget_id ` set (select_applicable r (budgets tables))"
    using b(2,3) unfolding eff(1) by (auto simp: charge_key_def reserve_charge_def image_iff)
  then have "applicable r b0" "b = reserve_budget (Some cost) b0"
    using b0 id distinct_key_eq [OF ids] by (auto simp: image_iff select_applicable_def)
  then show ?thesis using row_refusal_room [of cost b0] eff(3) b0(1) cost(2) by (simp add: reserve_budget_def)
qed

lemma reserved_within_limits:
  assumes inv: "ledger_inv db" and run: "apply_start_attempt authority aid now period snap args db = Inr (a, db')"
    and cost: "as_maximum_cost args = Some cost" "0 < cost"
    and b: "b \<in> set (budgets (db_tables db'))" "(budget_id b, a) \<in> charge_key ` set (charges (db_tables db'))"
      "(budget_id b, a) \<notin> charge_key ` set (charges (db_tables db))"
  shows "reserved_nano_usd b + settled_nano_usd b \<le> limit_nano_usd b"
proof -
  obtain stage ps q db1 where s: "a = aid"
    "insert_attempt (dispatched_row aid now ps snap stage q args) db = Inr db1"
    "with_budgets (require_attempt_budget (attempt_charge aid ps snap stage q args)) db1 = Inr db'"
    using start_attempt_Inr [OF run] by metis
  let ?r = "attempt_charge aid ps snap stage q args"
  obtain tables where t: "require_attempt_budget ?r (budget_view db1) = Inr tables"
    "db_tables db' = tables\<lparr>attempts := attempts (db_tables db1)\<rparr>"
    using s(3) by (auto simp: with_budgets_def rbind_eq_Inr_iff)
  have view: "budgets (budget_view db1) = budgets (db_tables db)" "charges (budget_view db1) = charges (db_tables db)"
    using insert_attempt_Inr(1) [OF s(2)] by (simp_all add: budget_view_def)
  have "distinct (map budget_id (budgets (budget_view db1)))" using inv by (simp add: view ledger_inv_def budget_inv_def)
  from admitted_has_room [OF t(1) this, of cost b] show ?thesis
    using cost b s(1) t(2) view by (simp add: attempt_charge_def Let_def)
qed

section \<open>A sample\<close>

text \<open>
  Two callers accept the same keyed operation at once: both land in one batch, and the second is refused after it has emptied
  the tables it was working on. Another connection sweeps for crashed requests in between.
\<close>

definition proven :: chain_proof where "proven = (\<lambda>db. None)"

definition sample_call :: "string \<Rightarrow> ledger_call" where
  "sample_call rid = Call_Accept (\<lambda>db. Inr proven) (\<lambda>db. Some (GatewayLedgerError ''missing proof'')) 10 20 (sample_keyed rid)"

definition sample_half :: "ledger_call \<Rightarrow> ledger_db \<Rightarrow> ledger_db" where
  "sample_half call db = db\<lparr>db_requests := []\<rparr>"

definition sample_traffic :: "(ledger_db, budget_failure, ledger_value) writer_op list" where
  "sample_traffic = [ledger_submit sample_half (sample_call ''r1''), Direct (\<lambda>db. Inr (sample_ledger_step (Crash_Sweep 30 0) db)),
     ledger_submit sample_half (sample_call ''r2''), Close] @ replicate 7 (Writer healthy)"

abbreviation sample_served :: "(ledger_db, budget_failure, ledger_value) writer_op list \<Rightarrow> (ledger_db, budget_failure, ledger_value) group_writer" where
  "sample_served ops \<equiv> fold gw_step ops (fresh_writer (Suc 1) (empty_ledger sample_tables))"

lemma sample_logs:
  "map (\<lambda>p. Submit (pw_apply p) (pw_prepare p)) (gw_submitted (sample_served sample_traffic)) =
     map (ledger_submit sample_half) [sample_call ''r1'', sample_call ''r2'']"
  "list_all2 (\<lambda>f op. \<forall>db. transact f db = sample_ledger_step op db) (gw_others (sample_served sample_traffic)) [Crash_Sweep 30 0]"
  unfolding sample_traffic_def fold_append comp_apply writer_logs
  by (simp_all add: gw_step_def close_def enqueue_def fresh_writer_def sample_call_def chain_submit_def transact_def Let_def)

lemma sample_answers:
  "2 = length (gw_futures (sample_served sample_traffic))" "gw_futures (sample_served sample_traffic) ! 0 = Result Wrote"
  "map q_request_id (db_requests (cn_durable (gw_connection (sample_served sample_traffic)))) = [''r1'']"
  by code_simp+

text \<open>The first dial of the accepted sample request, its turns answered by the ledger that accepted it.\<close>

definition sample_accepted :: ledger_db where
  "sample_accepted = sample_history [Accept_Request None 10 20 sample_authorization]"

definition sample_reserving_call :: start_call where
  "sample_reserving_call = sample_start_call\<lparr>sc_envs := \<lambda>i. (sample_walk_env i)\<lparr>we_ledger := \<lambda>args.
     reservation_verdict (\<lambda>_. None) (apply_start_attempt None ''a1'' 11 ''2026-01'' sample_snapshot args sample_accepted)\<rparr>\<rparr>"

lemma sample_reserving_runs:
  "\<exists>out w pace. start_attempt 3 sample_reserving_call sample_first_entry [] default_worker zero_counters = Some out
     \<and> so_reply out = Reply_Started ''a1'' 0 pace \<and> so_walk out = Some w"
proof -
  have "(case start_attempt 3 sample_reserving_call sample_first_entry [] default_worker zero_counters of
      None \<Rightarrow> False
    | Some out \<Rightarrow> (case so_reply out of Reply_Started a c pace \<Rightarrow> a = ''a1'' \<and> c = 0 | _ \<Rightarrow> False) \<and> so_walk out \<noteq> None)"
    by code_simp
  then show ?thesis by (auto split: option.splits start_reply.splits)
qed

section \<open>Properties\<close>

text \<open>
  C6. Concurrency is invisible in the ledger. Let any number of callers queue acceptances, reservations, settlements and
  certificates in any order, however the writer batches them, whichever statements SQLite fails, whatever a failed call left
  half done, whoever cancels or closes. The durable database is at every moment the outcome of running one after the other, from
  empty tables, exactly these: the calls that took effect, each once, in the order they were submitted, each committing with
  the value its caller was answered; and the transactions that other connections ran, in their order. Every call answered with
  a value is among them, and none of them was answered with an error.
\<close>

theorem durable_ledger_is_serial:
  assumes "reachable gw_step (\<lambda>_. True) (fresh_writer (Suc n) (empty_ledger db)) w"
    and "map (\<lambda>p. Submit (pw_apply p) (pw_prepare p)) (gw_submitted w) = map (ledger_submit half) calls"
    and "list_all2 (\<lambda>f op. \<forall>db. transact f db = ledger_step storage_key make_id target op db) (gw_others w) theirs"
  shows "\<exists>h ls. run (serial_move performs (ledger_step storage_key make_id target)) ls (empty_ledger db)
      (cn_durable (gw_connection w))
    \<and> ls \<in> shuffles (map (\<lambda>(i, v). Inl (calls ! i, v)) h) (map Inr theirs) \<and> sorted_wrt (<) (map fst h)
    \<and> (\<forall>i < length (gw_futures w). \<forall>v. gw_futures w ! i = Result v \<longrightarrow> (i, v) \<in> set h)
    \<and> (\<forall>(i, v) \<in> set h. i < length (gw_futures w) \<and> gw_futures w ! i \<in> {Result v, Notified})"
proof (rule reachable_acknowledged [OF assms(1)])
  fix h
  assume h: "history (gw_submitted w) (empty_ledger db) (gw_others w) h (cn_durable (gw_connection w))" "sorted_wrt (<) (map fst h)"
    "\<And>i v. i < length (gw_futures w) \<Longrightarrow> gw_futures w ! i = Result v \<Longrightarrow> (i, v) \<in> set h"
    "\<And>i v. (i, v) \<in> set h \<Longrightarrow> i < length (gw_futures w) \<and> gw_futures w ! i \<in> {Result v, Notified}"
  obtain ls where "ls \<in> shuffles (map (\<lambda>(i, v). Inl (calls ! i, v)) h) (map Inr theirs)"
    "run (serial_move performs (ledger_step storage_key make_id target)) ls (empty_ledger db) (cn_durable (gw_connection w))"
    using ledger_writer.history_is_serial [OF h(1) assms(2,3)] ..
  then show ?thesis using h(2-4) by (intro exI [of _ h] exI [of _ ls]) blast
qed

theorem durable_ledger_is_serial_witness:
  "\<exists>h ls. run (serial_move performs sample_ledger_step) ls (empty_ledger sample_tables)
      (cn_durable (gw_connection (sample_served sample_traffic)))
    \<and> ls \<in> shuffles (map (\<lambda>(i, v). Inl ([sample_call ''r1'', sample_call ''r2''] ! i, v)) h) [Inr (Crash_Sweep 30 0)]
    \<and> (0, Wrote) \<in> set h"
proof -
  let ?w = "sample_served sample_traffic"
  have r: "reachable gw_step (\<lambda>_. True) (fresh_writer (Suc 1) (empty_ledger sample_tables)) ?w"
    by (rule reachable_fold) (simp add: list_all_iff)
  from durable_ledger_is_serial [OF r sample_logs] obtain h ls where h:
    "run (serial_move performs sample_ledger_step) ls (empty_ledger sample_tables) (cn_durable (gw_connection ?w))"
    "ls \<in> shuffles (map (\<lambda>(i, v). Inl ([sample_call ''r1'', sample_call ''r2''] ! i, v)) h) (map Inr [Crash_Sweep 30 0])"
    "\<forall>i < length (gw_futures ?w). \<forall>v. gw_futures ?w ! i = Result v \<longrightarrow> (i, v) \<in> set h" by blast
  then show ?thesis using sample_answers by fastforce
qed



end
