(* ===== verification/Spec2Isabelle.thy ===== *)
theory Spec2Isabelle
  imports Ledger_Writer
begin

text \<open>
  A verification library for the money, budget and dispatch core of the model gateway under
  \<^verbatim>\<open>src/exp/runtime/gateway\<close> and \<^verbatim>\<open>src/exp/common/models\<close>.

  \<^bold>\<open>The program.\<close> One request to the gateway names a model; the catalogue answers with a ladder of rungs, each an
  exact deployment reached over one connection. The gateway estimates the most a dispatch can cost from the rung's price
  card, reserves that ceiling against every monthly limit that applies, takes a slot on the rung, claims the deployment's
  health circuit, dials, and on a failure decides whether to retry the rung, to move on, or to surface the failure. When
  the attempt ends it is valued at the rates frozen when it began, the reservation is settled at that value, the slot is
  returned and the outcome reaches the health registry and the rung's calibration. Requests, attempts and charges are rows of
  one SQLite database: every acceptance, reservation, settlement and late correction is one transaction on it.

  \<^bold>\<open>Theories and sources.\<close>
  \<^item> \<open>Prelude\<close>: results with Python's exceptions as values, insertion-ordered dictionaries, table rows, reachability and
    the locales \<open>component\<close> (a step function, its start state and an invariant every step keeps),
    \<open>refined_component\<close> (each step is a sequence of moves of an abstract relation) and \<open>labelled_refinement\<close> (each step is
    a run of a labelled relation, with labels the operation stands for).
  \<^item> \<open>Catalog_Prices\<close>: price cards of \<^verbatim>\<open>catalog_prices.py\<close>, their validators, long-context and service tiers, peak
    windows and the off-peak card (\<open>applies_at\<close>, \<open>effective_at\<close>).
  \<^item> \<open>Token_Cost\<close>: \<^verbatim>\<open>token_cost.py\<close>; every token is charged once, the sum is rounded once, and the catalogue
    estimate bounds the charge except for 12-hour cache writes.
  \<^item> \<open>Contracts\<close>: usage, terminal events and failures of \<^verbatim>\<open>stream_contracts.py\<close>, the dispatch policy of
    \<^verbatim>\<open>dispatch_policy.py\<close>, the deployment fields accounting reads.
  \<^item> \<open>Ledger_Valuation\<close>: \<^verbatim>\<open>ledger_valuation.py\<close>, the rates an attempt row freezes and the value a terminal event gives.
  \<^item> \<open>Attempt_Costs\<close>: \<^verbatim>\<open>attempt_costs.py\<close> with the unit ceilings of embeddings, images, audio and video; a
    reservation covers what settlement charges for a usage within the counts it was computed from.
  \<^item> \<open>Budgets\<close>, \<open>Budget_Accounts\<close>: \<^verbatim>\<open>budgets.py\<close> over its two tables. Counters equal the sums of their charges after
    every sequence of transactions, admission stays within limits, settlement happens once, strict limits fail closed.
  \<^item> \<open>Lane_Ejection\<close>, \<open>Health\<close>: \<^verbatim>\<open>lane_ejection.py\<close> and \<^verbatim>\<open>health.py\<close>; streaks, cooldowns, half-open probes,
    throttle windows and the claim methods, with the claim disciplines as locales.
  \<^item> \<open>Waterfall\<close>: the claim walk over a ladder, the successor of a failed dispatch, failover-only rungs, disclosure and
    the execution stages of \<^verbatim>\<open>native_execution.py\<close>, \<^verbatim>\<open>native_fallback_rules.py\<close> and \<^verbatim>\<open>execution_snapshot.py\<close>.
  \<^item> \<open>Fleet_Lanes\<close>: \<^verbatim>\<open>fleet_lanes.py\<close>; leases of a host gate are conserved.
  \<^item> \<open>Rung_Admission\<close>, \<open>Rung_Accounting\<close>, \<open>Rung_Limits\<close>: \<^verbatim>\<open>rung_admission.py\<close>; counters are the outstanding tickets,
    admissions respect the limits they are judged against, fair share is work conserving, throttles back off and recover, cache evidence is a
    fraction.
  \<^item> \<open>Sticky_Affinity\<close>: \<^verbatim>\<open>sticky_affinity.py\<close> and its placement order; a binding lapses when idle and at its age limit, the table
    stays within its capacity, a sticky preference only reorders the ladder.
  \<^item> \<open>Lane_Saturation\<close>: \<^verbatim>\<open>lane_saturation.py\<close> and \<^verbatim>\<open>class_throttles.py\<close>; which shed rung an overflow may force,
    and the request-class levers of self-hosted rungs.
  \<^item> \<open>Failover_Pass\<close>: \<^verbatim>\<open>failover_pass.py\<close> and the in-flight entry of a request; the walk after a failed dispatch ends,
    and it forces only rungs that shed on a soft limit.
  \<^item> \<open>Rung_Policy\<close>: \<^verbatim>\<open>native_rung_policy.py\<close>; the bound a reservation is judged by, throttle dispositions, redial
    budgets and the attempt's health and calibration record.
  \<^item> \<open>Dispatch_Worker\<close>: one worker's registries together (health, slots, sticky bindings) under arbitrary sequences of
    claims, reservations, bindings, releases and outcomes (\<open>worker_op\<close>); the books balance and settlement returns the slot.
  \<^item> \<open>Service_Tiers\<close>: \<^verbatim>\<open>service_tiers.py\<close>, \<^verbatim>\<open>native_attempt_pricing.py\<close>, \<^verbatim>\<open>native_service_tiers.py\<close> and the pricing part of
    \<^verbatim>\<open>ledger_service_tiers.py\<close>; whatever tier a provider reports, a usage within the reserved
    counts settles within the ceiling reserved.
  \<^item> \<open>Start_Attempt\<close>, \<open>Attempt_Walk\<close>, \<open>Attempt_Gates\<close>: the selection loop \<open>_start_attempt\<close> of \<^verbatim>\<open>native_accounting.py\<close>.
    \<open>Start_Attempt\<close> translates it step by step (\<open>walk_step\<close>, run by \<open>run_walk\<close>), \<open>Attempt_Walk\<close> bounds its length and
    \<open>Attempt_Gates\<close> holds what it promises: it returns, an attempt it starts passed every gate, and no slot is leaked.
  \<^item> \<open>Ledger\<close>: the write transactions of \<^verbatim>\<open>ledger.py\<close>, \<^verbatim>\<open>ledger_reconciliation.py\<close>, \<^verbatim>\<open>ledger_requests.py\<close> and the receipt
    replay of \<^verbatim>\<open>ledger_service_tiers.py\<close> over one database, whose budget tables are those of \<open>Budgets\<close>.
  \<^item> \<open>Ledger_Accounts\<close>, \<open>Ledger_Replay\<close>: the invariant of that database, its abstract journal of attempts and the
    simulation (locale \<open>refined_component\<close>); counters stay exact, outcomes are final, an operation key has one effect and
    a repeated settlement changes nothing.
  \<^item> \<open>Group_Commit\<close>: the writer thread of \<^verbatim>\<open>group_commit.py\<close>, which drains the queue of all callers into batches, one
    transaction each with a savepoint per write, and resolves the callers' futures. Any value can be the database; a write
    that raises leaves it half changed, which \<open>ROLLBACK TO\<close> undoes.
  \<^item> \<open>Group_Commit_Refinement\<close>, \<open>Group_Commit_Answers\<close>: the writer refines a queue that serves one write at a time, step
    by step and label by label; the durable database is what the acknowledged writes and the transactions of other
    connections made of it, in order, and every caller is answered. Locale \<open>serial_client\<close> carries that over to the
    operations of a client.
  \<^item> \<open>Ledger_Writer\<close>: the facades that queue ledger transactions on the writer, and attempt selection joined to the ledger.
    The durable ledger is the serial run of exactly the acknowledged calls and the transactions of other connections, and an
    attempt that selection starts has a row whose ceiling, when it is known and positive, fits every limit.

  \<^bold>\<open>Modelling decisions.\<close> Python's \<open>int\<close> is \<^typ>\<open>int\<close>; amounts that reach SQLite carry the code's own check against
  the signed 64-bit maximum. \<open>float\<close> readings of clocks, rates and fractions are \<^typ>\<open>real\<close>: rounding of binary floating
  point is not modelled. A dictionary is an association list with distinct keys in insertion order, a SQL table a list of
  rows, an \<open>UPDATE\<close> with a \<open>WHERE\<close> clause a map over the rows that satisfy it, and a transaction that raises leaves
  the caller with the error and no new state. A class is a record, each method one function from state to result and state;
  the registries hold one lock per method, so a method is one step and an interleaving of threads is a sequence of steps.
  A clock reading is an argument (\<open>clock n\<close> for the \<open>n\<close>-th reading of a walk), and so is a fresh UUID. An exception is
  the left injection of a sum, with Python's type and message. Code outside the repository is a parameter: the storage key
  and budget identifier hashes, the host fleet gate's verdicts. Loops are structural recursion over the collection the
  Python loop walks, or \<open>fold\<close>. Only the open loop of attempt selection has fuel: \<open>run_walk\<close> counts its turns, and
  \<open>start_attempt_returns\<close> shows that a number of turns that depends on the length of the route alone (\<open>walk_bound\<close>)
  always suffices and that more never changes the outcome. Between two turns of that loop other requests may change every
  registry arbitrarily within its invariant (\<open>we_interference\<close>). The writer thread takes one step per item it fetches and
  one per batch; what SQLite answers to each statement (\<open>storage_answers\<close>) is an argument of the step, so every failure at
  every point is covered, and callers, cancellations and other connections act between the steps in any order.

  \<^bold>\<open>Not modelled.\<close> Request and response codecs, HTTP clients, SQLite below the statements of \<^verbatim>\<open>budgets.py\<close> and the
  ledger (locking, the read-only usage reports), the asyncio waiters of the group-commit writer,
  capture, guardrails, tool and web search, simulation, optimisation, the command line: I/O, third-party wire formats or
  model-driven behaviour.
\<close>

end
